(* ===== verification/Prelude.thy ===== *)
theory Prelude
  imports Main "HOL-Library.Char_ord" "HOL-Library.List_Lexorder" "HOL-Library.Sublist"
    "HOL-Library.Word" "HOL-Library.Multiset"
begin

text \<open>
  The parts of Go and of its standard library that the modelled packages share.

  A Go \<open>string\<close> or \<open>[]byte\<close> is a list of 8-bit characters, so \<open>len\<close> is \<^const>\<open>length\<close>
  and the comparison of two Go strings is the lexicographic order of
  \<open>HOL-Library.List_Lexorder\<close> over the byte order of \<open>HOL-Library.Char_ord\<close>.
  An \<open>int64\<close> is an \<^typ>\<open>int\<close> whose operations wrap explicitly with \<open>i64\<close>; a
  \<open>uint64\<close> is a \<open>64 word\<close>.  A Go call that returns a value and an error is a
  function into \<open>option\<close>, or into \<open>error + 'a\<close> where the callers tell errors apart.

  The theory holds: the \<open>strings\<close>, \<open>encoding/hex\<close> and \<open>strconv\<close> functions the code
  calls, wrap-around arithmetic, generic list lemmas, and a worklist
  reachability search that the graph walks of the scheduler instantiate.
\<close>

type_synonym bytes = string

named_theorems go_str \<open>definitions of the modelled string functions\<close>
named_theorems i64_simps \<open>facts on wrap-around 64-bit arithmetic\<close>

section \<open>Strings\<close>

definition HasPrefix :: "string \<Rightarrow> string \<Rightarrow> bool" where
  "HasPrefix s p \<longleftrightarrow> take (length p) s = p"

definition HasSuffix :: "string \<Rightarrow> string \<Rightarrow> bool" where
  "HasSuffix s p \<longleftrightarrow> length p \<le> length s \<and> drop (length s - length p) s = p"

definition CutPrefix :: "string \<Rightarrow> string \<Rightarrow> string option" where
  "CutPrefix s p = (if HasPrefix s p then Some (drop (length p) s) else None)"

definition TrimPrefix :: "string \<Rightarrow> string \<Rightarrow> string" where
  "TrimPrefix s p = (if HasPrefix s p then drop (length p) s else s)"

definition TrimSuffix :: "string \<Rightarrow> string \<Rightarrow> string" where
  "TrimSuffix s p = (if HasSuffix s p then take (length s - length p) s else s)"

text \<open>\<open>strings.Cut\<close> (and \<open>IndexByte\<close> plus slicing) at a one-byte separator.\<close>

fun Cut :: "char \<Rightarrow> string \<Rightarrow> (string \<times> string) option" where
  "Cut c [] = None"
| "Cut c (x # xs) =
     (if x = c then Some ([], xs)
      else (case Cut c xs of None \<Rightarrow> None | Some (b, a) \<Rightarrow> Some (x # b, a)))"

text \<open>\<open>strings.ReplaceAll\<close> with one-byte old and new strings.\<close>

definition ReplaceAll :: "string \<Rightarrow> char \<Rightarrow> char \<Rightarrow> string" where
  "ReplaceAll s old new = map (\<lambda>x. if x = old then new else x) s"

text \<open>\<open>strings.Split\<close> at a one-byte separator: never empty.\<close>

fun SplitOn :: "char \<Rightarrow> string \<Rightarrow> string list" where
  "SplitOn c [] = [[]]"
| "SplitOn c (x # xs) =
     (if x = c then [] # SplitOn c xs
      else (case SplitOn c xs of [] \<Rightarrow> [[x]] | y # ys \<Rightarrow> (x # y) # ys))"

text \<open>
  \<open>strings.TrimSpace\<close>: the UTF-8 encodings of the runes of \<open>unicode.IsSpace\<close>,
  stripped repeatedly on the left and then on the right.  UTF-8 is
  self-synchronising, so a rune at the end of the string is a byte suffix.
\<close>

definition spaceRunes :: "string list" where
  "spaceRunes =
     [[CHR 0x20], [CHR 0x09], [CHR 0x0A], [CHR 0x0B], [CHR 0x0C], [CHR 0x0D],
      [CHR 0xC2, CHR 0x85], [CHR 0xC2, CHR 0xA0], [CHR 0xE1, CHR 0x9A, CHR 0x80],
      [CHR 0xE2, CHR 0x80, CHR 0x80], [CHR 0xE2, CHR 0x80, CHR 0x81], [CHR 0xE2, CHR 0x80, CHR 0x82],
      [CHR 0xE2, CHR 0x80, CHR 0x83], [CHR 0xE2, CHR 0x80, CHR 0x84], [CHR 0xE2, CHR 0x80, CHR 0x85],
      [CHR 0xE2, CHR 0x80, CHR 0x86], [CHR 0xE2, CHR 0x80, CHR 0x87], [CHR 0xE2, CHR 0x80, CHR 0x88],
      [CHR 0xE2, CHR 0x80, CHR 0x89], [CHR 0xE2, CHR 0x80, CHR 0x8A], [CHR 0xE2, CHR 0x80, CHR 0xA8],
      [CHR 0xE2, CHR 0x80, CHR 0xA9], [CHR 0xE2, CHR 0x80, CHR 0xAF], [CHR 0xE2, CHR 0x81, CHR 0x9F],
      [CHR 0xE3, CHR 0x80, CHR 0x80]]"

function trimRunes :: "string list \<Rightarrow> string \<Rightarrow> string" where
  "trimRunes rs s =
     (case find (\<lambda>p. p \<noteq> [] \<and> HasPrefix s p) rs of
        None \<Rightarrow> s | Some p \<Rightarrow> trimRunes rs (drop (length p) s))"
  by pat_completeness auto
termination
proof (relation "measure (\<lambda>(rs, s). length s)", goal_cases)
  case (2 rs s p)
  then have "p \<noteq> []" "HasPrefix s p" by (auto simp: find_Some_iff)
  then show ?case by (cases p; cases s) (auto simp: HasPrefix_def)
qed simp

declare trimRunes.simps [simp del]

definition TrimSpace :: "string \<Rightarrow> string" where
  "TrimSpace s = rev (trimRunes (map rev spaceRunes) (rev (trimRunes spaceRunes s)))"

section \<open>Hexadecimal and decimal\<close>

definition hexDigit :: "nat \<Rightarrow> char" where
  "hexDigit n = ''0123456789abcdef'' ! n"

definition hexVal :: "char \<Rightarrow> nat option" where
  "hexVal c =
     (let n = of_char c :: nat in
      if 48 \<le> n \<and> n \<le> 57 then Some (n - 48)
      else if 97 \<le> n \<and> n \<le> 102 then Some (n - 87)
      else if 65 \<le> n \<and> n \<le> 70 then Some (n - 55) else None)"

fun EncodeToString :: "bytes \<Rightarrow> string" where
  "EncodeToString [] = []"
| "EncodeToString (c # cs) =
     hexDigit (of_char c div 16) # hexDigit (of_char c mod 16) # EncodeToString cs"

fun DecodeString :: "string \<Rightarrow> bytes option" where
  "DecodeString [] = Some []"
| "DecodeString [_] = None"
| "DecodeString (a # b # cs) =
     (case (hexVal a, hexVal b, DecodeString cs) of
        (Some x, Some y, Some r) \<Rightarrow> Some (char_of (16 * x + y) # r)
      | _ \<Rightarrow> None)"

definition lowerHex :: "char \<Rightarrow> bool" where
  "lowerHex c \<longleftrightarrow>
     (let n = of_char c :: nat in 48 \<le> n \<and> n \<le> 57 \<or> 97 \<le> n \<and> n \<le> 102)"

definition isDigit :: "char \<Rightarrow> bool" where
  "isDigit c \<longleftrightarrow> 48 \<le> (of_char c :: nat) \<and> (of_char c :: nat) \<le> 57"

fun FormatNat :: "nat \<Rightarrow> string" where
  "FormatNat n = (if n < 10 then [char_of (48 + n)] else FormatNat (n div 10) @ [char_of (48 + n mod 10)])"

declare FormatNat.simps [simp del]

definition digitsVal :: "string \<Rightarrow> nat" where
  "digitsVal s = fold (\<lambda>c acc. 10 * acc + (of_char c - 48)) s 0"

section \<open>Sixty-four-bit integers\<close>

definition i64 :: "int \<Rightarrow> int" where
  "i64 x = (x + 2 ^ 63) mod 2 ^ 64 - 2 ^ 63"

definition inI64 :: "int \<Rightarrow> bool" where
  "inI64 x \<longleftrightarrow> - (2 ^ 63) \<le> x \<and> x < 2 ^ 63"

text \<open>\<open>strconv.ParseInt(s, 10, 64)\<close>: an optional sign, at least one digit,
  and an error when the value does not fit.\<close>

definition ParseInt :: "string \<Rightarrow> int option" where
  "ParseInt s =
     (let (neg, ds) = (case s of
             [] \<Rightarrow> (False, [])
           | c # cs \<Rightarrow> if c = CHR ''-'' then (True, cs)
                       else if c = CHR ''+'' then (False, cs) else (False, s));
          v = (if neg then - int (digitsVal ds) else int (digitsVal ds))
      in if ds = [] \<or> \<not> list_all isDigit ds then None
         else if inI64 v then Some v else None)"

section \<open>First occurrences\<close>

text \<open>The loop that keeps an element unless its key was seen before.\<close>

fun dedupBy :: "('a \<Rightarrow> 'b) \<Rightarrow> 'b list \<Rightarrow> 'a list \<Rightarrow> 'a list" where
  "dedupBy f seen [] = []"
| "dedupBy f seen (x # xs) =
     (if f x \<in> set seen then dedupBy f seen xs else x # dedupBy f (f x # seen) xs)"

section \<open>Reachability by worklist\<close>

text \<open>
  Graph walks over node references below a bound \<open>b\<close>: pop a reference, skip it
  when seen, otherwise mark it and push its successors.  The source writes this
  loop with a slice as the stack and a map as the seen set.
\<close>

lemma card_less_diff_insert:
  "x < (b::nat) \<Longrightarrow> x \<notin> set seen \<Longrightarrow> card ({..<b} - set (x # seen)) < card ({..<b} - set seen)"
proof (rule psubset_card_mono)
  assume a: "x < b" "x \<notin> set seen"
  then have "x \<in> {..<b} - set seen" "x \<notin> {..<b} - set (x # seen)" by simp_all
  moreover have "{..<b} - set (x # seen) \<subseteq> {..<b} - set seen" by (simp add: subset_iff)
  ultimately show "{..<b} - set (x # seen) \<subset> {..<b} - set seen" by (metis psubsetI)
qed simp

function dfs :: "nat \<Rightarrow> (nat \<Rightarrow> nat list) \<Rightarrow> nat list \<Rightarrow> nat list \<Rightarrow> nat list" where
  "dfs b succ [] seen = seen"
| "dfs b succ (x # st) seen =
     (if x \<in> set seen \<or> b \<le> x then dfs b succ st seen
      else dfs b succ (succ x @ st) (x # seen))"
  by pat_completeness auto
termination
proof (relation "measures [\<lambda>(b, succ, st, seen). card ({..<b} - set seen), \<lambda>(b, succ, st, seen). length st]", goal_cases)
  case 1 show ?case by simp
next
  case (2 b succ x st seen)
  then show ?case by simp
next
  case (3 b succ x st seen)
  then have "card ({..<b} - set (x # seen)) < card ({..<b} - set seen)"
    by (intro card_less_diff_insert) auto
  then show ?case unfolding in_measures case_prod_conv by (rule disjI1)
qed

inductive_set reach :: "(nat \<Rightarrow> nat list) \<Rightarrow> nat \<Rightarrow> nat set" for succ :: "nat \<Rightarrow> nat list" and r :: nat where
  reach_root: "r \<in> reach succ r"
| reach_step: "x \<in> reach succ r \<Longrightarrow> y \<in> set (succ x) \<Longrightarrow> y \<in> reach succ r"

section \<open>Lemmas: strings\<close>

lemma HasPrefix_append [simp]: "HasPrefix (p @ s) p"
  by (simp add: HasPrefix_def)

lemma HasPrefix_iff: "HasPrefix s p \<longleftrightarrow> (\<exists>t. s = p @ t)"
  by (metis HasPrefix_append HasPrefix_def append_take_drop_id)

lemma HasPrefix_prefix: "HasPrefix s p \<longleftrightarrow> prefix p s"
  by (simp add: HasPrefix_iff prefix_def)

lemma CutPrefix_append [simp]: "CutPrefix (p @ s) p = Some s"
  by (simp add: CutPrefix_def)

lemma CutPrefix_Some_iff: "CutPrefix s p = Some t \<longleftrightarrow> s = p @ t"
  by (auto simp: CutPrefix_def HasPrefix_def split: if_splits) (metis append_take_drop_id)

lemma Cut_Some_append: "Cut c s = Some (b, a) \<Longrightarrow> s = b @ c # a \<and> c \<notin> set b"
  by (induction s arbitrary: b a) (auto split: if_splits option.splits)

lemma Cut_append [simp]: "c \<notin> set b \<Longrightarrow> Cut c (b @ c # a) = Some (b, a)"
  by (induction b) auto

lemma Cut_None_iff: "Cut c s = None \<longleftrightarrow> c \<notin> set s"
  by (induction s) (auto split: option.splits)

lemma Cut_Some_iff: "Cut c s = Some (b, a) \<longleftrightarrow> s = b @ c # a \<and> c \<notin> set b"
  using Cut_Some_append Cut_append by metis

lemma SplitOn_nonempty [simp]: "SplitOn c s \<noteq> []"
  by (induction s) (auto split: list.splits)

lemma SplitOn_no_sep: "x \<in> set (SplitOn c s) \<Longrightarrow> c \<notin> set x"
proof (induction s arbitrary: x)
  case (Cons a s)
  then show ?case by (cases "SplitOn c s") (auto split: if_splits)
qed simp

lemma set_ReplaceAll: "new \<noteq> old \<Longrightarrow> old \<notin> set (ReplaceAll s old new)"
  by (auto simp: ReplaceAll_def)

lemma trimRunes_id:
  "(\<And>p. p \<in> set rs \<Longrightarrow> p \<noteq> [] \<Longrightarrow> \<not> HasPrefix s p) \<Longrightarrow> trimRunes rs s = s"
  by (subst trimRunes.simps) (auto split: option.splits simp: find_Some_iff)

lemma HasPrefix_Cons: "HasPrefix s (c # p) \<longleftrightarrow> (\<exists>t. s = c # t \<and> HasPrefix t p)"
  by (cases s) (auto simp: HasPrefix_def)

text \<open>Printable ASCII other than the space starts and ends no space rune.\<close>

definition graphic :: "char \<Rightarrow> bool" where
  "graphic c \<longleftrightarrow> 0x21 \<le> (of_char c :: nat) \<and> (of_char c :: nat) \<le> 0x7E"

lemma trimRunes_graphic:
  assumes "s = [] \<or> graphic (hd s)" and "list_all (\<lambda>p. p \<noteq> [] \<and> \<not> graphic (hd p)) rs"
  shows "trimRunes rs s = s"
proof (rule trimRunes_id)
  fix p assume "p \<in> set rs" "p \<noteq> []"
  then have "\<not> graphic (hd p)" using assms(2) by (auto simp: list_all_iff)
  with assms(1) \<open>p \<noteq> []\<close> show "\<not> HasPrefix s p"
    by (cases p) (auto simp: HasPrefix_Cons)
qed

lemma TrimSpace_graphic:
  assumes "s = [] \<or> graphic (hd s) \<and> graphic (last s)"
  shows "TrimSpace s = s"
proof -
  have l: "list_all (\<lambda>p. p \<noteq> [] \<and> \<not> graphic (hd p)) spaceRunes"
    and r: "list_all (\<lambda>p. p \<noteq> [] \<and> \<not> graphic (hd p)) (map rev spaceRunes)"
    by code_simp+
  from assms have "trimRunes spaceRunes s = s" by (intro trimRunes_graphic l) auto
  moreover from assms have "trimRunes (map rev spaceRunes) (rev s) = rev s"
    by (intro trimRunes_graphic r) (auto simp: hd_rev)
  ultimately show ?thesis by (simp add: TrimSpace_def)
qed

section \<open>Lemmas: hexadecimal and decimal\<close>

lemma all_less_16: "(\<forall>n<16. P (n::nat)) \<longleftrightarrow> list_all P [0..<16]"
  by (auto simp: list_all_iff)

lemma hexVal_hexDigit [simp]: "n < 16 \<Longrightarrow> hexVal (hexDigit n) = Some n"
proof -
  have "\<forall>n<16. hexVal (hexDigit n) = Some n"
    unfolding all_less_16 by code_simp
  then show "n < 16 \<Longrightarrow> hexVal (hexDigit n) = Some n" by blast
qed

lemma of_char_less_256 [simp]: "(of_char c :: nat) < 256"
  using of_char_mod_256 [of c, where 'a = nat] by (metis mod_less_divisor zero_less_numeral)

lemma of_char_div_16 [simp]: "(of_char c :: nat) div 16 < 16"
  using of_char_less_256 [of c] by (simp add: less_mult_imp_div_less)

theorem DecodeString_EncodeToString [simp]: "DecodeString (EncodeToString bs) = Some bs"
  by (induction bs) (simp_all add: mult_div_mod_eq)

lemma length_EncodeToString [simp]: "length (EncodeToString bs) = 2 * length bs"
  by (induction bs) auto

lemma EncodeToString_inj [simp]: "EncodeToString a = EncodeToString b \<longleftrightarrow> a = b"
  by (metis DecodeString_EncodeToString option.inject)

lemma hexDigit_lowerHex: "n < 16 \<Longrightarrow> lowerHex (hexDigit n)"
proof -
  have "\<forall>n<16. lowerHex (hexDigit n)"
    unfolding all_less_16 by code_simp
  then show "n < 16 \<Longrightarrow> lowerHex (hexDigit n)" by blast
qed

lemma lowerHex_EncodeToString: "list_all lowerHex (EncodeToString bs)"
  by (induction bs) (auto simp: hexDigit_lowerHex)

lemma notin_EncodeToString: "\<not> lowerHex c \<Longrightarrow> c \<notin> set (EncodeToString bs)"
  using lowerHex_EncodeToString [of bs] by (auto simp: list_all_iff)

lemma EncodeToString_Nil_iff [simp]: "EncodeToString bs = [] \<longleftrightarrow> bs = []"
  by (cases bs) auto

lemma DecodeString_length: "DecodeString s = Some bs \<Longrightarrow> length s = 2 * length bs"
  by (induction s arbitrary: bs rule: DecodeString.induct) (auto split: option.splits)

lemma FormatNat_digits: "list_all isDigit (FormatNat n)"
proof (induction n rule: FormatNat.induct)
  case (1 n)
  have "isDigit (char_of (48 + m))" if "m < 10" for m :: nat
    using that by (simp add: isDigit_def)
  with 1 show ?case
    by (subst FormatNat.simps) auto
qed

lemma FormatNat_nonempty [simp]: "FormatNat n \<noteq> []"
  by (subst FormatNat.simps) auto

lemma digitsVal_append [simp]:
  "digitsVal (s @ [c]) = 10 * digitsVal s + (of_char c - 48)"
  by (simp add: digitsVal_def)

lemma digitsVal_FormatNat [simp]: "digitsVal (FormatNat n) = n"
proof (induction n rule: FormatNat.induct)
  case (1 n)
  then show ?case
    by (subst FormatNat.simps) (auto simp: digitsVal_def)
qed

lemma char_of_digits:
  "char_of (48::nat) = CHR ''0''" "char_of (49::nat) = CHR ''1''" "char_of (50::nat) = CHR ''2''"
  "char_of (51::nat) = CHR ''3''" "char_of (52::nat) = CHR ''4''" "char_of (53::nat) = CHR ''5''"
  "char_of (54::nat) = CHR ''6''" "char_of (55::nat) = CHR ''7''" "char_of (56::nat) = CHR ''8''"
  "char_of (57::nat) = CHR ''9''"
  by (simp_all add: char_of_def bit_0)

lemmas FormatNat_eval = FormatNat.simps char_of_digits

lemma FormatNat_inj [simp]: "FormatNat m = FormatNat n \<longleftrightarrow> m = n"
  by (metis digitsVal_FormatNat)

lemma notin_FormatNat: "\<not> isDigit c \<Longrightarrow> c \<notin> set (FormatNat n)"
  using FormatNat_digits [of n] by (auto simp: list_all_iff)

section \<open>Lemmas: wrap-around\<close>

lemma i64_range [simp]: "inI64 (i64 x)"
  by (auto simp: i64_def inI64_def)

lemma i64_id [i64_simps]: "inI64 x \<Longrightarrow> i64 x = x"
  by (auto simp: i64_def inI64_def)

lemma i64_idem [simp]: "i64 (i64 x) = i64 x"
  by (simp add: i64_simps)

lemma i64_add [i64_simps]: "i64 (i64 x + y) = i64 (x + y)"
  unfolding i64_def by (simp add: mod_simps algebra_simps)

lemma i64_mod: "i64 x mod 2 ^ 64 = x mod 2 ^ 64"
  unfolding i64_def by (simp add: mod_simps)

lemma ParseInt_FormatNat: "int n < 2 ^ 63 \<Longrightarrow> ParseInt (FormatNat n) = Some (int n)"
proof -
  assume n: "int n < 2 ^ 63"
  obtain c cs where f: "FormatNat n = c # cs" by (cases "FormatNat n") auto
  have "c \<noteq> CHR ''-'' \<and> c \<noteq> CHR ''+''"
    using FormatNat_digits [of n] by (auto simp: f isDigit_def)
  then show ?thesis
    using n FormatNat_digits [of n] digitsVal_FormatNat [of n]
    by (simp add: ParseInt_def f inI64_def)
qed

section \<open>Lemmas: reachability\<close>

lemma reach_trans: "y \<in> reach succ x \<Longrightarrow> z \<in> reach succ y \<Longrightarrow> z \<in> reach succ x"
  by (rotate_tac 1, induction rule: reach.induct) (auto intro: reach.intros)

lemma reach_subset_closed:
  "x \<in> S \<Longrightarrow> (\<And>u v. u \<in> S \<Longrightarrow> v \<in> set (succ u) \<Longrightarrow> v \<in> S) \<Longrightarrow> reach succ x \<subseteq> S"
proof
  fix y assume "x \<in> S" and cl: "\<And>u v. u \<in> S \<Longrightarrow> v \<in> set (succ u) \<Longrightarrow> v \<in> S" and "y \<in> reach succ x"
  from this(3) this(1) show "y \<in> S" by (induction rule: reach.induct) (auto intro: cl)
qed

lemma dfs_keeps: "set seen \<subseteq> set (dfs b succ st seen)"
  by (induction b succ st seen rule: dfs.induct) auto

lemma dfs_stack:
  "set st \<inter> {..<b} \<subseteq> set (dfs b succ st seen)"
proof (induction b succ st seen rule: dfs.induct)
  case (2 b succ x st seen)
  then show ?case using dfs_keeps [of seen b succ st] dfs_keeps [of "x # seen" b succ "succ x @ st"]
    by auto
qed simp

lemma dfs_closed:
  assumes "\<And>u v. u \<in> set seen \<Longrightarrow> v \<in> set (succ u) \<Longrightarrow> v < b \<Longrightarrow> v \<in> set seen \<union> set st"
    and "u \<in> set (dfs b succ st seen)" "v \<in> set (succ u)" "v < b"
  shows "v \<in> set (dfs b succ st seen)"
  using assms
proof (induction b succ st seen rule: dfs.induct)
  case (2 b succ x st seen)
  note cl = "2.prems"(1)
  show ?case
  proof (cases "x \<in> set seen \<or> b \<le> x")
    case True
    have "v \<in> set seen \<union> set st" if "u \<in> set seen" "v \<in> set (succ u)" "v < b" for u v
      using cl [OF that] True that(3) by auto
    with True 2 show ?thesis by auto
  next
    case False
    have "v \<in> set (x # seen) \<union> set (succ x @ st)" if "u \<in> set (x # seen)" "v \<in> set (succ u)" "v < b" for u v
      using cl [of u v] that by auto
    with False 2 show ?thesis by auto
  qed
qed auto

lemma dfs_sound:
  assumes "set seen \<subseteq> R" "set st \<subseteq> R" "\<And>u v. u \<in> R \<Longrightarrow> v \<in> set (succ u) \<Longrightarrow> v \<in> R"
  shows "set (dfs b succ st seen) \<subseteq> R"
  using assms by (induction b succ st seen rule: dfs.induct) (auto split: if_splits)

lemma dfs_distinct: "distinct seen \<Longrightarrow> distinct (dfs b succ st seen)"
  by (induction b succ st seen rule: dfs.induct) auto

text \<open>Started at one reference of a graph closed below \<open>b\<close>, the search returns
  exactly the references reachable from it.\<close>

theorem dfs_reach:
  assumes "r < b" and "\<And>u v. u < b \<Longrightarrow> v \<in> set (succ u) \<Longrightarrow> v < b"
  shows "set (dfs b succ [r] []) = reach succ r"
proof
  show "set (dfs b succ [r] []) \<subseteq> reach succ r"
    by (rule dfs_sound) (auto intro: reach.intros)
  have lt: "set (dfs b succ [r] []) \<subseteq> {..<b}"
    using assms by (intro dfs_sound) auto
  show "reach succ r \<subseteq> set (dfs b succ [r] [])"
  proof (rule reach_subset_closed)
    show "r \<in> set (dfs b succ [r] [])" using dfs_stack [of "[r]" b succ "[]"] assms(1) by auto
    fix u v assume u: "u \<in> set (dfs b succ [r] [])" and v: "v \<in> set (succ u)"
    then have "v < b" using lt assms(2) by auto
    with u v show "v \<in> set (dfs b succ [r] [])"
      using dfs_closed [of "[]" succ b "[r]" u v] by simp
  qed
qed

section \<open>Lemmas: lists\<close>

lemma sum_list_filter_split:
  "sum_list (map f xs) = sum_list (map f (filter P xs)) + sum_list (map (f :: _ \<Rightarrow> int) (filter (\<lambda>x. \<not> P x) xs))"
  by (induction xs) auto

lemma sort_perm_eq: "mset xs = mset ys \<Longrightarrow> sort xs = sort ys"
  by (metis sorted_list_of_multiset_mset)

lemma digits_suffix_unique_sep:
  assumes "\<not> isDigit c" "p @ c # FormatNat m = q @ c # FormatNat n"
  shows "p = q \<and> m = n"
proof -
  have tw: "takeWhile isDigit (rev (p @ c # FormatNat m)) = rev (FormatNat m)"
    and dw: "dropWhile isDigit (rev (p @ c # FormatNat m)) = c # rev p" for p m
    using FormatNat_digits [of m] assms(1)
    by (auto simp: takeWhile_append dropWhile_append list_all_iff)
  from tw [of p m] tw [of q n] assms(2) have "m = n" by simp
  moreover from dw [of p m] dw [of q n] assms(2) have "p = q" by simp
  ultimately show ?thesis by simp
qed

lemma set_dedupBy: "f ` set (dedupBy f seen xs) = f ` set xs - set seen"
  by (induction f seen xs rule: dedupBy.induct) auto

lemma dedupBy_subset: "set (dedupBy f seen xs) \<subseteq> set xs"
  by (induction f seen xs rule: dedupBy.induct) auto

lemma sorted_dedupBy: "sorted (map f xs) \<Longrightarrow> sorted (map f (dedupBy f seen xs))"
  by (induction f seen xs rule: dedupBy.induct) (auto dest: subsetD [OF dedupBy_subset])

lemma distinct_dedupBy: "distinct (map f (dedupBy f seen xs))"
proof (induction f seen xs rule: dedupBy.induct)
  case (2 f seen x xs)
  have "f x \<notin> f ` set (dedupBy f (f x # seen) xs)" by (simp add: set_dedupBy)
  with 2 show ?case by auto
qed simp

lemma dedupBy_distinct_id: "distinct (map f xs) \<Longrightarrow> f ` set xs \<inter> set seen = {} \<Longrightarrow> dedupBy f seen xs = xs"
  by (induction f seen xs rule: dedupBy.induct) auto

lemma sorted_dedup_sort: "sorted (map f (dedupBy f seen (sort_key f xs)))"
  by (rule sorted_dedupBy) simp

end
