(* ===== verification/Resources.thy ===== *)
theory Resources
  imports Prelude
begin

text \<open>
  Package \<open>resources\<close> (\<open>src/resources/resources.go\<close>): the CPU and memory value
  type of admission control and of the size ladder, the per-kind defaults and
  the quantity parsers.
\<close>

record Resources =
  CPUMilli :: int
  MemBytes :: int

abbreviation Res :: "int \<Rightarrow> int \<Rightarrow> Resources" where
  "Res c m \<equiv> \<lparr>CPUMilli = c, MemBytes = m\<rparr>"

definition MiB :: int where "MiB = 2 ^ 20"
definition GiB :: int where "GiB = 2 ^ 30"

definition DefaultImport :: Resources where "DefaultImport = Res 200 (512 * MiB)"
definition DefaultLightBuild :: Resources where "DefaultLightBuild = Res 200 (512 * MiB)"
definition DefaultBuild :: Resources where "DefaultBuild = Res 1000 (1 * GiB)"

definition DefaultFor :: "string \<Rightarrow> Resources" where
  "DefaultFor kind =
     (if kind = ''import'' then DefaultImport
      else if kind = ''build'' then DefaultBuild
      else if kind \<in> {''build-from'', ''build-plugin-resolve'', ''build-pin''} then DefaultLightBuild
      else DefaultLightBuild)"

text \<open>Fractional cores go through \<open>strconv.ParseFloat\<close>; the parameter \<open>milli\<close> is the thousandfold
  of that float, rounded to an \<open>int64\<close>.\<close>

definition ParseCPU :: "(string \<Rightarrow> int option) \<Rightarrow> string \<Rightarrow> int option" where
  "ParseCPU milli s =
     (let t = TrimSpace s in
      if t = [] then None
      else if HasSuffix t ''m'' then ParseInt (TrimSuffix t ''m'')
      else milli t)"

definition memSuffixes :: "(string \<times> int) list" where
  "memSuffixes =
     [(''Ki'', 2 ^ 10), (''Mi'', 2 ^ 20), (''Gi'', 2 ^ 30), (''Ti'', 2 ^ 40),
      (''K'', 1000), (''M'', 1000000), (''G'', 1000000000), (''T'', 1000000000000)]"

text \<open>The multiplication at the end is the wrapping \<open>int64\<close> product of the source.\<close>

definition ParseMem :: "string \<Rightarrow> int option" where
  "ParseMem s0 =
     (let s = TrimSpace s0 in
      if s = [] then None
      else (let (num, mult) = (case find (\<lambda>(suf, m). HasSuffix s suf) memSuffixes of
                    Some (suf, m) \<Rightarrow> (TrimSuffix s suf, m) | None \<Rightarrow> (s, 1))
            in case ParseInt (TrimSpace num) of None \<Rightarrow> None | Some v \<Rightarrow> Some (i64 (v * mult))))"

definition ResMax :: "Resources \<Rightarrow> Resources \<Rightarrow> Resources" where
  "ResMax r oth =
     (let r1 = (if CPUMilli oth > CPUMilli r then r\<lparr>CPUMilli := CPUMilli oth\<rparr> else r) in
      if MemBytes oth > MemBytes r1 then r1\<lparr>MemBytes := MemBytes oth\<rparr> else r1)"

definition ResAdd :: "Resources \<Rightarrow> Resources \<Rightarrow> Resources" where
  "ResAdd r oth = Res (i64 (CPUMilli r + CPUMilli oth)) (i64 (MemBytes r + MemBytes oth))"

definition ResSub :: "Resources \<Rightarrow> Resources \<Rightarrow> Resources" where
  "ResSub r oth = Res (i64 (CPUMilli r - CPUMilli oth)) (i64 (MemBytes r - MemBytes oth))"

definition Fits :: "Resources \<Rightarrow> Resources \<Rightarrow> bool" where
  "Fits r remaining \<longleftrightarrow> CPUMilli r \<le> CPUMilli remaining \<and> MemBytes r \<le> MemBytes remaining"

definition IsZero :: "Resources \<Rightarrow> bool" where
  "IsZero r \<longleftrightarrow> CPUMilli r = 0 \<and> MemBytes r = 0"

text \<open>Both components representable, and non-negative.\<close>

definition resOK :: "Resources \<Rightarrow> bool" where
  "resOK r \<longleftrightarrow> 0 \<le> CPUMilli r \<and> CPUMilli r < 2 ^ 63 \<and> 0 \<le> MemBytes r \<and> MemBytes r < 2 ^ 63"

section \<open>The order of requirements\<close>

lemma Fits_refl [simp]: "Fits r r"
  by (simp add: Fits_def)

lemma Fits_trans [trans]: "Fits a b \<Longrightarrow> Fits b c \<Longrightarrow> Fits a c"
  by (auto simp: Fits_def)

lemma Fits_antisym: "Fits a b \<Longrightarrow> Fits b a \<Longrightarrow> a = b"
  by (auto simp: Fits_def intro: Resources.equality)

lemma ResMax_sel [simp]:
  "CPUMilli (ResMax a b) = max (CPUMilli a) (CPUMilli b)"
  "MemBytes (ResMax a b) = max (MemBytes a) (MemBytes b)"
  by (auto simp: ResMax_def Let_def)

lemma ResMax_least_upper_bound: "Fits (ResMax a b) c \<longleftrightarrow> Fits a c \<and> Fits b c"
  by (auto simp: Fits_def)

lemma ResAdd_sel [simp]:
  "CPUMilli (ResAdd a b) = i64 (CPUMilli a + CPUMilli b)"
  "MemBytes (ResAdd a b) = i64 (MemBytes a + MemBytes b)"
  by (simp_all add: ResAdd_def)

lemma ResSub_ResAdd: "resOK a \<Longrightarrow> ResSub (ResAdd a b) b = a"
  by (cases a) (auto simp: ResSub_def ResAdd_def resOK_def i64_simps i64_add inI64_def
      i64_add [of _ "- _", simplified])

section \<open>Memory quantities\<close>

lemma last_FormatNat_digit: "isDigit (last (FormatNat n))"
  using FormatNat_digits [of n] by (auto simp: list_all_iff)

lemma hd_FormatNat_digit: "isDigit (hd (FormatNat n))"
  using FormatNat_digits [of n] by (auto simp: list_all_iff)

lemma digit_graphic: "isDigit c \<Longrightarrow> graphic c"
  by (auto simp: isDigit_def graphic_def)

lemma TrimSpace_FormatNat [simp]: "TrimSpace (FormatNat n) = FormatNat n"
  by (intro TrimSpace_graphic) (auto intro: digit_graphic hd_FormatNat_digit last_FormatNat_digit)

lemma HasSuffix_append [simp]: "HasSuffix (s @ p) p"
  by (simp add: HasSuffix_def)

lemma TrimSuffix_append [simp]: "TrimSuffix (s @ p) p = s"
  by (simp add: TrimSuffix_def)

lemma HasSuffix_last: "HasSuffix s p \<Longrightarrow> p \<noteq> [] \<Longrightarrow> last s = last p"
  by (metis HasSuffix_def append_take_drop_id last_appendR)

text \<open>A decimal number carries none of the unit suffixes, and a binary unit is
  recognised before the decimal unit that is a prefix of it.\<close>

lemma memSuffix_last: "(suf, m) \<in> set memSuffixes \<Longrightarrow> suf \<noteq> [] \<and> \<not> isDigit (last suf) \<and> graphic (last suf)"
  by (auto simp: memSuffixes_def isDigit_def graphic_def)

lemma HasSuffix_rev: "HasSuffix s p \<longleftrightarrow> HasPrefix (rev s) (rev p)"
proof
  assume h: "HasSuffix s p"
  then have "s = take (length s - length p) s @ p" unfolding HasSuffix_def by (metis append_take_drop_id)
  then show "HasPrefix (rev s) (rev p)" by (metis HasPrefix_append rev_append)
next
  assume "HasPrefix (rev s) (rev p)"
  then obtain t where "rev s = rev p @ t" by (auto simp: HasPrefix_iff)
  then have "s = rev t @ p" by (metis rev_append rev_rev_ident)
  then show "HasSuffix s p" by simp
qed

lemma HasPrefix_Nil [simp]: "HasPrefix s []"
  by (simp add: HasPrefix_def)

lemma HasPrefix_Cons_Cons: "HasPrefix (x # s) (y # p) \<longleftrightarrow> x = y \<and> HasPrefix s p"
  by (auto simp: HasPrefix_def)

lemma memSuffixes_find_unit:
  assumes "(suf, m) \<in> set memSuffixes"
  shows "find (\<lambda>(s, m). HasSuffix (ds @ suf) s) memSuffixes = Some (suf, m)"
  using assms unfolding memSuffixes_def list.set insert_iff empty_iff prod.inject
  by (elim disjE conjE FalseE; simp only: HasSuffix_rev; simp add: HasPrefix_Cons_Cons)

lemma memSuffixes_find_none:
  assumes "s \<noteq> []" "isDigit (last s)"
  shows "find (\<lambda>(suf, m). HasSuffix s suf) memSuffixes = None"
  unfolding find_None_iff
proof clarify
  fix suf m assume "(suf, m) \<in> set memSuffixes" "HasSuffix s suf"
  then show False using memSuffix_last [of suf m] HasSuffix_last [of s suf] assms by auto
qed

lemma TrimSpace_quantity:
  assumes "(suf, m) \<in> set memSuffixes"
  shows "TrimSpace (FormatNat n @ suf) = FormatNat n @ suf"
  using memSuffix_last [OF assms]
  by (intro TrimSpace_graphic) (auto intro: digit_graphic hd_FormatNat_digit)

text \<open>What the parser computes on a quantity with and without a unit: the exact
  product when it fits, and the wrapped product otherwise.\<close>

lemma ParseMem_unit:
  assumes "(suf, m) \<in> set memSuffixes" and "int n < 2 ^ 63"
  shows "ParseMem (FormatNat n @ suf) = Some (i64 (int n * m))"
  using assms(2) unfolding ParseMem_def
  by (simp add: TrimSpace_quantity [OF assms(1)] memSuffixes_find_unit [OF assms(1)] ParseInt_FormatNat)

lemma ParseMem_bare:
  assumes "int n < 2 ^ 63"
  shows "ParseMem (FormatNat n) = Some (int n)"
  using assms unfolding ParseMem_def
  by (simp add: memSuffixes_find_none last_FormatNat_digit ParseInt_FormatNat i64_simps inI64_def)

section \<open>Properties\<close>

text \<open>C38: A memory quantity written as a decimal number with any of the eight unit
  suffixes parses to exactly the number times the unit whenever that product is
  an \<open>int64\<close>; a binary unit is never read as the decimal unit it starts with.\<close>

theorem ParseMem_exact:
  assumes "(suf, m) \<in> set memSuffixes" and "int n * m < 2 ^ 63"
  shows "ParseMem (FormatNat n @ suf) = Some (int n * m)"
proof -
  have m: "1 \<le> m" using assms(1) by (auto simp: memSuffixes_def)
  then have "int n * 1 \<le> int n * m" by (intro mult_left_mono) auto
  with m assms(2) have "int n < 2 ^ 63" "inI64 (int n * m)" by (auto simp: inI64_def)
  then show ?thesis by (simp add: ParseMem_unit [OF assms(1)] i64_id)
qed

theorem ParseMem_exact_witness: "ParseMem ''16Gi'' = Some 17179869184"
proof -
  have "FormatNat 16 = ''16''" by (simp add: FormatNat_eval)
  then show ?thesis using ParseMem_exact [of "''Gi''" "2 ^ 30" 16] by (simp add: memSuffixes_def)
qed


end
