(* ===== verification/Wire.thy ===== *)
theory Wire
  imports Resources "HOL-Library.Product_Lexorder"
begin

text \<open>
  Package \<open>wire\<close> (\<open>src/wire/wire.go\<close>, \<open>src/wire/class.go\<close>): the vocabulary the
  scheduler and the runners share.  The node-name grammar, the subject, consumer
  and message-id names, the payload records, and the ladder of size classes.

  \<open>key.Parse\<close> belongs to the object store and is the parameter \<open>keyParse\<close>.  A key
  is its 32 bytes and \<open>Key.String\<close> is their lower-case hexadecimal.  The
  interface \<open>class_ladder\<close> is the contract through which the scheduler (which
  rounds a requirement up) and the runner (which serves the rungs it can hold)
  use the ladder.
\<close>

type_synonym key = bytes

definition keyString :: "key \<Rightarrow> string" where
  "keyString k = EncodeToString k"

datatype kind = KindImport | KindBuildFrom | KindPluginResolve | KindPin | KindBuildRun | KindBuildValue

definition kindString :: "kind \<Rightarrow> string" where
  "kindString kd = (case kd of
      KindImport \<Rightarrow> ''import'' | KindBuildFrom \<Rightarrow> ''buildfrom'' | KindPluginResolve \<Rightarrow> ''pluginresolve''
    | KindPin \<Rightarrow> ''pin'' | KindBuildRun \<Rightarrow> ''buildrun'' | KindBuildValue \<Rightarrow> ''buildvalue'')"

definition allKinds :: "kind list" where
  "allKinds = [KindImport, KindBuildFrom, KindPluginResolve, KindPin, KindBuildRun, KindBuildValue]"

datatype phase = PhaseWaiting | PhaseQueued | PhaseRunning | PhasePublishing
  | PhaseDone | PhaseFailed | PhaseUpstream | PhaseCancelled

text \<open>Result classes travel as strings, so a peer may send any.\<close>

abbreviation ClassOK :: string where "ClassOK \<equiv> ''ok''"
abbreviation ClassHard :: string where "ClassHard \<equiv> ''hard''"
abbreviation ClassRetryable :: string where "ClassRetryable \<equiv> ''retryable''"
abbreviation ClassControl :: string where "ClassControl \<equiv> ''control''"
abbreviation ClassCancelled :: string where "ClassCancelled \<equiv> ''cancelled''"

section \<open>Node names\<close>

definition NodeName :: "kind \<Rightarrow> key \<Rightarrow> string" where
  "NodeName kd k = kindString kd @ ''_'' @ keyString k"

definition ParseNodeName :: "(bytes \<Rightarrow> key option) \<Rightarrow> string \<Rightarrow> (kind \<times> key) option" where
  "ParseNodeName keyParse name =
     (case Cut (CHR ''_'') name of
        None \<Rightarrow> None
      | Some (ks, hexPart) \<Rightarrow>
          (case find (\<lambda>kd. kindString kd = ks) allKinds of
             None \<Rightarrow> None
           | Some kd \<Rightarrow>
               (case DecodeString hexPart of
                  None \<Rightarrow> None
                | Some raw \<Rightarrow>
                    (case keyParse raw of
                       None \<Rightarrow> None
                     | Some k \<Rightarrow> if keyString k \<noteq> hexPart then None else Some (kd, k)))))"

section \<open>Subjects, consumers and message ids\<close>

definition PlatformToken :: "string \<Rightarrow> string" where
  "PlatformToken platform = ReplaceAll platform (CHR ''/'') (CHR ''-'')"

definition JobsSubject :: "string \<Rightarrow> string \<Rightarrow> string" where
  "JobsSubject platform c = ''jobs'' @ ''.'' @ PlatformToken platform @ ''.'' @ c"

definition ResultsSubject :: "string \<Rightarrow> string" where
  "ResultsSubject node = ''results'' @ ''.'' @ node"

definition FailuresSubject :: "string \<Rightarrow> string" where
  "FailuresSubject node = ''failures'' @ ''.'' @ node"

definition LogsSubject :: "string \<Rightarrow> string" where
  "LogsSubject node = ''logs'' @ ''.'' @ node"

definition RunnerHBSubject :: "string \<Rightarrow> string" where
  "RunnerHBSubject runnerID = ''runners.'' @ runnerID @ ''.hb''"

definition ConsumerName :: "string \<Rightarrow> string \<Rightarrow> string" where
  "ConsumerName platform c =
     ''wq-'' @ PlatformToken platform @ ''-'' @ ReplaceAll c (CHR ''.'') (CHR ''_'')"

definition JobMsgID :: "string \<Rightarrow> 64 word \<Rightarrow> string" where
  "JobMsgID node gen = ''job-'' @ node @ ''-'' @ FormatNat (unat gen)"

definition ResultMsgID :: "string \<Rightarrow> 64 word \<Rightarrow> string" where
  "ResultMsgID node gen = ''result-'' @ node @ ''-'' @ FormatNat (unat gen)"

definition FailureMsgID :: "string \<Rightarrow> 64 word \<Rightarrow> string" where
  "FailureMsgID node gen = ''failure-'' @ node @ ''-'' @ FormatNat (unat gen)"

section \<open>Payloads\<close>

record Job =
  jNode :: string
  jKind :: string
  jKey :: key
  jGen :: "64 word"
  jPlatform :: string
  jClass :: string
  jDef :: bytes
  jPullRefs :: "string list"
  jCPUMilli :: int
  jMemBytes :: int

record RefProposal =
  pName :: string
  pKey :: bytes
  pLabel :: string

record Rusage =
  WallNs :: int
  CPUNs :: int
  MaxRSS :: int
  Stored :: int
  Deduped :: int

record Result =
  rNode :: string
  rGen :: "64 word"
  rRunner :: string
  rClass :: string
  rExit :: int
  rErrSummary :: string
  rRefs :: "RefProposal list"
  rRusage :: Rusage
  rScratchRef :: string
  rReadRefs :: "string list"

datatype failOrigin = FailOriginResult | FailOriginCommit | FailOriginGate | FailOriginServer

datatype failDisposition = FailDispositionRetry | FailDispositionFailed

record FailureRecord =
  fNode :: string
  fGen :: "64 word"
  fPlatform :: string
  fLabel :: string
  fOrigin :: failOrigin
  fDisposition :: failDisposition
  fErrSummary :: string
  fConsecRetry :: nat
  fConsecCtrl :: nat
  fBackoffMs :: int
  fRequestIDs :: "string list"
  fForF :: "string list"
  fResult :: "Result option"
  fEnqueuedNs :: int
  fStartedNs :: int
  fFailedNs :: int
  fLogHead :: bytes
  fLogGap :: int
  fLogTail :: bytes
  fLogMissing :: bool

record LogChunk =
  cGen :: "64 word"
  cStream :: string
  cSeq :: "64 word"
  cData :: bytes

record Counts =
  cnTotal :: nat
  cnDone :: nat
  cnRunning :: nat
  cnFailed :: nat
  cnWaiting :: nat

record RunnerInfo =
  riID :: string
  riName :: string
  riPlatform :: string
  riSize :: string
  riInFlight :: nat
  riFreeCPU :: int
  riFreeMem :: int
  riSeenNs :: int

record Hello =
  hID :: string
  hName :: string
  hPlatform :: string
  hSize :: string
  hCPUMilli :: int
  hMemBytes :: int

record Heartbeat =
  hbID :: string
  hbInFlight :: nat
  hbFreeCPU :: int
  hbFreeMem :: int

definition JobResources :: "Job \<Rightarrow> Resources" where
  "JobResources j = Res (jCPUMilli j) (jMemBytes j)"

section \<open>The ladder\<close>

definition Classes :: "string list" where
  "Classes =
     [''c0.2-m1'', ''c1-m1'', ''c1-m2'', ''c1-m4'', ''c2-m4'', ''c2-m8'', ''c2-m16'', ''c4-m8'', ''c4-m16'']"

definition classRes :: "string \<Rightarrow> Resources option" where
  "classRes = map_of
     [(''c0.2-m1'', Res 200 (2 ^ 30)), (''c1-m1'', Res 1000 (2 ^ 30)), (''c1-m2'', Res 1000 (2 * 2 ^ 30)),
      (''c1-m4'', Res 1000 (4 * 2 ^ 30)), (''c2-m4'', Res 2000 (4 * 2 ^ 30)), (''c2-m8'', Res 2000 (8 * 2 ^ 30)),
      (''c2-m16'', Res 2000 (16 * 2 ^ 30)), (''c4-m8'', Res 4000 (8 * 2 ^ 30)), (''c4-m16'', Res 4000 (16 * 2 ^ 30))]"

definition ClassResources :: "string \<Rightarrow> Resources" where
  "ClassResources c = (case classRes c of None \<Rightarrow> Res 0 0 | Some r \<Rightarrow> r)"

definition ClassValid :: "string \<Rightarrow> bool" where
  "ClassValid c \<longleftrightarrow> classRes c \<noteq> None"

definition ClassFor :: "Resources \<Rightarrow> string \<times> bool" where
  "ClassFor req =
     (case find (\<lambda>c. CPUMilli req \<le> CPUMilli (ClassResources c) \<and> MemBytes req \<le> MemBytes (ClassResources c)) Classes of
        Some c \<Rightarrow> (c, True)
      | None \<Rightarrow> (Classes ! (length Classes - 1), False))"

definition ClassesWithin :: "Resources \<Rightarrow> string list" where
  "ClassesWithin sz =
     filter (\<lambda>c. CPUMilli (ClassResources c) \<le> CPUMilli sz \<and> MemBytes (ClassResources c) \<le> MemBytes sz) Classes"

definition ParseClass :: "string \<Rightarrow> string option" where
  "ParseClass s = (if ClassValid s then Some s else None)"

section \<open>Node names round-trip and fail closed\<close>

lemma kindString_inj [simp]: "kindString a = kindString b \<longleftrightarrow> a = b"
  by (cases a; cases b) (simp_all add: kindString_def)

lemma kindString_no_sep: "CHR ''_'' \<notin> set (kindString kd)"
  by (cases kd) (simp_all add: kindString_def)

lemma find_kindString [simp]: "find (\<lambda>kd. kd = kd') allKinds = Some kd'"
  by (cases kd') (simp_all add: allKinds_def)

lemma Cut_NodeName [simp]: "Cut (CHR ''_'') (NodeName kd k) = Some (kindString kd, EncodeToString k)"
  using Cut_append [OF kindString_no_sep] by (simp add: NodeName_def keyString_def)

lemma NodeName_inj [simp]: "NodeName a k = NodeName b l \<longleftrightarrow> a = b \<and> k = l"
proof
  assume "NodeName a k = NodeName b l"
  then have "Cut (CHR ''_'') (NodeName a k) = Cut (CHR ''_'') (NodeName b l)" by simp
  then show "a = b \<and> k = l" by simp
qed simp

section \<open>Message ids tell attempts apart\<close>

lemma digits_suffix_unique:
  assumes "p @ CHR ''-'' # FormatNat m = q @ CHR ''-'' # FormatNat n"
  shows "p = q \<and> m = n"
  using assms by (intro digits_suffix_unique_sep [of "CHR ''-''"]) (auto simp: isDigit_def)

lemma JobMsgID_inj [simp]: "JobMsgID n g = JobMsgID n' g' \<longleftrightarrow> n = n' \<and> g = g'"
  using digits_suffix_unique [of n "unat g" n' "unat g'"] by (auto simp: JobMsgID_def simp flip: word_unat_eq_iff)

lemma ResultMsgID_inj [simp]: "ResultMsgID n g = ResultMsgID n' g' \<longleftrightarrow> n = n' \<and> g = g'"
  using digits_suffix_unique [of n "unat g" n' "unat g'"] by (auto simp: ResultMsgID_def simp flip: word_unat_eq_iff)

lemma FailureMsgID_inj [simp]: "FailureMsgID n g = FailureMsgID n' g' \<longleftrightarrow> n = n' \<and> g = g'"
  using digits_suffix_unique [of n "unat g" n' "unat g'"] by (auto simp: FailureMsgID_def simp flip: word_unat_eq_iff)

section \<open>The ladder as an interface\<close>

text \<open>
  \<open>rung\<close> tells the classes of the ladder, \<open>res\<close> what each holds, \<open>classFor\<close> rounds a
  requirement up and \<open>within\<close> lists what a machine of a given size can serve.
\<close>

locale class_ladder =
  fixes rung :: "'c \<Rightarrow> bool"
    and res :: "'c \<Rightarrow> Resources"
    and classFor :: "Resources \<Rightarrow> 'c \<times> bool"
    and within :: "Resources \<Rightarrow> 'c list"
  assumes classFor_rung: "rung (fst (classFor req))"
    and classFor_fits: "snd (classFor req) \<Longrightarrow> Fits req (res (fst (classFor req)))"
    and classFor_capped: "\<not> snd (classFor req) \<Longrightarrow> rung c \<Longrightarrow> \<not> Fits req (res c) \<and> Fits (res c) (res (fst (classFor req)))"
    and within_iff: "c \<in> set (within sz) \<longleftrightarrow> rung c \<and> Fits (res c) sz"
begin

lemma classFor_capped_iff: "snd (classFor req) \<longleftrightarrow> (\<exists>c. rung c \<and> Fits req (res c))"
  using classFor_rung classFor_fits classFor_capped by blast

text \<open>A machine that serves the class of an uncapped requirement holds the requirement.\<close>

lemma served_fits:
  "snd (classFor req) \<Longrightarrow> fst (classFor req) \<in> set (within sz) \<Longrightarrow> Fits req sz"
  using classFor_fits Fits_trans within_iff by blast

lemma within_mono: "Fits sz sz' \<Longrightarrow> set (within sz) \<subseteq> set (within sz')"
  using within_iff Fits_trans by blast

lemma within_self: "rung c \<Longrightarrow> c \<in> set (within (res c))"
  by (simp add: within_iff)

end

lemma classRes_eval:
  "ClassResources ''c0.2-m1'' = Res 200 1073741824" "ClassResources ''c1-m1'' = Res 1000 1073741824"
  "ClassResources ''c1-m2'' = Res 1000 2147483648" "ClassResources ''c1-m4'' = Res 1000 4294967296"
  "ClassResources ''c2-m4'' = Res 2000 4294967296" "ClassResources ''c2-m8'' = Res 2000 8589934592"
  "ClassResources ''c2-m16'' = Res 2000 17179869184" "ClassResources ''c4-m8'' = Res 4000 8589934592"
  "ClassResources ''c4-m16'' = Res 4000 17179869184"
  by (simp_all add: ClassResources_def classRes_def)

lemma ClassValid_iff: "ClassValid c \<longleftrightarrow> c \<in> set Classes"
  by (simp add: ClassValid_def classRes_def Classes_def)

lemma distinct_Classes: "distinct Classes"
  by (simp add: Classes_def)

lemma Classes_all: "(\<forall>c\<in>set Classes. P c) \<longleftrightarrow> list_all P Classes"
  by (simp add: list_all_iff)

lemma rung_resOK: "c \<in> set Classes \<Longrightarrow> resOK (ClassResources c) \<and> 0 < CPUMilli (ClassResources c) \<and> 0 < MemBytes (ClassResources c)"
  unfolding Classes_def by (auto simp: resOK_def classRes_eval)

lemma top_rung: "c \<in> set Classes \<Longrightarrow> Fits (ClassResources c) (ClassResources ''c4-m16'')"
  unfolding Classes_def by (auto simp: Fits_def classRes_eval)

lemma top_rung_mem: "''c4-m16'' \<in> set Classes"
  by (simp add: Classes_def)

lemma last_Classes: "Classes ! (length Classes - 1) = ''c4-m16''"
  by (simp add: Classes_def)

lemma ClassFor_find:
  "ClassFor req = (case find (\<lambda>c. Fits req (ClassResources c)) Classes of
     Some c \<Rightarrow> (c, True) | None \<Rightarrow> (''c4-m16'', False))"
  unfolding ClassFor_def last_Classes Fits_def ..

lemma ClassesWithin_filter: "ClassesWithin sz = filter (\<lambda>c. Fits (ClassResources c) sz) Classes"
  by (simp add: ClassesWithin_def Fits_def)

lemma find_Some_D: "find P xs = Some x \<Longrightarrow> P x \<and> x \<in> set xs"
  by (auto simp: find_Some_iff)

interpretation ladder: class_ladder "\<lambda>c. c \<in> set Classes" ClassResources ClassFor ClassesWithin
proof (unfold_locales, goal_cases)
  case (1 req)
  then show ?case
    by (cases "find (\<lambda>c. Fits req (ClassResources c)) Classes") (auto simp: ClassFor_find top_rung_mem dest: find_Some_D)
next
  case (2 req)
  then show ?case
    by (cases "find (\<lambda>c. Fits req (ClassResources c)) Classes") (auto simp: ClassFor_find dest: find_Some_D)
next
  case (3 req c)
  then show ?case
    by (cases "find (\<lambda>c. Fits req (ClassResources c)) Classes") (auto simp: ClassFor_find top_rung dest: find_None_iff [THEN iffD1])
next
  case (4 c sz)
  then show ?case by (auto simp: ClassesWithin_filter)
qed

text \<open>The rung chosen is the first, and so the smallest by cores and then memory, that fits.\<close>

lemma Classes_sorted: "sorted_wrt (\<lambda>a b. CPUMilli (ClassResources a) < CPUMilli (ClassResources b)
    \<or> CPUMilli (ClassResources a) = CPUMilli (ClassResources b) \<and> MemBytes (ClassResources a) < MemBytes (ClassResources b)) Classes"
  by (simp add: Classes_def classRes_eval)

lemma ClassFor_first:
  assumes "ClassFor req = (c, True)" "d \<in> set Classes" "Fits req (ClassResources d)" "d \<noteq> c"
  shows "CPUMilli (ClassResources c) < CPUMilli (ClassResources d)
    \<or> CPUMilli (ClassResources c) = CPUMilli (ClassResources d) \<and> MemBytes (ClassResources c) < MemBytes (ClassResources d)"
proof -
  from assms(1) obtain i where i: "i < length Classes" "c = Classes ! i"
    "\<And>j. j < i \<Longrightarrow> \<not> Fits req (ClassResources (Classes ! j))"
    by (auto simp: ClassFor_find find_Some_iff split: option.splits)
  from assms(2) obtain j where j: "j < length Classes" "d = Classes ! j" by (auto simp: in_set_conv_nth)
  with i assms(3,4) have "i < j" by (metis linorder_neqE_nat)
  with Classes_sorted i j show ?thesis by (simp add: sorted_wrt_iff_nth_less)
qed

text \<open>Every lane of one platform has a queue subject and a consumer of its own.\<close>

lemma lane_names_distinct:
  "distinct (map (JobsSubject p) Classes)" "distinct (map (ConsumerName p) Classes)"
  by (simp_all add: Classes_def JobsSubject_def ConsumerName_def ReplaceAll_def)

section \<open>Properties\<close>

text \<open>C24: The node-name grammar is exact. \<open>ParseNodeName\<close> accepts a string as kind \<open>kd\<close>
  and key \<open>k\<close> if and only if the string is \<open>NodeName kd k\<close> and the store's key parser
  accepts \<open>k\<close> as a canonical key: every name the scheduler prints is read back,
  and nothing else (an unknown kind, odd or upper-case hexadecimal) is.\<close>

theorem ParseNodeName_exact:
  "ParseNodeName keyParse s = Some (kd, k) \<longleftrightarrow> s = NodeName kd k \<and> keyParse k = Some k"
proof
  assume "ParseNodeName keyParse s = Some (kd, k)"
  then obtain ks hexPart raw where c: "Cut (CHR ''_'') s = Some (ks, hexPart)"
    and f: "find (\<lambda>kd. kindString kd = ks) allKinds = Some kd"
    and r: "DecodeString hexPart = Some raw" "keyParse raw = Some k" "keyString k = hexPart"
    by (auto simp: ParseNodeName_def split: option.splits prod.splits if_splits)
  from find_Some_D [OF f] have "kindString kd = ks" by simp
  with Cut_Some_append [OF c] r show "s = NodeName kd k \<and> keyParse k = Some k"
    by (auto simp: NodeName_def keyString_def)
next
  assume "s = NodeName kd k \<and> keyParse k = Some k"
  then show "ParseNodeName keyParse s = Some (kd, k)"
    by (simp add: ParseNodeName_def keyString_def)
qed

text \<open>Deduplication by message id never conflates two attempts: the job, result
  and failure ids of two attempts are equal only for the same node and the same
  generation, although node names are embedded without escaping.\<close>

theorem msg_ids_distinguish_attempts:
  "(JobMsgID n g = JobMsgID n' g' \<longleftrightarrow> n = n' \<and> g = g')
   \<and> (ResultMsgID n g = ResultMsgID n' g' \<longleftrightarrow> n = n' \<and> g = g')
   \<and> (FailureMsgID n g = FailureMsgID n' g' \<longleftrightarrow> n = n' \<and> g = g')"
  by simp

text \<open>C34: Rounding up to the ladder. \<open>ClassFor\<close> reports success exactly when some rung
  holds the requirement; the rung it then returns holds the requirement and is the
  smallest such rung by cores and then memory; otherwise it returns the top
  rung, which holds every rung; and a machine is offered the lane of the
  chosen rung exactly when it holds that rung.\<close>

theorem ClassFor_smallest_rung:
  "let (c, ok) = ClassFor req in
     ok = (\<exists>d \<in> set Classes. Fits req (ClassResources d))
     \<and> c \<in> set Classes
     \<and> (if ok
        then Fits req (ClassResources c)
          \<and> (\<forall>d \<in> set Classes. Fits req (ClassResources d) \<and> d \<noteq> c \<longrightarrow>
              (CPUMilli (ClassResources c), MemBytes (ClassResources c)) < (CPUMilli (ClassResources d), MemBytes (ClassResources d)))
        else \<forall>d \<in> set Classes. Fits (ClassResources d) (ClassResources c))
     \<and> (c \<in> set (ClassesWithin sz) \<longleftrightarrow> Fits (ClassResources c) sz)"
proof -
  obtain c ok where e: "ClassFor req = (c, ok)" by fastforce
  then have ce: "c = fst (ClassFor req)" "ok = snd (ClassFor req)" by simp_all
  have "ok = (\<exists>d \<in> set Classes. Fits req (ClassResources d))"
    unfolding ce using ladder.classFor_capped_iff [of req] by blast
  moreover have "c \<in> set Classes" unfolding ce by (rule ladder.classFor_rung)
  moreover from this have "c \<in> set (ClassesWithin sz) \<longleftrightarrow> Fits (ClassResources c) sz"
    by (simp add: ladder.within_iff)
  moreover have "ok \<Longrightarrow> Fits req (ClassResources c)"
    unfolding ce by (rule ladder.classFor_fits)
  moreover have "\<not> ok \<Longrightarrow> \<forall>d \<in> set Classes. Fits (ClassResources d) (ClassResources c)"
    unfolding ce using ladder.classFor_capped [of req] by blast
  moreover have "(CPUMilli (ClassResources c), MemBytes (ClassResources c)) < (CPUMilli (ClassResources d), MemBytes (ClassResources d))"
    if "ok" "d \<in> set Classes" "Fits req (ClassResources d)" "d \<noteq> c" for d
    using ClassFor_first [of req c d] that e by auto
  ultimately show ?thesis unfolding e Let_def prod.case by simp
qed

text \<open>The rung for two cores and five gibibytes.\<close>

theorem ClassFor_smallest_rung_witness:
  "Fits (Res 2000 5368709120) (ClassResources ''c2-m8'') \<and> ''c2-m8'' \<in> set (ClassesWithin (Res 3000 17179869184))
   \<and> (CPUMilli (ClassResources ''c2-m8''), MemBytes (ClassResources ''c2-m8''))
      < (CPUMilli (ClassResources ''c4-m8''), MemBytes (ClassResources ''c4-m8''))"
proof -
  have e: "ClassFor (Res 2000 5368709120) = (''c2-m8'', True)"
    by (simp add: ClassFor_find Classes_def classRes_eval Fits_def)
  have "''c4-m8'' \<in> set Classes" by (simp add: Classes_def)
  then show ?thesis
    using ClassFor_smallest_rung [of "Res 2000 5368709120" "Res 3000 17179869184"]
    by (simp add: e classRes_eval Fits_def)
qed

end
