(* ===== verification/Admission.thy ===== *)
theory Admission
  imports Wire "HOL-Library.AList"
begin

text \<open>
  The runner's capacity ledger (\<open>src/runnerd/admission.go\<close>): reservations held
  against a fixed capacity and an optional slot limit.  The Go map \<open>held\<close> is an
  association list with distinct keys; the \<open>changed\<close> channel, closed and replaced on
  every release, is the number of the current channel, all earlier ones being
  closed.  Sums are the wrapping \<open>int64\<close> sums of the source.

  The interface \<open>ledger\<close> states what the fetch loop relies on.
\<close>

record admission =
  capacity :: Resources
  slots :: int
  held :: "(string \<times> Resources) list"
  changed :: nat

definition jobIDPrefix :: string where
  "jobIDPrefix = ''job/''"

definition newAdmission :: "Resources \<Rightarrow> int \<Rightarrow> admission" where
  "newAdmission cap sl = \<lparr>capacity = cap, slots = sl, held = [], changed = 0\<rparr>"

definition usedBy :: "(string \<times> Resources) list \<Rightarrow> Resources" where
  "usedBy h = fold (\<lambda>(_, r) u. Res (i64 (CPUMilli u + CPUMilli r)) (i64 (MemBytes u + MemBytes r))) h (Res 0 0)"

definition tryAcquireLocked :: "string \<Rightarrow> Resources \<Rightarrow> admission \<Rightarrow> bool \<times> admission" where
  "tryAcquireLocked i r a =
     (if map_of (held a) i \<noteq> None then (False, a)
      else if slots a > 0 \<and> int (length (held a)) \<ge> slots a then (False, a)
      else (let used = usedBy (held a) in
        if i64 (CPUMilli used + CPUMilli r) > CPUMilli (capacity a)
           \<or> i64 (MemBytes used + MemBytes r) > MemBytes (capacity a) then (False, a)
        else (True, a\<lparr>held := AList.update i r (held a)\<rparr>)))"

definition TryAcquire :: "string \<Rightarrow> Resources \<Rightarrow> admission \<Rightarrow> bool \<times> admission" where
  "TryAcquire i r a = tryAcquireLocked i r a"

text \<open>
  The blocking \<open>Acquire\<close>: each element of the first argument is what ends one wait,
  the context or a broadcast after the ledger was changed by others.  Running
  out of elements is a call that still waits.
\<close>

datatype wake = CtxDone | Broadcast "admission \<Rightarrow> admission"

fun Acquire :: "wake list \<Rightarrow> string \<Rightarrow> Resources \<Rightarrow> admission \<Rightarrow> (bool \<times> admission) option" where
  "Acquire ws i r a =
     (let (ok, a') = tryAcquireLocked i r a in
      if ok then Some (True, a')
      else (case ws of [] \<Rightarrow> None
            | CtxDone # _ \<Rightarrow> Some (False, a')
            | Broadcast f # ws' \<Rightarrow> Acquire ws' i r (f a')))"

definition Rename :: "string \<Rightarrow> string \<Rightarrow> admission \<Rightarrow> bool \<times> admission" where
  "Rename old new a =
     (case map_of (held a) old of
        None \<Rightarrow> (False, a)
      | Some r \<Rightarrow>
          if map_of (held a) new \<noteq> None then (False, a)
          else (True, a\<lparr>held := AList.update new r (AList.delete old (held a))\<rparr>))"

definition Release :: "string \<Rightarrow> admission \<Rightarrow> admission" where
  "Release i a =
     (if map_of (held a) i = None then a
      else a\<lparr>held := AList.delete i (held a), changed := Suc (changed a)\<rparr>)"

definition Snapshot :: "admission \<Rightarrow> Resources \<times> nat" where
  "Snapshot a =
     (let (free, inflight) = fold (\<lambda>(i, h) (f, n).
            (Res (i64 (CPUMilli f - CPUMilli h)) (i64 (MemBytes f - MemBytes h)),
             if HasPrefix i jobIDPrefix then Suc n else n)) (held a) (capacity a, 0);
          f1 = (if CPUMilli free < 0 then free\<lparr>CPUMilli := 0\<rparr> else free);
          f2 = (if MemBytes f1 < 0 then f1\<lparr>MemBytes := 0\<rparr> else f1)
      in (f2, inflight))"

section \<open>The invariant\<close>

definition cpuSum :: "(string \<times> Resources) list \<Rightarrow> int" where
  "cpuSum h = sum_list (map (CPUMilli \<circ> snd) h)"

definition memSum :: "(string \<times> Resources) list \<Rightarrow> int" where
  "memSum h = sum_list (map (MemBytes \<circ> snd) h)"

text \<open>Nothing is overcommitted: the exact (unwrapped) totals stay within the
  capacity, in every dimension and in the number of holds.\<close>

definition admOK :: "admission \<Rightarrow> bool" where
  "admOK a \<longleftrightarrow> resOK (capacity a) \<and> distinct (map fst (held a)) \<and> (\<forall>(i, r) \<in> set (held a). resOK r)
     \<and> cpuSum (held a) \<le> CPUMilli (capacity a) \<and> memSum (held a) \<le> MemBytes (capacity a)
     \<and> (slots a > 0 \<longrightarrow> int (length (held a)) \<le> slots a)"

text \<open>A request whose sum with the full capacity is still representable.\<close>

definition noWrap :: "admission \<Rightarrow> Resources \<Rightarrow> bool" where
  "noWrap a r \<longleftrightarrow> resOK r \<and> CPUMilli (capacity a) + CPUMilli r < 2 ^ 63 \<and> MemBytes (capacity a) + MemBytes r < 2 ^ 63"

section \<open>Sums over the ledger\<close>

lemma sums_simps [simp]:
  "cpuSum [] = 0" "memSum [] = 0"
  "cpuSum (x # h) = CPUMilli (snd x) + cpuSum h" "memSum (x # h) = MemBytes (snd x) + memSum h"
  by (simp_all add: cpuSum_def memSum_def)

lemma usedBy_fold:
  "fold (\<lambda>(_, r) u. Res (i64 (CPUMilli u + CPUMilli r)) (i64 (MemBytes u + MemBytes r))) h (Res (i64 c) (i64 m))
     = Res (i64 (c + cpuSum h)) (i64 (m + memSum h))"
  by (induction h arbitrary: c m) (auto simp: i64_add algebra_simps)

lemma usedBy_sums: "usedBy h = Res (i64 (cpuSum h)) (i64 (memSum h))"
  using usedBy_fold [of h 0 0] by (simp add: usedBy_def i64_id inI64_def)

lemma sums_nonneg: "(\<forall>(i, r) \<in> set h. resOK r) \<Longrightarrow> 0 \<le> cpuSum h \<and> 0 \<le> memSum h"
  by (induction h) (auto simp: resOK_def)

lemma usedBy_exact:
  assumes "admOK a"
  shows "usedBy (held a) = Res (cpuSum (held a)) (memSum (held a))"
proof -
  have "0 \<le> cpuSum (held a) \<and> 0 \<le> memSum (held a)"
    using assms by (intro sums_nonneg) (simp add: admOK_def)
  then have "inI64 (cpuSum (held a))" "inI64 (memSum (held a))"
    using assms by (auto simp: admOK_def resOK_def inI64_def)
  then show ?thesis by (simp add: usedBy_sums i64_id)
qed

lemma update_fresh_eq: "map_of h i = None \<Longrightarrow> AList.update i r h = h @ [(i, r)]"
  by (induction h) (auto split: if_splits)

lemma delete_sums:
  assumes "distinct (map fst h)" "map_of h i = Some r"
  shows "cpuSum (AList.delete i h) = cpuSum h - CPUMilli r"
    and "memSum (AList.delete i h) = memSum h - MemBytes r"
    and "length (AList.delete i h) = length h - 1"
proof -
  have "cpuSum (AList.delete i h) = cpuSum h - CPUMilli r
    \<and> memSum (AList.delete i h) = memSum h - MemBytes r \<and> length (AList.delete i h) = length h - 1"
    using assms
  proof (induction h)
    case (Cons p h)
    show ?case
    proof (cases "fst p = i")
      case True
      with Cons.prems have "AList.delete i h = h" "snd p = r"
        by (auto simp: delete_id)
      with True show ?thesis by simp
    next
      case False
      with Cons.prems have m: "map_of h i = Some r" "distinct (map fst h)" by (auto split: if_splits)
      then have "h \<noteq> []" by auto
      with False m Cons.IH show ?thesis by simp
    qed
  qed simp
  then show "cpuSum (AList.delete i h) = cpuSum h - CPUMilli r"
    "memSum (AList.delete i h) = memSum h - MemBytes r"
    "length (AList.delete i h) = length h - 1" by blast+
qed

lemma append_sums [simp]:
  "cpuSum (h @ [(i, r)]) = cpuSum h + CPUMilli r" "memSum (h @ [(i, r)]) = memSum h + MemBytes r"
  by (simp_all add: cpuSum_def memSum_def)

section \<open>The operations keep the invariant\<close>

lemma newAdmission_OK: "resOK cap \<Longrightarrow> admOK (newAdmission cap sl)"
  by (auto simp: admOK_def newAdmission_def resOK_def)

lemma tryAcquire_cases:
  assumes "admOK a" "noWrap a r"
  shows "fst (TryAcquire i r a) \<longleftrightarrow>
      map_of (held a) i = None \<and> \<not> (slots a > 0 \<and> int (length (held a)) \<ge> slots a)
      \<and> cpuSum (held a) + CPUMilli r \<le> CPUMilli (capacity a)
      \<and> memSum (held a) + MemBytes r \<le> MemBytes (capacity a)" (is ?A)
    and "snd (TryAcquire i r a) =
      (if fst (TryAcquire i r a) then a\<lparr>held := held a @ [(i, r)]\<rparr> else a)" (is ?B)
proof -
  have nn: "0 \<le> cpuSum (held a) \<and> 0 \<le> memSum (held a)"
    using assms by (intro sums_nonneg) (simp add: admOK_def)
  with assms have "inI64 (cpuSum (held a) + CPUMilli r)" "inI64 (memSum (held a) + MemBytes r)"
    by (auto simp: admOK_def noWrap_def resOK_def inI64_def)
  then show ?A ?B
    using usedBy_exact [OF assms(1)]
    by (auto simp: TryAcquire_def tryAcquireLocked_def i64_id Let_def update_fresh_eq not_le not_less)
qed

lemma TryAcquire_OK: "admOK a \<Longrightarrow> noWrap a r \<Longrightarrow> admOK (snd (TryAcquire i r a))"
  using tryAcquire_cases [of a r i]
  by (auto simp: admOK_def noWrap_def map_of_eq_None_iff)

lemma map_of_some_resOK: "admOK a \<Longrightarrow> map_of (held a) i = Some r \<Longrightarrow> resOK r"
  unfolding admOK_def by (auto dest!: map_of_SomeD)

lemma set_delete_subset: "set (AList.delete i h) \<subseteq> set h"
  by (auto simp: AList.delete_eq)

lemma Release_OK: "admOK a \<Longrightarrow> admOK (Release i a)"
proof (cases "map_of (held a) i")
  case (Some r)
  assume a: "admOK a"
  then have "resOK r" using Some by (rule map_of_some_resOK)
  with a Some delete_sums [of "held a" i r] set_delete_subset [of i "held a"] show ?thesis
    by (auto simp: admOK_def Release_def resOK_def distinct_delete)
qed (simp add: Release_def)

lemma Rename_cases:
  assumes "map_of (held a) old = Some r" "map_of (held a) new = None"
  shows "Rename old new a = (True, a\<lparr>held := AList.delete old (held a) @ [(new, r)]\<rparr>)"
proof -
  from assms have "old \<noteq> new" by auto
  with assms have "map_of (AList.delete old (held a)) new = None"
    by (simp add: delete_conv')
  with assms show ?thesis by (simp add: Rename_def update_fresh_eq)
qed

lemma Rename_fail: "map_of (held a) old = None \<or> map_of (held a) new \<noteq> None \<Longrightarrow> Rename old new a = (False, a)"
  by (auto simp: Rename_def split: option.splits)

lemma Rename_OK: "admOK a \<Longrightarrow> admOK (snd (Rename old new a))"
proof (cases "map_of (held a) old = None \<or> map_of (held a) new \<noteq> None")
  case False
  assume a: "admOK a"
  from False obtain r where r: "map_of (held a) old = Some r" "map_of (held a) new = None" by auto
  then have "resOK r" "new \<notin> fst ` set (held a)" "held a \<noteq> []"
    using a by (auto intro: map_of_some_resOK simp: map_of_eq_None_iff)
  with a r delete_sums [of "held a" old r] set_delete_subset [of old "held a"] show ?thesis
    by (auto simp: admOK_def Rename_cases distinct_delete)
qed (auto simp: Rename_fail)

lemma capacity_kept [simp]:
  "capacity (snd (TryAcquire i r a)) = capacity a" "capacity (Release i a) = capacity a"
  "capacity (snd (Rename old new a)) = capacity a"
  by (auto simp: TryAcquire_def tryAcquireLocked_def Release_def Rename_def Let_def split: option.splits)

lemma slots_kept [simp]:
  "slots (snd (TryAcquire i r a)) = slots a" "slots (Release i a) = slots a"
  "slots (snd (Rename old new a)) = slots a"
  by (auto simp: TryAcquire_def tryAcquireLocked_def Release_def Rename_def Let_def split: option.splits)

lemma snapshot_fold:
  "fold (\<lambda>(i, h) (f, n).
      (Res (i64 (CPUMilli f - CPUMilli h)) (i64 (MemBytes f - MemBytes h)),
       if HasPrefix i jobIDPrefix then Suc n else n)) h (Res (i64 c) (i64 m), n)
   = (Res (i64 (c - cpuSum h)) (i64 (m - memSum h)), n + length (filter (\<lambda>(i, r). HasPrefix i jobIDPrefix) h))"
proof (induction h arbitrary: c m n)
  case (Cons p h)
  have "i64 (i64 x - y) = i64 (x - y)" for x y using i64_add [of x "- y"] by simp
  with Cons show ?case by (cases p) (simp add: algebra_simps)
qed simp

text \<open>Under the invariant the heartbeat reports exactly the free capacity: the
  clamp at zero never hides an overcommit.\<close>

lemma Snapshot_exact:
  assumes "admOK a"
  shows "Snapshot a = (Res (CPUMilli (capacity a) - cpuSum (held a)) (MemBytes (capacity a) - memSum (held a)),
      length (filter (\<lambda>(i, r). HasPrefix i jobIDPrefix) (held a)))"
proof -
  have nn: "0 \<le> cpuSum (held a) \<and> 0 \<le> memSum (held a)"
    using assms by (intro sums_nonneg) (simp add: admOK_def)
  with assms have i: "inI64 (CPUMilli (capacity a))" "inI64 (MemBytes (capacity a))"
    "inI64 (CPUMilli (capacity a) - cpuSum (held a))" "inI64 (MemBytes (capacity a) - memSum (held a))"
    by (auto simp: admOK_def resOK_def inI64_def)
  then have c: "capacity a = Res (i64 (CPUMilli (capacity a))) (i64 (MemBytes (capacity a)))"
    by (simp add: i64_id)
  show ?thesis
    unfolding Snapshot_def
    by (subst c, subst snapshot_fold) (use assms i in \<open>simp add: i64_id admOK_def\<close>)
qed

section \<open>The ledger as an interface\<close>

text \<open>
  \<open>view\<close> is the set of reservations, \<open>ok\<close> the invariant and \<open>fitting\<close> the requests
  that the arithmetic of the ledger can decide.
\<close>

locale ledger =
  fixes ok :: "'s \<Rightarrow> bool"
    and view :: "'s \<Rightarrow> string \<Rightarrow> Resources option"
    and fitting :: "'s \<Rightarrow> Resources \<Rightarrow> bool"
    and acquire :: "string \<Rightarrow> Resources \<Rightarrow> 's \<Rightarrow> bool \<times> 's"
    and rename :: "string \<Rightarrow> string \<Rightarrow> 's \<Rightarrow> bool \<times> 's"
    and release :: "string \<Rightarrow> 's \<Rightarrow> 's"
  assumes acquire_ok: "ok s \<Longrightarrow> fitting s r \<Longrightarrow> ok (snd (acquire i r s))"
    and rename_ok: "ok s \<Longrightarrow> ok (snd (rename i j s))"
    and release_ok: "ok s \<Longrightarrow> ok (release i s)"
    and acquire_view: "fst (acquire i r s) \<Longrightarrow> view s i = None \<and> view (snd (acquire i r s)) = (view s)(i \<mapsto> r)"
    and acquire_fail: "\<not> fst (acquire i r s) \<Longrightarrow> snd (acquire i r s) = s"
    and rename_view: "fst (rename i j s) \<Longrightarrow>
        view s i \<noteq> None \<and> view s j = None \<and> view (snd (rename i j s)) = (view s)(i := None, j := view s i)"
    and rename_fail: "\<not> fst (rename i j s) \<Longrightarrow> snd (rename i j s) = s"
    and rename_defined: "view s i \<noteq> None \<Longrightarrow> view s j = None \<Longrightarrow> fst (rename i j s)"
    and release_view: "view (release i s) = (view s)(i := None)"
begin

text \<open>A lane reservation that is given back leaves no trace.\<close>

lemma acquire_release: "fst (acquire i r s) \<Longrightarrow> view (release i (snd (acquire i r s))) = view s"
  using acquire_view [of i r s] release_view by (auto simp: fun_eq_iff)

text \<open>Reserving for a lane and handing the reservation to a job is one reservation for the job.\<close>

lemma acquire_rename:
  assumes "fst (acquire i r s)" "i \<noteq> j" "view s j = None"
  shows "fst (rename i j (snd (acquire i r s)))
    \<and> view (snd (rename i j (snd (acquire i r s)))) = (view s)(j \<mapsto> r)"
proof -
  from acquire_view [OF assms(1)] have v: "view s i = None" "view (snd (acquire i r s)) = (view s)(i \<mapsto> r)" by auto
  with assms have "fst (rename i j (snd (acquire i r s)))" by (intro rename_defined) auto
  with rename_view [OF this] v assms(2) show ?thesis by (auto simp: fun_eq_iff)
qed

text \<open>An attempt that already holds a reservation is not admitted twice.\<close>

lemma rename_duplicate: "view s j \<noteq> None \<Longrightarrow> \<not> fst (rename i j s)"
  using rename_view [of i j s] by auto

end

lemma delete_view: "map_of (AList.delete i h) = (map_of h)(i := None)"
  by (simp add: delete_conv')

interpretation adm: ledger admOK "\<lambda>a. map_of (held a)" noWrap TryAcquire Rename Release
proof (unfold_locales, goal_cases)
  case (1 s r i) then show ?case by (rule TryAcquire_OK)
next
  case (2 s i j) then show ?case by (rule Rename_OK)
next
  case (3 s i) then show ?case by (rule Release_OK)
next
  case (4 i r s)
  then show ?case
    by (auto simp: TryAcquire_def tryAcquireLocked_def Let_def update_fresh_eq map_add_def fun_eq_iff
        split: if_splits option.splits)
next
  case (5 i r s)
  then show ?case by (auto simp: TryAcquire_def tryAcquireLocked_def Let_def split: if_splits)
next
  case (6 i j s)
  then show ?case
    by (cases "map_of (held s) i = None \<or> map_of (held s) j \<noteq> None")
      (auto simp: Rename_fail Rename_cases map_add_def delete_conv' fun_eq_iff split: option.splits)
next
  case (7 i j s)
  then show ?case
    by (cases "map_of (held s) i = None \<or> map_of (held s) j \<noteq> None")
      (auto simp: Rename_fail Rename_cases)
next
  case (8 s i j)
  then show ?case by (auto simp: Rename_cases)
next
  case (9 i s)
  then show ?case by (auto simp: Release_def delete_conv' fun_eq_iff)
qed

text \<open>A refused request is granted later only after a broadcast, so a waiter in
  \<open>Acquire\<close> never sleeps through free capacity: \<open>TryAcquire\<close> of another holder, and
  \<open>Rename\<close> of reservations other than the waiter's, never turn a refusal into a
  grant.\<close>

lemma refusal_stable_acquire:
  assumes "admOK a" "noWrap a r" "noWrap a r'" "\<not> fst (TryAcquire i r a)"
  shows "\<not> fst (TryAcquire i r (snd (TryAcquire j r' a)))"
proof (cases "fst (TryAcquire j r' a)")
  case False
  with assms(4) show ?thesis by (simp add: adm.acquire_fail)
next
  case True
  let ?a = "snd (TryAcquire j r' a)"
  have h: "held ?a = held a @ [(j, r')]" using tryAcquire_cases(2) [OF assms(1,3), of j] True by simp
  have r': "0 \<le> CPUMilli r'" "0 \<le> MemBytes r'" using assms(3) by (auto simp: noWrap_def resOK_def)
  have "noWrap ?a r" using assms(2) by (simp add: noWrap_def)
  note after = tryAcquire_cases(1) [OF TryAcquire_OK [OF assms(1,3)] this, of i]
  note before = tryAcquire_cases(1) [OF assms(1,2), of i]
  show ?thesis
  proof
    assume "fst (TryAcquire i r ?a)"
    then have c: "map_of (held a @ [(j, r')]) i = None" "\<not> (slots a > 0 \<and> int (length (held a) + 1) \<ge> slots a)"
      "cpuSum (held a) + CPUMilli r' + CPUMilli r \<le> CPUMilli (capacity a)"
      "memSum (held a) + MemBytes r' + MemBytes r \<le> MemBytes (capacity a)"
      unfolding after h by simp_all
    from c(1) have "map_of (held a) i = None" by (simp add: map_of_eq_None_iff)
    with c r' have "fst (TryAcquire i r a)" unfolding before by linarith
    with assms(4) show False ..
  qed
qed

lemma refusal_stable_rename:
  assumes "admOK a" "noWrap a r" "\<not> fst (TryAcquire i r a)" "i \<noteq> old"
  shows "\<not> fst (TryAcquire i r (snd (Rename old new a)))"
proof (cases "map_of (held a) old = None \<or> map_of (held a) new \<noteq> None")
  case True
  with assms(3) show ?thesis by (simp add: Rename_fail)
next
  case False
  then obtain ro where ro: "map_of (held a) old = Some ro" "map_of (held a) new = None" by auto
  then have ne: "held a \<noteq> []" by auto
  let ?a = "snd (Rename old new a)"
  have d: "distinct (map fst (held a))" using assms(1) by (simp add: admOK_def)
  have h: "held ?a = AList.delete old (held a) @ [(new, ro)]" by (simp add: Rename_cases ro)
  have sums: "cpuSum (held ?a) = cpuSum (held a)" "memSum (held ?a) = memSum (held a)"
    "length (held ?a) = length (held a)"
    using ne unfolding h by (simp_all add: delete_sums [OF d ro(1)])
  have m: "map_of (held ?a) i = None \<Longrightarrow> map_of (held a) i = None"
    using assms(4) unfolding h by (auto simp: map_add_def split: option.splits if_splits)
  have "noWrap ?a r" using assms(2) by (simp add: noWrap_def)
  note after = tryAcquire_cases(1) [OF Rename_OK [OF assms(1)] this, of i]
  note before = tryAcquire_cases(1) [OF assms(1,2), of i]
  show ?thesis
  proof
    assume "fst (TryAcquire i r ?a)"
    then have "map_of (held a) i = None" unfolding after by (blast intro: m)
    moreover from \<open>fst (TryAcquire i r ?a)\<close> have "\<not> (slots a > 0 \<and> int (length (held a)) \<ge> slots a)"
      "cpuSum (held a) + CPUMilli r \<le> CPUMilli (capacity a)" "memSum (held a) + MemBytes r \<le> MemBytes (capacity a)"
      unfolding after sums capacity_kept slots_kept by blast+
    ultimately have "fst (TryAcquire i r a)" unfolding before by blast
    with assms(3) show False ..
  qed
qed

end
