(* ===== verification/RunnerLoop.thy ===== *)
theory RunnerLoop
  imports Admission
begin

text \<open>
  The runner daemon's fetch loop (\<open>src/runnerd/runnerd.go\<close>: \<open>newDaemon\<close>,
  \<open>fetchLoop\<close>, \<open>dispatch\<close>, the announcements).  One sweeper visits the lanes from the
  largest class down, reserves the rung, fetches at most one message and hands the
  reservation to a job goroutine; job goroutines release concurrently.

  The queue is outside the program: what a fetch returns is an argument
  (\<open>fetched\<close>), and the acknowledgements sent back are collected in \<open>dActs\<close>.  The step
  relation \<open>dstep\<close> interleaves the sweeper, whose position is \<open>dPc\<close>, with the job
  goroutines; \<open>sweep\<close> is one uninterrupted pass.
\<close>

text \<open>An undecodable message body is \<open>None\<close>.\<close>

datatype fetched = FetchErr | Fetched "Job option list"

datatype msgAct = Term "Job option" | Nak "Job option" | NakWithDelay Job

datatype sweepPc = Visit nat | Fetching nat

record running =
  ruID :: string
  ruClass :: string
  ruJob :: Job

record daemon =
  dID :: string
  dName :: string
  dPlatform :: string
  dCapacity :: Resources
  dSize :: string
  dClasses :: "string list"
  dAdm :: admission
  dJobs :: "running list"
  dActs :: "msgAct list"
  dPc :: sweepPc

definition newDaemon :: "string \<Rightarrow> string \<Rightarrow> string \<Rightarrow> Resources \<Rightarrow> int \<Rightarrow> daemon option" where
  "newDaemon i nm platform cap sl =
     (let classes = ClassesWithin cap in
      if classes = [] then None
      else Some \<lparr>dID = i, dName = nm, dPlatform = platform, dCapacity = cap, dSize = last classes,
                 dClasses = classes, dAdm = newAdmission cap sl, dJobs = [], dActs = [], dPc = Visit 0\<rparr>)"

definition helloOf :: "daemon \<Rightarrow> Hello" where
  "helloOf d = \<lparr>hID = dID d, hName = dName d, hPlatform = dPlatform d, hSize = dSize d,
                hCPUMilli = CPUMilli (dCapacity d), hMemBytes = MemBytes (dCapacity d)\<rparr>"

definition heartbeatOf :: "daemon \<Rightarrow> Heartbeat" where
  "heartbeatOf d = (let (free, inflight) = Snapshot (dAdm d) in
     \<lparr>hbID = dID d, hbInFlight = inflight, hbFreeCPU = CPUMilli free, hbFreeMem = MemBytes free\<rparr>)"

definition laneID :: "string \<Rightarrow> string" where
  "laneID cls = ''lane/'' @ cls"

definition jobID :: "Job \<Rightarrow> string" where
  "jobID job = jobIDPrefix @ jNode job @ ''-'' @ FormatNat (unat (jGen job))"

definition dispatch :: "string \<Rightarrow> Job option \<Rightarrow> daemon \<Rightarrow> bool \<times> daemon" where
  "dispatch cls msg d =
     (case msg of
        None \<Rightarrow> (False, d\<lparr>dActs := dActs d @ [Term msg]\<rparr>)
      | Some job \<Rightarrow>
          (let (ok, a) = Rename (laneID cls) (jobID job) (dAdm d) in
           if \<not> ok then (False, d\<lparr>dActs := dActs d @ [NakWithDelay job]\<rparr>)
           else (True, d\<lparr>dAdm := a, dJobs := dJobs d @ [\<lparr>ruID = jobID job, ruClass = cls, ruJob = job\<rparr>]\<rparr>)))"

text \<open>The loop over the fetched messages: the first that is claimed takes the
  reservation, any further message is handed back.\<close>

fun dispatchAll :: "string \<Rightarrow> Job option list \<Rightarrow> bool \<Rightarrow> daemon \<Rightarrow> bool \<times> daemon" where
  "dispatchAll cls [] claimed d = (claimed, d)"
| "dispatchAll cls (msg # msgs) claimed d =
     (if claimed then dispatchAll cls msgs True (d\<lparr>dActs := dActs d @ [Nak msg]\<rparr>)
      else (let (c, d') = dispatch cls msg d in dispatchAll cls msgs c d'))"

definition laneReserve :: "nat \<Rightarrow> daemon \<Rightarrow> daemon" where
  "laneReserve i d =
     (let cls = dClasses d ! i; (ok, a) = TryAcquire (laneID cls) (ClassResources cls) (dAdm d) in
      if ok then d\<lparr>dAdm := a, dPc := Fetching i\<rparr> else d\<lparr>dPc := Visit i\<rparr>)"

definition laneFetch :: "nat \<Rightarrow> fetched \<Rightarrow> daemon \<Rightarrow> bool \<times> daemon" where
  "laneFetch i f d =
     (let cls = dClasses d ! i in
      case f of
        FetchErr \<Rightarrow> (False, d\<lparr>dAdm := Release (laneID cls) (dAdm d), dPc := Visit i\<rparr>)
      | Fetched msgs \<Rightarrow>
          (let (claimed, d') = dispatchAll cls msgs False d in
           if \<not> claimed then (False, d'\<lparr>dAdm := Release (laneID cls) (dAdm d'), dPc := Visit i\<rparr>)
           else (True, d'\<lparr>dPc := Visit i\<rparr>)))"

text \<open>One pass over the lanes below index \<open>n\<close>, largest first; the result tells
  whether anything was dispatched.\<close>

fun sweep :: "nat \<Rightarrow> (string \<Rightarrow> fetched) \<Rightarrow> daemon \<Rightarrow> bool \<times> daemon" where
  "sweep 0 q d = (False, d)"
| "sweep (Suc i) q d =
     (let d1 = laneReserve i d in
      case dPc d1 of
        Visit _ \<Rightarrow> sweep i q d1
      | Fetching _ \<Rightarrow>
          (let (c, d2) = laneFetch i (q (dClasses d ! i)) d1; (c', d3) = sweep i q d2 in (c \<or> c', d3)))"

text \<open>The deferred release when a job goroutine ends.\<close>

definition jobFinish :: "string \<Rightarrow> daemon \<Rightarrow> daemon" where
  "jobFinish i d = d\<lparr>dAdm := Release i (dAdm d), dJobs := filter (\<lambda>r. ruID r \<noteq> i) (dJobs d)\<rparr>"

inductive dstep :: "daemon \<Rightarrow> daemon \<Rightarrow> bool" where
  restart: "dPc d = Visit 0 \<Longrightarrow> dstep d (d\<lparr>dPc := Visit (length (dClasses d))\<rparr>)"
| reserve: "dPc d = Visit (Suc i) \<Longrightarrow> dstep d (laneReserve i d)"
| fetch: "dPc d = Fetching i \<Longrightarrow> dstep d (snd (laneFetch i f d))"
| finish: "r \<in> set (dJobs d) \<Longrightarrow> dstep d (jobFinish (ruID r) d)"

inductive_cases dstep_elim: "dstep d d'"

inductive dreach :: "daemon \<Rightarrow> daemon \<Rightarrow> bool" for d0 :: daemon where
  start: "dreach d0 d0"
| step: "dreach d0 d \<Longrightarrow> dstep d d' \<Longrightarrow> dreach d0 d'"

section \<open>The invariant of the loop\<close>

definition laneHeld :: "daemon \<Rightarrow> (string \<times> Resources) list" where
  "laneHeld d = (case dPc d of Visit _ \<Rightarrow> []
     | Fetching i \<Rightarrow> [(laneID (dClasses d ! i), ClassResources (dClasses d ! i))])"

definition jobHeld :: "daemon \<Rightarrow> (string \<times> Resources) list" where
  "jobHeld d = map (\<lambda>r. (ruID r, ClassResources (ruClass r))) (dJobs d)"

text \<open>Room for one more rung on top of a full capacity.\<close>

definition capOK :: "Resources \<Rightarrow> bool" where
  "capOK cap \<longleftrightarrow> resOK cap \<and> CPUMilli cap + 4000 < 2 ^ 63 \<and> MemBytes cap + 16 * GiB < 2 ^ 63"

definition loopOK :: "daemon \<Rightarrow> bool" where
  "loopOK d \<longleftrightarrow>
     admOK (dAdm d) \<and> capOK (capacity (dAdm d)) \<and> dClasses d = ClassesWithin (capacity (dAdm d))
     \<and> (case dPc d of Visit i \<Rightarrow> i \<le> length (dClasses d) | Fetching i \<Rightarrow> i < length (dClasses d))
     \<and> (\<forall>r \<in> set (dJobs d). ruID r = jobID (ruJob r) \<and> ruClass r \<in> set (dClasses d))
     \<and> distinct (map ruID (dJobs d))
     \<and> map_of (held (dAdm d)) = map_of (laneHeld d @ jobHeld d)"

lemma ledger_ext:
  assumes "distinct (map fst h)" "distinct (map fst h')" "map_of h = map_of h'"
  shows "cpuSum h = cpuSum h'" "memSum h = memSum h'" "length h = length h'"
proof -
  have "set h = set h'" using assms by (metis map_of_inject_set)
  then have "mset h = mset h'"
    using assms(1,2) by (metis distinct_map set_eq_iff_mset_eq_distinct)
  then show "cpuSum h = cpuSum h'" "memSum h = memSum h'" "length h = length h'"
    by (auto simp: cpuSum_def memSum_def dest: mset_eq_length intro!: arg_cong [where f = sum_mset]
        simp flip: sum_mset_sum_list)
qed

lemma lane_job_ids: "laneID c \<noteq> jobID j"
  by (simp add: laneID_def jobID_def jobIDPrefix_def)

lemma jobID_inj: "jobID j = jobID j' \<longleftrightarrow> jNode j = jNode j' \<and> jGen j = jGen j'"
  using digits_suffix_unique [of "jNode j" "unat (jGen j)" "jNode j'" "unat (jGen j')"]
  by (auto simp: jobID_def simp flip: word_unat_eq_iff)

lemma rung_noWrap:
  assumes "capOK (capacity a)" "c \<in> set Classes"
  shows "noWrap a (ClassResources c)"
proof -
  have "Fits (ClassResources c) (Res 4000 17179869184)" "resOK (ClassResources c)"
    using top_rung [OF assms(2)] rung_resOK [OF assms(2)] by (auto simp: classRes_eval)
  with assms(1) show ?thesis by (auto simp: noWrap_def capOK_def Fits_def GiB_def)
qed

lemma loop_class: "loopOK d \<Longrightarrow> i < length (dClasses d) \<Longrightarrow> dClasses d ! i \<in> set Classes"
  by (metis ladder.within_iff loopOK_def nth_mem)

lemma held_keys:
  assumes "loopOK d"
  shows "distinct (map fst (laneHeld d @ jobHeld d))"
proof -
  have m: "map fst (jobHeld d) = map ruID (dJobs d)" by (simp add: jobHeld_def)
  moreover have "fst ` set (laneHeld d) \<inter> ruID ` set (dJobs d) = {}"
    using assms lane_job_ids by (auto simp: loopOK_def laneHeld_def split: sweepPc.splits)
  moreover have "distinct (map fst (laneHeld d))" by (simp add: laneHeld_def split: sweepPc.splits)
  moreover have "distinct (map ruID (dJobs d))" using assms by (simp add: loopOK_def)
  ultimately show ?thesis unfolding map_append m distinct_append by simp
qed

lemma newDaemon_OK: "capOK cap \<Longrightarrow> newDaemon i nm p cap sl = Some d \<Longrightarrow> loopOK d"
  by (auto simp: newDaemon_def loopOK_def capOK_def newAdmission_OK laneHeld_def jobHeld_def
      newAdmission_def Let_def intro!: newAdmission_OK [unfolded newAdmission_def] split: if_splits)

section \<open>Every step keeps it\<close>

lemma laneReserve_OK:
  assumes "loopOK d" "dPc d = Visit (Suc i)"
  shows "loopOK (laneReserve i d)"
proof -
  let ?c = "dClasses d ! i" and ?a = "dAdm d"
  from assms have i: "i < length (dClasses d)" by (auto simp: loopOK_def)
  have cap: "capOK (capacity ?a)" "admOK ?a" using assms(1) by (simp_all add: loopOK_def)
  note nw = rung_noWrap [OF cap(1) loop_class [OF assms(1) i]]
  note ok = adm.acquire_ok [OF cap(2) nw, of "laneID ?c"]
  have lh: "laneHeld d = []" using assms(2) by (simp add: laneHeld_def)
  show ?thesis
  proof (cases "fst (TryAcquire (laneID ?c) (ClassResources ?c) ?a)")
    case True
    then obtain a where e: "TryAcquire (laneID ?c) (ClassResources ?c) ?a = (True, a)"
      by (cases "TryAcquire (laneID ?c) (ClassResources ?c) ?a") auto
    have "capacity a = capacity ?a" using capacity_kept(1) [of "laneID ?c" "ClassResources ?c" ?a] e by simp
    moreover have "map_of (held a) = (map_of (held ?a))(laneID ?c \<mapsto> ClassResources ?c)"
      using adm.acquire_view [OF True] e by simp
    ultimately show ?thesis using assms(1) ok i e lh
      by (auto simp: loopOK_def laneReserve_def Let_def laneHeld_def jobHeld_def)
  next
    case False
    then obtain a where e: "TryAcquire (laneID ?c) (ClassResources ?c) ?a = (False, a)"
      by (cases "TryAcquire (laneID ?c) (ClassResources ?c) ?a") auto
    then show ?thesis using assms(1) i lh
      by (auto simp: loopOK_def laneReserve_def Let_def laneHeld_def jobHeld_def)
  qed
qed

text \<open>A dispatch that claims moves the lane's reservation to the job; one that does
  not leaves the ledger and the running jobs alone.\<close>

lemma dispatch_cases:
  assumes "dispatch c msg d = (b, d')"
  shows "dPc d' = dPc d" "dClasses d' = dClasses d"
    and "\<not> b \<Longrightarrow> dAdm d' = dAdm d \<and> dJobs d' = dJobs d"
    and "b \<Longrightarrow> \<exists>job. msg = Some job \<and> fst (Rename (laneID c) (jobID job) (dAdm d))
        \<and> dAdm d' = snd (Rename (laneID c) (jobID job) (dAdm d))
        \<and> dJobs d' = dJobs d @ [\<lparr>ruID = jobID job, ruClass = c, ruJob = job\<rparr>]"
  using assms by (auto simp: dispatch_def Let_def split: option.splits prod.splits if_splits)

lemma dispatchAll_claimed:
  "dispatchAll c msgs True d = (True, d\<lparr>dActs := dActs d @ map Nak msgs\<rparr>)"
  by (induction msgs arbitrary: d) simp_all

lemma dispatchAll_cases:
  "dispatchAll c msgs False d = (b, d') \<Longrightarrow>
     dPc d' = dPc d \<and> dClasses d' = dClasses d \<and> (\<not> b \<longrightarrow> dAdm d' = dAdm d \<and> dJobs d' = dJobs d)
     \<and> (b \<longrightarrow> (\<exists>job. Some job \<in> set msgs \<and> fst (Rename (laneID c) (jobID job) (dAdm d))
        \<and> dAdm d' = snd (Rename (laneID c) (jobID job) (dAdm d))
        \<and> dJobs d' = dJobs d @ [\<lparr>ruID = jobID job, ruClass = c, ruJob = job\<rparr>]))"
proof (induction msgs arbitrary: d)
  case (Cons msg msgs)
  obtain b1 d1 where e: "dispatch c msg d = (b1, d1)" by fastforce
  show ?case
  proof (cases b1)
    case True
    with e Cons.prems show ?thesis using dispatch_cases [OF e] by (auto simp: dispatchAll_claimed)
  next
    case False
    with e Cons.prems have "dispatchAll c msgs False d1 = (b, d')" by simp
    from Cons.IH [OF this] False show ?thesis using dispatch_cases [OF e] by auto
  qed
qed simp

lemma lane_release_OK:
  assumes "loopOK d" "dPc d = Fetching i" "dAdm d' = dAdm d" "dJobs d' = dJobs d" "dClasses d' = dClasses d"
  shows "loopOK (d'\<lparr>dAdm := Release (laneID (dClasses d ! i)) (dAdm d'), dPc := Visit i\<rparr>)"
proof -
  let ?l = "laneID (dClasses d ! i)"
  have "?l \<notin> fst ` set (jobHeld d)"
    using held_keys [OF assms(1)] assms(2) by (auto simp: laneHeld_def)
  then have "map_of (jobHeld d) ?l = None" by (simp add: map_of_eq_None_iff)
  then have "(map_of (laneHeld d @ jobHeld d))(?l := None) = map_of (jobHeld d)"
    using assms(2) by (auto simp: laneHeld_def fun_eq_iff)
  then have "map_of (held (Release ?l (dAdm d))) = map_of (jobHeld d)"
    using assms(1) by (simp only: adm.release_view loopOK_def)
  then show ?thesis
    using assms adm.release_ok [of "dAdm d" ?l] by (auto simp: loopOK_def laneHeld_def jobHeld_def)
qed

lemma lane_handover_OK:
  assumes "loopOK d" "dPc d = Fetching i" "dClasses d' = dClasses d"
    and r: "fst (Rename (laneID (dClasses d ! i)) (jobID job) (dAdm d))"
    and "dAdm d' = snd (Rename (laneID (dClasses d ! i)) (jobID job) (dAdm d))"
    and "dJobs d' = dJobs d @ [\<lparr>ruID = jobID job, ruClass = dClasses d ! i, ruJob = job\<rparr>]"
  shows "loopOK (d'\<lparr>dPc := Visit i\<rparr>)"
proof -
  let ?l = "laneID (dClasses d ! i)" and ?R = "ClassResources (dClasses d ! i)"
  from assms(1,2) have i: "i < length (dClasses d)" by (auto simp: loopOK_def)
  have lh: "laneHeld d = [(?l, ?R)]" using assms(2) by (simp add: laneHeld_def)
  have v: "map_of (held (dAdm d)) = (map_of (jobHeld d))(?l \<mapsto> ?R)"
    using assms(1) lh by (simp add: loopOK_def)
  have ln: "map_of (jobHeld d) ?l = None"
    using held_keys [OF assms(1)] lh by (auto simp: map_of_eq_None_iff)
  have jn: "map_of (jobHeld d) (jobID job) = None"
    using adm.rename_view [OF r] v lane_job_ids [of "dClasses d ! i" job] by (auto split: if_splits)
  then have fresh: "jobID job \<notin> ruID ` set (dJobs d)"
    by (simp add: map_of_eq_None_iff jobHeld_def image_image)
  have "map_of (held (dAdm d')) = (map_of (jobHeld d))(jobID job \<mapsto> ?R)"
    using adm.rename_view [OF r] v ln lane_job_ids [of "dClasses d ! i" job] assms(5) by (auto simp: fun_eq_iff)
  also have "\<dots> = map_of (jobHeld d')"
    using jn assms(6) by (auto simp: jobHeld_def map_add_def fun_eq_iff split: option.splits)
  finally show ?thesis
    using assms fresh i adm.rename_ok [of "dAdm d" ?l "jobID job"]
    by (auto simp: loopOK_def laneHeld_def jobHeld_def)
qed

lemma laneFetch_OK:
  assumes "loopOK d" "dPc d = Fetching i"
  shows "loopOK (snd (laneFetch i f d))"
proof (cases f)
  case FetchErr
  then show ?thesis using lane_release_OK [OF assms, of d] by (simp add: laneFetch_def Let_def)
next
  case (Fetched msgs)
  obtain b d' where e: "dispatchAll (dClasses d ! i) msgs False d = (b, d')" by fastforce
  note c = dispatchAll_cases [OF e]
  show ?thesis
  proof (cases b)
    case True
    with c lane_handover_OK [OF assms, of d'] show ?thesis
      by (auto simp: laneFetch_def Fetched Let_def e)
  next
    case False
    with c lane_release_OK [OF assms, of d'] show ?thesis
      by (auto simp: laneFetch_def Fetched Let_def e)
  qed
qed

lemma map_of_filter_key:
  "map_of (map (\<lambda>r. (k r, v r)) (filter (\<lambda>r. k r \<noteq> i) xs)) = (map_of (map (\<lambda>r. (k r, v r)) xs))(i := None)"
  by (induction xs) auto

lemma jobFinish_OK:
  assumes "loopOK d" "r \<in> set (dJobs d)"
  shows "loopOK (jobFinish (ruID r) d)"
proof -
  let ?i = "ruID r"
  have "?i \<notin> fst ` set (laneHeld d)"
    using assms lane_job_ids [symmetric] by (auto simp: loopOK_def laneHeld_def split: sweepPc.splits)
  then have "map_of (laneHeld d) ?i = None" by (simp add: map_of_eq_None_iff)
  then have "(map_of (laneHeld d @ jobHeld d))(?i := None)
      = map_of (laneHeld d @ map (\<lambda>r. (ruID r, ClassResources (ruClass r))) (filter (\<lambda>r. ruID r \<noteq> ?i) (dJobs d)))"
    by (auto simp: map_add_def fun_eq_iff jobHeld_def map_of_filter_key split: option.splits)
  then have "map_of (held (Release ?i (dAdm d))) =
      map_of (laneHeld d @ map (\<lambda>r. (ruID r, ClassResources (ruClass r))) (filter (\<lambda>r. ruID r \<noteq> ?i) (dJobs d)))"
    using assms(1) by (simp only: adm.release_view loopOK_def)
  then show ?thesis
    using assms(1) adm.release_ok [of "dAdm d" ?i]
    by (auto simp: loopOK_def jobFinish_def laneHeld_def jobHeld_def distinct_map_filter split: sweepPc.splits)
qed

lemma dstep_OK: "dstep d d' \<Longrightarrow> loopOK d \<Longrightarrow> loopOK d'"
proof (erule dstep_elim, goal_cases)
  case 1 then show ?case by (auto simp: loopOK_def laneHeld_def jobHeld_def)
qed (auto intro: laneReserve_OK laneFetch_OK jobFinish_OK)

lemma dreach_OK: "dreach d0 d \<Longrightarrow> loopOK d0 \<Longrightarrow> loopOK d"
  by (induction rule: dreach.induct) (auto intro: dstep_OK)

text \<open>An uninterrupted pass is a run of the step relation.\<close>

lemma laneFetch_pc: "dPc d = Fetching i \<Longrightarrow> dPc (snd (laneFetch i f d)) = Visit i"
  by (auto simp: laneFetch_def Let_def split: fetched.splits prod.splits)

lemma laneReserve_pc: "dPc (laneReserve i d) = Visit i \<or> dPc (laneReserve i d) = Fetching i"
  by (auto simp: laneReserve_def Let_def split: prod.splits)

lemma sweep_reach: "dreach d0 d \<Longrightarrow> dPc d = Visit n \<Longrightarrow> dreach d0 (snd (sweep n q d)) \<and> dPc (snd (sweep n q d)) = Visit 0"
proof (induction n arbitrary: d)
  case (Suc i)
  let ?d1 = "laneReserve i d" and ?f = "q (dClasses d ! i)"
  have r1: "dreach d0 ?d1" using Suc.prems by (auto intro: dreach.step dstep.reserve)
  show ?case
  proof (cases "dPc ?d1 = Visit i")
    case True
    with Suc.IH [OF r1] show ?thesis by simp
  next
    case False
    then have f: "dPc ?d1 = Fetching i" using laneReserve_pc [of i d] by simp
    then have "dreach d0 (snd (laneFetch i ?f ?d1))" using r1 by (auto intro: dreach.step dstep.fetch)
    from Suc.IH [OF this laneFetch_pc [OF f]] f show ?thesis by (simp add: split_beta Let_def)
  qed
qed simp

section \<open>Properties\<close>

lemma jobHeld_bounds:
  assumes "loopOK d"
  shows "cpuSum (jobHeld d) \<le> CPUMilli (capacity (dAdm d))" "memSum (jobHeld d) \<le> MemBytes (capacity (dAdm d))"
    and "slots (dAdm d) > 0 \<Longrightarrow> int (length (dJobs d)) \<le> slots (dAdm d)"
proof -
  have a: "admOK (dAdm d)" "map_of (held (dAdm d)) = map_of (laneHeld d @ jobHeld d)"
    using assms by (simp_all add: loopOK_def)
  have k: "distinct (map fst (held (dAdm d)))" using a(1) by (simp add: admOK_def)
  note e = ledger_ext [OF k held_keys [OF assms] a(2)]
  have "0 \<le> cpuSum (laneHeld d) \<and> 0 \<le> memSum (laneHeld d)"
    using rung_resOK loop_class [OF assms] assms
    by (auto simp: laneHeld_def resOK_def loopOK_def split: sweepPc.splits)
  moreover have "cpuSum (laneHeld d @ jobHeld d) = cpuSum (laneHeld d) + cpuSum (jobHeld d)"
    "memSum (laneHeld d @ jobHeld d) = memSum (laneHeld d) + memSum (jobHeld d)"
    by (simp_all add: cpuSum_def memSum_def)
  moreover have "length (jobHeld d) = length (dJobs d)" by (simp add: jobHeld_def)
  ultimately show "cpuSum (jobHeld d) \<le> CPUMilli (capacity (dAdm d))"
    "memSum (jobHeld d) \<le> MemBytes (capacity (dAdm d))"
    "slots (dAdm d) > 0 \<Longrightarrow> int (length (dJobs d)) \<le> slots (dAdm d)"
    using a(1) e by (auto simp: admOK_def)
qed

lemma TryAcquire_consts:
  "TryAcquire i r s = (b, a) \<Longrightarrow> capacity a = capacity s \<and> slots a = slots s"
  using capacity_kept(1) [of i r s] slots_kept(1) [of i r s] by simp

lemma laneFetch_consts:
  "capacity (dAdm (snd (laneFetch i f d))) = capacity (dAdm d) \<and> slots (dAdm (snd (laneFetch i f d))) = slots (dAdm d)"
proof (cases f)
  case (Fetched msgs)
  obtain b d' where e: "dispatchAll (dClasses d ! i) msgs False d = (b, d')" by fastforce
  have "capacity (dAdm d') = capacity (dAdm d) \<and> slots (dAdm d') = slots (dAdm d)"
    using dispatchAll_cases [OF e] by (cases b) auto
  then show ?thesis by (simp add: laneFetch_def Fetched e)
qed (simp add: laneFetch_def Let_def)

lemma dstep_consts:
  "dstep d d' \<Longrightarrow> capacity (dAdm d') = capacity (dAdm d) \<and> slots (dAdm d') = slots (dAdm d)"
  by (erule dstep_elim)
    (auto simp: laneFetch_consts laneReserve_def jobFinish_def Let_def dest: TryAcquire_consts split: prod.splits)

lemma dreach_consts:
  "dreach d0 d \<Longrightarrow> capacity (dAdm d) = capacity (dAdm d0) \<and> slots (dAdm d) = slots (dAdm d0)"
  by (induction rule: dreach.induct) (auto dest: dstep_consts)

text \<open>C21: The runner never overcommits. From a fresh daemon, under every interleaving of
  lane visits, fetches (errors, undecodable and duplicate messages included) and
  finishing jobs, the rungs of the running jobs sum to at most the capacity in
  both dimensions, at most \<open>Slots\<close> jobs run when a limit is set, every running job's
  rung fits the machine, and no attempt (node and generation) runs twice.\<close>

theorem runner_never_overcommits:
  assumes "newDaemon i nm p cap sl = Some d0" and "capOK cap" and "dreach d0 d"
  shows "sum_list (map (\<lambda>r. CPUMilli (ClassResources (ruClass r))) (dJobs d)) \<le> CPUMilli cap
    \<and> sum_list (map (\<lambda>r. MemBytes (ClassResources (ruClass r))) (dJobs d)) \<le> MemBytes cap
    \<and> (sl > 0 \<longrightarrow> int (length (dJobs d)) \<le> sl)
    \<and> (\<forall>r \<in> set (dJobs d). Fits (ClassResources (ruClass r)) cap)
    \<and> distinct (map (\<lambda>r. (jNode (ruJob r), jGen (ruJob r))) (dJobs d))"
proof -
  have i: "loopOK d" using dreach_OK [OF assms(3)] newDaemon_OK [OF assms(2,1)] .
  have c: "capacity (dAdm d) = cap" "slots (dAdm d) = sl"
    using dreach_consts [OF assms(3)] assms(1) by (auto simp: newDaemon_def newAdmission_def Let_def split: if_splits)
  have "distinct (map (\<lambda>r. jobID (ruJob r)) (dJobs d))"
  proof -
    have e: "map (\<lambda>r. jobID (ruJob r)) (dJobs d) = map ruID (dJobs d)" using i by (auto simp: loopOK_def)
    show ?thesis unfolding e using i by (simp add: loopOK_def)
  qed
  then have "distinct (map (\<lambda>r. (jNode (ruJob r), jGen (ruJob r))) (dJobs d))"
    by (auto simp: distinct_map inj_on_def jobID_inj)
  moreover have "\<forall>r \<in> set (dJobs d). Fits (ClassResources (ruClass r)) cap"
    using i c ladder.within_iff by (auto simp: loopOK_def)
  ultimately show ?thesis
    using jobHeld_bounds [OF i] c by (simp add: jobHeld_def cpuSum_def memSum_def comp_def)
qed

text \<open>A two-core machine with two slots sweeps its lanes and finds one job on the
  one-core lane, delivered together with a second copy of itself.\<close>

definition demoJob :: Job where
  "demoJob = \<lparr>jNode = ''pin_ab'', jKind = ''pin'', jKey = ''ab'', jGen = 7, jPlatform = ''linux/arm64'',
     jClass = ''c1-m1'', jDef = [], jPullRefs = [], jCPUMilli = 200, jMemBytes = 0\<rparr>"

definition demoQueue :: "string \<Rightarrow> fetched" where
  "demoQueue c = (if c = ''c1-m1'' then Fetched [None, Some demoJob, Some demoJob] else Fetched [])"

definition demoDaemon :: daemon where
  "demoDaemon = the (newDaemon ''r'' ''r'' ''linux/arm64'' (Res 2000 4294967296) 2)"

theorem runner_never_overcommits_witness:
  "length (dJobs (snd (sweep 5 demoQueue (demoDaemon\<lparr>dPc := Visit 5\<rparr>)))) = 1
   \<and> sum_list (map (\<lambda>r. CPUMilli (ClassResources (ruClass r)))
        (dJobs (snd (sweep 5 demoQueue (demoDaemon\<lparr>dPc := Visit 5\<rparr>))))) \<le> CPUMilli (Res 2000 4294967296)"
proof -
  have n: "newDaemon ''r'' ''r'' ''linux/arm64'' (Res 2000 4294967296) 2 = Some demoDaemon"
    unfolding demoDaemon_def by code_simp
  have "dPc demoDaemon = Visit 0" "length (dClasses demoDaemon) = 5"
    unfolding demoDaemon_def by code_simp+
  then have "dreach demoDaemon (demoDaemon\<lparr>dPc := Visit 5\<rparr>)"
    using dstep.restart [of demoDaemon] by (auto intro: dreach.intros)
  then have r: "dreach demoDaemon (snd (sweep 5 demoQueue (demoDaemon\<lparr>dPc := Visit 5\<rparr>)))"
    by (rule sweep_reach [THEN conjunct1]) simp
  have "length (dJobs (snd (sweep 5 demoQueue (demoDaemon\<lparr>dPc := Visit 5\<rparr>)))) = 1"
    by code_simp
  then show ?thesis
    using runner_never_overcommits [OF n _ r] by (simp add: capOK_def resOK_def GiB_def)
qed

end
