(* ===== verification/RunnerJob.thy ===== *)
theory RunnerJob
  imports Wire
begin

text \<open>
  One attempt on a runner (\<open>src/runnerd/job.go\<close>, \<open>src/runnerd/refwriter.go\<close>,
  \<open>src/runnerd/sync.go\<close>): pull the inputs, ingest the in-band definition, run
  the stage driver, push the outputs under one scratch ref, publish the result,
  acknowledge the message.

  The world the attempt runs in (local store, server, context) is a type \<open>'s\<close> and
  the calls on it are the fields of \<open>runEnv\<close>; a call that can fail returns its error
  text.  A stage driver is a finite interactive program over the world that may
  call the ref writer: the datatype \<open>driver\<close>, run by \<open>runDriver\<close>.
\<close>

record Outcome =
  oDecline :: bool
  oDeclineReason :: string
  oCancelled :: bool
  oFailed :: bool
  oClass :: string
  oExitCode :: int
  oPhase :: string
  oStderr :: string

definition okOutcome :: Outcome where
  "okOutcome = \<lparr>oDecline = False, oDeclineReason = [], oCancelled = False, oFailed = False,
     oClass = [], oExitCode = 0, oPhase = [], oStderr = []\<rparr>"

definition cancelledOutcome :: Outcome where
  "cancelledOutcome = okOutcome\<lparr>oCancelled := True\<rparr>"

definition failedOutcome :: "string \<Rightarrow> string \<Rightarrow> string \<Rightarrow> Outcome" where
  "failedOutcome cls ph msg = okOutcome\<lparr>oFailed := True, oClass := cls, oPhase := ph, oStderr := msg\<rparr>"

definition hardOutcome :: "string \<Rightarrow> string \<Rightarrow> int \<Rightarrow> Outcome" where
  "hardOutcome ph msg ex = (failedOutcome ''hard'' ph msg)\<lparr>oExitCode := ex\<rparr>"

text \<open>The errors a publish can meet, as \<open>errors.Is\<close> tells them apart.\<close>

datatype pushErr = RefsNotAssigned | RefsAckTimeout string | PushErr string

definition pushOutcome :: "string \<Rightarrow> pushErr \<Rightarrow> Outcome" where
  "pushOutcome ph e = (case e of
      RefsNotAssigned \<Rightarrow> cancelledOutcome
    | RefsAckTimeout msg \<Rightarrow> failedOutcome ''control'' ph msg
    | PushErr msg \<Rightarrow> failedOutcome ''retryable'' ph msg)"

definition succeeded :: "Outcome \<Rightarrow> bool" where
  "succeeded out \<longleftrightarrow> \<not> oCancelled out \<and> \<not> oDecline out \<and> \<not> oFailed out"

record Ref =
  refName :: string
  refKey :: key
  refLabel :: string

datatype 's driver = Done Outcome
  | Act "'s \<Rightarrow> 's \<times> 's driver"
  | Write "Ref list" "string option \<Rightarrow> 's driver"

record BuildRunCfg =
  brPlatform :: string
  brShellKey :: key
  brMemoryMax :: int

record 's runEnv =
  eID :: string
  ePlatform :: string
  eCtxErr :: "'s \<Rightarrow> bool"
  eGetKey :: "string \<Rightarrow> 's \<Rightarrow> string + key option"
  eCheckComplete :: "key \<Rightarrow> 's \<Rightarrow> string option"
  ePull :: "string \<Rightarrow> 's \<Rightarrow> (string + key) \<times> 's"
  ePush :: "string \<Rightarrow> key \<Rightarrow> 's \<Rightarrow> string option \<times> 's"
  eIngestFile :: "bytes \<Rightarrow> 's \<Rightarrow> (string + key) \<times> 's"
  ePutRef :: "string \<Rightarrow> key \<Rightarrow> 's \<Rightarrow> string option \<times> 's"
  eBuildStoreTree :: "key list \<Rightarrow> 's \<Rightarrow> (string + key) \<times> 's"
  eParseKey :: "bytes \<Rightarrow> string + key"
  eRunImport :: "int \<Rightarrow> key \<Rightarrow> 's driver"
  eRunBuild :: "kind \<Rightarrow> BuildRunCfg \<Rightarrow> key \<Rightarrow> 's driver"

section \<open>Collecting proposals\<close>

fun WriteRefs :: "'s runEnv \<Rightarrow> Ref list \<Rightarrow> RefProposal list \<Rightarrow> 's \<Rightarrow> string option \<times> RefProposal list \<times> 's" where
  "WriteRefs e [] ps w = (None, ps, w)"
| "WriteRefs e (r # rs) ps w =
     (case ePutRef e (refName r) (refKey r) w of
        (Some err, w') \<Rightarrow> (Some err, ps, w')
      | (None, w') \<Rightarrow> WriteRefs e rs (ps @ [\<lparr>pName = refName r, pKey = refKey r, pLabel = refLabel r\<rparr>]) w')"

text \<open>\<open>WriteRef\<close> is a batch of one without a label.\<close>

definition WriteRef :: "'s runEnv \<Rightarrow> string \<Rightarrow> key \<Rightarrow> RefProposal list \<Rightarrow> 's \<Rightarrow> string option \<times> RefProposal list \<times> 's" where
  "WriteRef e name k ps w =
     (case ePutRef e name k w of
        (Some err, w') \<Rightarrow> (Some err, ps, w')
      | (None, w') \<Rightarrow> (None, ps @ [\<lparr>pName = name, pKey = k, pLabel = []\<rparr>], w'))"

primrec runDriver :: "'s runEnv \<Rightarrow> 's driver \<Rightarrow> RefProposal list \<Rightarrow> 's \<Rightarrow> Outcome \<times> RefProposal list \<times> 's" where
  "runDriver e (Done out) ps w = (out, ps, w)"
| "runDriver e (Act f) ps w = (let (w', run) = map_prod id (runDriver e) (f w) in run ps w')"
| "runDriver e (Write rs k) ps w =
     (let (err, ps', w') = WriteRefs e rs ps w in (runDriver e \<circ> k) err ps' w')"

section \<open>Inputs\<close>

datatype refErr = PullErr string | PullIncomplete string

definition refErrText :: "refErr \<Rightarrow> string" where
  "refErrText x = (case x of PullErr s \<Rightarrow> s | PullIncomplete s \<Rightarrow> s)"

definition ensureRef :: "'s runEnv \<Rightarrow> string \<Rightarrow> 's \<Rightarrow> (refErr + key) \<times> 's" where
  "ensureRef e name w =
     (let pullTwice =
        (case ePull e name w of
           (Inl err, w1) \<Rightarrow> (Inl (PullErr (''pull '' @ name @ '': '' @ err)), w1)
         | (Inr root, w1) \<Rightarrow>
             if eCheckComplete e root w1 = None then (Inr root, w1)
             else (case ePull e name w1 of
                     (Inl err, w2) \<Rightarrow> (Inl (PullErr (''re-pull '' @ name @ '': '' @ err)), w2)
                   | (Inr root', w2) \<Rightarrow>
                       (case eCheckComplete e root' w2 of
                          None \<Rightarrow> (Inr root', w2)
                        | Some err \<Rightarrow> (Inl (PullIncomplete (name @ '': pulled ref closure incomplete after re-pull: '' @ err)), w2))))
      in case eGetKey e name w of
           Inr (Some k) \<Rightarrow> if eCheckComplete e k w = None then (Inr k, w) else pullTwice
         | _ \<Rightarrow> pullTwice)"

fun pullAll :: "'s runEnv \<Rightarrow> string list \<Rightarrow> string list \<Rightarrow> 's \<Rightarrow> Outcome option \<times> string list \<times> 's" where
  "pullAll e [] readRefs w = (None, readRefs, w)"
| "pullAll e (name # names) readRefs w =
     (case ensureRef e name w of
        (Inl err, w') \<Rightarrow>
          if eCtxErr e w' then (Some cancelledOutcome, readRefs, w')
          else (Some (failedOutcome (case err of PullIncomplete _ \<Rightarrow> ''hard'' | PullErr _ \<Rightarrow> ''retryable'')
                        ''pulling'' (refErrText err)), readRefs, w')
      | (Inr _, w') \<Rightarrow> pullAll e names (readRefs @ [name]) w')"

text \<open>Ingesting the in-band definition; \<open>None\<close> is success.\<close>

definition ingestDef :: "'s runEnv \<Rightarrow> Job \<Rightarrow> key \<Rightarrow> 's \<Rightarrow> Outcome option \<times> 's" where
  "ingestDef e job k w =
     (if jDef job = [] then (None, w)
      else (case eIngestFile e (jDef job) w of
        (Inl err, w1) \<Rightarrow> (Some (failedOutcome ''retryable'' ''pulling'' (''ingest def: '' @ err)), w1)
      | (Inr ik, w1) \<Rightarrow>
          if ik \<noteq> k then
            (Some (failedOutcome ''hard'' ''pulling''
               (''in-band def hashes to '' @ keyString ik @ '', job key is '' @ keyString k)), w1)
          else
            (let name = (if jKind job = kindString KindImport then ''import:'' @ keyString k
                         else if jKind job = kindString KindBuildFrom then ''build:'' @ keyString k else []) in
             if name = [] then (None, w1)
             else (case ePutRef e name k w1 of
                     (None, w2) \<Rightarrow> (None, w2)
                   | (Some err, w2) \<Rightarrow> (Some (failedOutcome ''retryable'' ''pulling'' (''local def ref: '' @ err)), w2)))))"

section \<open>The stage driver\<close>

definition buildRunCfg :: "'s runEnv \<Rightarrow> Job \<Rightarrow> 's \<Rightarrow> (Outcome + BuildRunCfg) \<times> 's" where
  "buildRunCfg e job w =
     (let platform = (if jPlatform job = [] then ePlatform e else jPlatform job) in
      case ensureRef e (''shell:'' @ platform) w of
        (Inl err, w') \<Rightarrow>
          (Inl (if eCtxErr e w' then cancelledOutcome
                else failedOutcome ''retryable'' ''pulling'' (''resolve shell: '' @ refErrText err)), w')
      | (Inr shell, w') \<Rightarrow> (Inr \<lparr>brPlatform = platform, brShellKey = shell, brMemoryMax = jMemBytes job\<rparr>, w'))"

definition driveStage :: "'s runEnv \<Rightarrow> Job \<Rightarrow> 's \<Rightarrow> Outcome \<times> RefProposal list \<times> 's" where
  "driveStage e job w =
     (case eParseKey e (jKey job) of
        Inl err \<Rightarrow> (failedOutcome ''hard'' [] (''bad job key: '' @ err), [], w)
      | Inr k \<Rightarrow>
          if jKind job = kindString KindImport then runDriver e (eRunImport e (jMemBytes job) k) [] w
          else (case find (\<lambda>kd. kindString kd = jKind job) [KindBuildFrom, KindPluginResolve, KindPin, KindBuildRun] of
            Some kd \<Rightarrow>
              (case buildRunCfg e job w of
                 (Inl oc, w') \<Rightarrow> (oc, [], w')
               | (Inr brc, w') \<Rightarrow> runDriver e (eRunBuild e kd brc k) [] w')
          | None \<Rightarrow> (failedOutcome ''hard'' [] (''kind '' @ [CHR 0x22] @ jKind job @ [CHR 0x22] @ '' is not executable''), [], w)))"

section \<open>The attempt\<close>

definition scratchRefName :: "string \<Rightarrow> string \<Rightarrow> 64 word \<Rightarrow> string" where
  "scratchRefName runnerID node gen = ''runner-push/'' @ runnerID @ ''/'' @ node @ ''-'' @ FormatNat (unat gen)"

fun parseRoots :: "'s runEnv \<Rightarrow> RefProposal list \<Rightarrow> string + key list" where
  "parseRoots e [] = Inr []"
| "parseRoots e (p # ps) =
     (case eParseKey e (pKey p) of
        Inl err \<Rightarrow> Inl err
      | Inr k \<Rightarrow> (case parseRoots e ps of Inl err \<Rightarrow> Inl err | Inr ks \<Rightarrow> Inr (k # ks)))"

definition pushOutputs :: "'s runEnv \<Rightarrow> Job \<Rightarrow> Outcome \<Rightarrow> RefProposal list \<Rightarrow> 's \<Rightarrow> Outcome \<times> RefProposal list \<times> string \<times> 's" where
  "pushOutputs e job out refs w =
     (if refs = [] then (out, refs, [], w)
      else (case parseRoots e refs of
        Inl err \<Rightarrow> (failedOutcome ''hard'' ''pushing'' (''proposed ref key: '' @ err), [], [], w)
      | Inr roots \<Rightarrow>
          (case eBuildStoreTree e roots w of
             (Inl err, w1) \<Rightarrow> (failedOutcome ''retryable'' ''pushing'' (''assemble scratch tree: '' @ err), [], [], w1)
           | (Inr uni, w1) \<Rightarrow>
               (let scratch = scratchRefName (eID e) (jNode job) (jGen job) in
                case ePush e scratch uni w1 of
                  (Some err, w2) \<Rightarrow>
                    if eCtxErr e w2 then (cancelledOutcome, [], [], w2)
                    else (failedOutcome ''retryable'' ''pushing'' (''push outputs: '' @ err), [], [], w2)
                | (None, w2) \<Rightarrow> (out, refs, scratch, w2)))))"

definition attempt :: "'s runEnv \<Rightarrow> Job \<Rightarrow> 's \<Rightarrow> Outcome \<times> RefProposal list \<times> string \<times> string list \<times> 's" where
  "attempt e job w =
     (case pullAll e (jPullRefs job) [] w of
        (Some out, readRefs, w1) \<Rightarrow> (out, [], [], readRefs, w1)
      | (None, readRefs, w1) \<Rightarrow>
          (case eParseKey e (jKey job) of
             Inl err \<Rightarrow> (failedOutcome ''hard'' ''pulling'' (''bad job key: '' @ err), [], [], readRefs, w1)
           | Inr k \<Rightarrow>
               (case ingestDef e job k w1 of
                  (Some out, w2) \<Rightarrow> (out, [], [], readRefs, w2)
                | (None, w2) \<Rightarrow>
                    (let (out, refs, w3) = driveStage e job w2 in
                     if eCtxErr e w3 \<and> (oFailed out \<or> oDecline out) then (cancelledOutcome, [], [], readRefs, w3)
                     else if oCancelled out \<or> oDecline out \<or> oFailed out then (out, [], [], readRefs, w3)
                     else (let (out', refs', scratch, w4) = pushOutputs e job out refs w3
                           in (out', refs', scratch, readRefs, w4))))))"

section \<open>The result and the acknowledgement\<close>

definition buildResult :: "Job \<Rightarrow> string \<Rightarrow> Outcome \<Rightarrow> RefProposal list \<Rightarrow> string \<Rightarrow> Rusage \<Rightarrow> string list \<Rightarrow> Result" where
  "buildResult job runnerID out refs scratch ru readRefs =
     (let res = \<lparr>rNode = jNode job, rGen = jGen job, rRunner = runnerID, rClass = [], rExit = 0, rErrSummary = [],
                 rRefs = [], rRusage = ru, rScratchRef = [], rReadRefs = readRefs\<rparr> in
      if oCancelled out then res\<lparr>rClass := ClassCancelled\<rparr>
      else if oDecline out then res\<lparr>rClass := ClassRetryable, rErrSummary := ''declined: '' @ oDeclineReason out\<rparr>
      else if oFailed out then
        res\<lparr>rClass := (if oClass out = [] then ClassHard else oClass out),
            rExit := oExitCode out,
            rErrSummary := (if oPhase out \<noteq> [] \<and> oStderr out \<noteq> [] then oPhase out @ '': '' @ oStderr out
                            else if oPhase out \<noteq> [] then oPhase out @ '': failed'' else oStderr out)\<rparr>
      else res\<lparr>rClass := ClassOK, rRefs := refs, rScratchRef := scratch\<rparr>)"

definition finishOutcome :: "string \<Rightarrow> string" where
  "finishOutcome cls = (if cls = ClassOK then ''completed'' else if cls = ClassCancelled then ''cancelled'' else ''failed'')"

text \<open>One try of the publish loop: sent, refused with the deadline already past,
  refused and the deadline passes in the pause, or refused and tried again.\<close>

datatype pubTry = Sent | RefusedLate | RefusedThenDone | RefusedAgain

fun publishResult :: "pubTry list \<Rightarrow> bool option" where
  "publishResult [] = None"
| "publishResult (Sent # _) = Some True"
| "publishResult (RefusedLate # _) = Some False"
| "publishResult (RefusedThenDone # _) = Some False"
| "publishResult (RefusedAgain # ts) = publishResult ts"

datatype jobEvent = Published Result | Acked | Naked

definition usageOf :: "int \<Rightarrow> (int \<times> int) option \<Rightarrow> Rusage" where
  "usageOf wall u =
     (let ru = \<lparr>WallNs = wall, CPUNs = 0, MaxRSS = 0, Stored = 0, Deduped = 0\<rparr> in
      case u of None \<Rightarrow> ru
      | Some (cpuMs, memPeak) \<Rightarrow>
          (let ru1 = (if cpuMs \<ge> 0 then ru\<lparr>CPUNs := i64 (cpuMs * 1000000)\<rparr> else ru) in
           if memPeak \<ge> 0 then ru1\<lparr>MaxRSS := memPeak\<rparr> else ru1))"

definition handleJob :: "'s runEnv \<Rightarrow> Job \<Rightarrow> Rusage \<Rightarrow> bool \<Rightarrow> 's \<Rightarrow> jobEvent list \<times> 's" where
  "handleJob e job ru published w =
     (let (out, refs, scratch, readRefs, w') = attempt e job w;
          res = buildResult job (eID e) out refs scratch ru readRefs in
      if \<not> published then ([Naked], w')
      else if rClass res = ClassCancelled then ([Published res, Naked], w')
      else ([Published res, Acked], w'))"

section \<open>Reconnecting transfers\<close>

datatype opErr = RemoteVerdict string | Transport string

text \<open>\<open>reconnSync.do\<close>: the argument lists, per try, what dialling gives and what the
  operation then returns; the second component counts the operations run.\<close>

fun syncDo :: "nat \<Rightarrow> (string option \<times> opErr option \<times> bool) list \<Rightarrow> (opErr option \<times> nat) option" where
  "syncDo n [] = None"
| "syncDo n ((dialErr, res, ctxErr) # ts) =
     (case dialErr of
        Some err \<Rightarrow> Some (Some (Transport err), n)
      | None \<Rightarrow>
          (case res of
             None \<Rightarrow> Some (None, Suc n)
           | Some (RemoteVerdict v) \<Rightarrow> Some (Some (RemoteVerdict v), Suc n)
           | Some (Transport t) \<Rightarrow>
               if n \<ge> 1 \<or> ctxErr then Some (Some (Transport t), Suc n) else syncDo (Suc n) ts))"

section \<open>Lemmas\<close>

lemma failed_not_succeeded [simp]:
  "\<not> succeeded (failedOutcome c p m)" "\<not> succeeded cancelledOutcome"
  by (simp_all add: succeeded_def failedOutcome_def cancelledOutcome_def)

lemma ensureRef_complete: "ensureRef e name w = (Inr k, w') \<Longrightarrow> eCheckComplete e k w' = None"
  by (auto simp: ensureRef_def Let_def split: sum.splits option.splits if_splits prod.splits)

lemma pullAll_reads:
  "pullAll e names rr w = (r, rr', w') \<Longrightarrow>
     (\<exists>k \<le> length names. rr' = rr @ take k names) \<and>
     (case r of None \<Rightarrow> rr' = rr @ names | Some out \<Rightarrow> \<not> succeeded out)"
proof (induction names arbitrary: rr w)
  case (Cons name names)
  obtain x w1 where x: "ensureRef e name w = (x, w1)" by fastforce
  show ?case
  proof (cases x)
    case (Inl err)
    with Cons.prems x show ?thesis by (auto split: if_splits intro: exI [of _ 0])
  next
    case (Inr k)
    with Cons.prems x have "pullAll e names (rr @ [name]) w1 = (r, rr', w')" by simp
    from Cons.IH [OF this] obtain k where k: "k \<le> length names" "rr' = (rr @ [name]) @ take k names"
      and c: "case r of None \<Rightarrow> rr' = (rr @ [name]) @ names | Some out \<Rightarrow> \<not> succeeded out" by blast
    from k have "Suc k \<le> length (name # names)" "rr' = rr @ take (Suc k) (name # names)" by simp_all
    moreover from c have "case r of None \<Rightarrow> rr' = rr @ name # names | Some out \<Rightarrow> \<not> succeeded out"
      by (simp split: option.splits)
    ultimately show ?thesis by blast
  qed
qed auto

lemma ingestDef_cases:
  "ingestDef e job k w = (r, w') \<Longrightarrow>
     (case r of Some out \<Rightarrow> \<not> succeeded out
      | None \<Rightarrow> jDef job \<noteq> [] \<longrightarrow> fst (eIngestFile e (jDef job) w) = Inr k)"
  by (auto simp: ingestDef_def Let_def split: if_splits sum.splits option.splits prod.splits)

text \<open>What a push that keeps the refs has done: the union of all proposed keys was
  built and pushed under the attempt's scratch ref.\<close>

definition pushedFor :: "'s runEnv \<Rightarrow> Job \<Rightarrow> RefProposal list \<Rightarrow> string \<Rightarrow> 's \<Rightarrow> bool" where
  "pushedFor e job refs scratch w' \<longleftrightarrow>
     scratch = scratchRefName (eID e) (jNode job) (jGen job) \<and>
     (\<exists>ks uni w0 w1. parseRoots e refs = Inr ks \<and> eBuildStoreTree e ks w0 = (Inr uni, w1) \<and> ePush e scratch uni w1 = (None, w'))"

lemma pushOutputs_cases:
  assumes "pushOutputs e job out refs w = (out', refs', scratch, w')" "succeeded out"
  shows "if succeeded out' then refs' = refs \<and> (if refs = [] then scratch = [] else pushedFor e job refs scratch w')
         else refs' = [] \<and> scratch = []"
  using assms unfolding pushedFor_def pushOutputs_def Let_def
  by (auto split: if_splits sum.splits option.splits prod.splits)

lemma attempt_cases:
  assumes "attempt e job w = (out, refs, scratch, rr, w')"
  shows "(\<exists>k \<le> length (jPullRefs job). rr = take k (jPullRefs job))
    \<and> (if succeeded out
       then rr = jPullRefs job \<and> (if refs = [] then scratch = [] else pushedFor e job refs scratch w')
         \<and> (\<exists>k. eParseKey e (jKey job) = Inr k \<and> (jDef job \<noteq> [] \<longrightarrow> (\<exists>w0. fst (eIngestFile e (jDef job) w0) = Inr k)))
       else refs = [] \<and> scratch = [])"
proof -
  obtain r rr1 w1 where p: "pullAll e (jPullRefs job) [] w = (r, rr1, w1)" by (metis prod_cases3)
  note pr = pullAll_reads [OF p]
  show ?thesis
  proof (cases r)
    case (Some out1)
    with assms p pr show ?thesis by (auto simp: attempt_def)
  next
    case None
    with pr have rr1: "rr1 = jPullRefs job" by simp
    show ?thesis
    proof (cases "eParseKey e (jKey job)")
      case (Inl err)
      with assms p None rr1 show ?thesis by (auto simp: attempt_def intro: exI [of _ "length (jPullRefs job)"])
    next
      case (Inr k)
      obtain r2 w2 where i: "ingestDef e job k w1 = (r2, w2)" by fastforce
      obtain out3 refs3 w3 where d: "driveStage e job w2 = (out3, refs3, w3)" by (metis prod_cases3)
      obtain out4 refs4 sc4 w4 where q: "pushOutputs e job out3 refs3 w3 = (out4, refs4, sc4, w4)" by (metis prod_cases4)
      show ?thesis
      proof (cases r2)
        case (Some out2)
        with assms p None rr1 Inr i ingestDef_cases [OF i] show ?thesis
          by (auto simp: attempt_def intro: exI [of _ "length (jPullRefs job)"])
      next
        case none2: None
        have id: "jDef job \<noteq> [] \<longrightarrow> fst (eIngestFile e (jDef job) w1) = Inr k"
          using ingestDef_cases [OF i] none2 by simp
        show ?thesis
        proof (cases "succeeded out3")
          case True
          with assms p None rr1 Inr i none2 d q pushOutputs_cases [OF q True] id show ?thesis
            by (auto simp: attempt_def succeeded_def split: if_splits intro: exI [of _ "length (jPullRefs job)"])
        next
          case False
          with assms p None rr1 Inr i none2 d q show ?thesis
            by (auto simp: attempt_def succeeded_def cancelledOutcome_def split: if_splits
                intro: exI [of _ "length (jPullRefs job)"])
        qed
      qed
    qed
  qed
qed

lemma buildResult_refs:
  "rRefs (buildResult job i out refs scratch ru rr) = (if succeeded out then refs else [])"
  "rScratchRef (buildResult job i out refs scratch ru rr) = (if succeeded out then scratch else [])"
  "succeeded out \<Longrightarrow> rClass (buildResult job i out refs scratch ru rr) = ClassOK"
  "rNode (buildResult job i out refs scratch ru rr) = jNode job" "rGen (buildResult job i out refs scratch ru rr) = jGen job"
  "rReadRefs (buildResult job i out refs scratch ru rr) = rr"
  by (simp_all add: buildResult_def succeeded_def Let_def)

lemma syncDo_second: "syncDo 1 ts = Some (r, m) \<Longrightarrow> m \<le> 2"
  by (cases ts) (auto split: option.splits opErr.splits)

lemma syncDo_count: "syncDo 0 ts = Some (r, m) \<Longrightarrow> m \<le> 2"
  using syncDo_second by (cases ts) (auto split: option.splits opErr.splits if_splits)

section \<open>Properties\<close>


text \<open>A world that counts pulls: refs resolve to the key \<open>k\<close>, the import driver
  writes one output ref.\<close>

definition demoEnv :: "nat runEnv" where
  "demoEnv = \<lparr>eID = ''r1'', ePlatform = ''linux/arm64'', eCtxErr = (\<lambda>_. False),
     eGetKey = (\<lambda>_ _. Inr None), eCheckComplete = (\<lambda>_ n. if n < 2 then Some ''missing'' else None),
     ePull = (\<lambda>_ n. (Inr ''k'', Suc n)), ePush = (\<lambda>_ _ n. (None, n)),
     eIngestFile = (\<lambda>b n. (Inr b, n)), ePutRef = (\<lambda>_ _ n. (None, n)),
     eBuildStoreTree = (\<lambda>ks n. (Inr (concat ks), n)), eParseKey = Inr,
     eRunImport = (\<lambda>_ k. Write [\<lparr>refName = ''import-output:6b'', refKey = ''o'', refLabel = []\<rparr>] (\<lambda>_. Done okOutcome)),
     eRunBuild = (\<lambda>_ _ _. Done okOutcome)\<rparr>"

definition demoImport :: Job where
  "demoImport = \<lparr>jNode = ''import_6b'', jKind = ''import'', jKey = ''k'', jGen = 3, jPlatform = ''linux/arm64'',
     jClass = ''c0.2-m1'', jDef = ''k'', jPullRefs = [''fetcher:git''], jCPUMilli = 200, jMemBytes = 0\<rparr>"

definition demoRefs :: "RefProposal list" where
  "demoRefs = [\<lparr>pName = ''import-output:6b'', pKey = ''o'', pLabel = []\<rparr>]"

lemma demo_ensureRef: "ensureRef demoEnv ''fetcher:git'' 0 = (Inr ''k'', 2)"
  by (simp add: ensureRef_def demoEnv_def numeral_2_eq_2)

lemma demo_attempt:
  "attempt demoEnv demoImport 0
     = (okOutcome, demoRefs, scratchRefName ''r1'' ''import_6b'' 3, [''fetcher:git''], 2)"
proof -
  have p: "pullAll demoEnv (jPullRefs demoImport) [] 0 = (None, [''fetcher:git''], 2)"
    by (simp add: demoImport_def demo_ensureRef)
  have i: "ingestDef demoEnv demoImport ''k'' 2 = (None, 2)"
    by (simp add: ingestDef_def demoEnv_def demoImport_def kindString_def)
  have d: "driveStage demoEnv demoImport 2 = (okOutcome, demoRefs, 2)"
    by (simp add: driveStage_def demoEnv_def demoImport_def demoRefs_def kindString_def)
  have q: "pushOutputs demoEnv demoImport okOutcome demoRefs 2
      = (okOutcome, demoRefs, scratchRefName ''r1'' ''import_6b'' 3, 2)"
    by (simp add: pushOutputs_def demoEnv_def demoImport_def demoRefs_def)
  have k: "eParseKey demoEnv (jKey demoImport) = Inr ''k''" "eCtxErr demoEnv 2 = False"
    by (simp_all add: demoEnv_def demoImport_def)
  show ?thesis
    by (simp add: attempt_def p i d q k) (simp add: okOutcome_def)
qed


text \<open>C37: \<open>ensureRef\<close> hands out only complete closures: when it returns a key, the
  closure check passes on that key in the resulting store, after no pull at all,
  one pull or two; and it blames an incomplete server closure only when the
  closure pulled the second time fails the check.\<close>

theorem ensureRef_outcomes:
  "case ensureRef e name w of
     (Inr k, w') \<Rightarrow> eCheckComplete e k w' = None
       \<and> (w' = w \<or> ePull e name w = (Inr k, w') \<or> (\<exists>r w1. ePull e name w = (Inr r, w1) \<and> ePull e name w1 = (Inr k, w')))
   | (Inl (PullIncomplete _), w') \<Rightarrow>
       (\<exists>r w1 r'. ePull e name w = (Inr r, w1) \<and> eCheckComplete e r w1 \<noteq> None
          \<and> ePull e name w1 = (Inr r', w') \<and> eCheckComplete e r' w' \<noteq> None)
   | (Inl (PullErr _), w') \<Rightarrow> (\<exists>err. ePull e name w = (Inl err, w') \<or> (\<exists>r w1. ePull e name w = (Inr r, w1) \<and> ePull e name w1 = (Inl err, w')))"
  by (auto simp: ensureRef_def Let_def split: sum.splits option.splits if_splits prod.splits)

text \<open>The reconnecting transfer runs its operation at most twice and always comes
  to a verdict within two tries; an answer from the server itself is returned
  as it is, without a second dial.\<close>

theorem syncDo_bounded:
  "(case ts of [] \<Rightarrow> True | [t] \<Rightarrow> True | _ \<Rightarrow> (\<exists>r m. syncDo 0 ts = Some (r, m) \<and> m \<le> 2))
   \<and> syncDo 0 ((None, Some (RemoteVerdict v), c) # ts) = Some (Some (RemoteVerdict v), 1)"
proof -
  have "\<exists>r m. syncDo 0 (t1 # t2 # us) = Some (r, m)" for t1 t2 us
    by (cases t1; cases t2) (auto split: option.splits opErr.splits)
  then show ?thesis
    using syncDo_count [of ts] by (auto split: list.splits) blast
qed

end
