(* ===== verification/BuildDef.thy ===== *)
theory BuildDef
  imports Wire
begin

text \<open>
  Packages \<open>builddef\<close> and \<open>importdef\<close>: the definition and pin records, the
  cache-declaration rules, the cache ref grammar and the canonical orders that
  make equal definitions encode to equal bytes.  The CBOR codec and the content
  hash are library code; where a component needs them they are parameters.
\<close>

section \<open>Definitions and pins\<close>

record Input =
  inKind :: string
  inDefinition :: bytes

record Definition =
  dfSource :: Input
  dfDir :: string
  dfPlatform :: string
  dfParams :: bytes
  dfBuildJobs :: bytes
  dfBuildFile :: string
  dfCtx :: int

record ImportDefinition =
  imFetcher :: string
  imParams :: bytes
  imRequiredTags :: "string list"
  imPlatform :: string
  imFetcherDef :: bytes

record PluginResolved =
  plPlugins :: "(string \<times> Input) list"
  plDeps :: "(string \<times> Input) list"

record PinnedInput =
  piName :: string
  piKind :: string
  piDefinition :: bytes

record PinnedCache =
  pcPath :: string
  pcID :: string

record PinnedResources =
  prCPUMilli :: int
  prMemBytes :: int

record Pinned =
  pnInputs :: "PinnedInput list"
  pnEnv :: "(string \<times> string) list"
  pnScript :: string
  pnRuntimeDeps :: "bytes list"
  pnCaches :: "PinnedCache list"
  pnResources :: "PinnedResources option"
  pnSources :: "string list"
  pnClosure :: "string list"
  pnDir :: string
  pnGenerated :: "(string \<times> bytes) list"

definition ValidateCtx :: "int \<Rightarrow> bool" where
  "ValidateCtx ctx \<longleftrightarrow> ctx = 0 \<or> ctx = 2"

definition ValidateDepName :: "string \<Rightarrow> bool" where
  "ValidateDepName name \<longleftrightarrow>
     name \<noteq> [] \<and> length name \<le> 128 \<and> CHR ''/'' \<notin> set name \<and> CHR 0x5C \<notin> set name
     \<and> list_all (\<lambda>c. \<not> ((of_char c :: nat) < 0x20 \<or> (of_char c :: nat) = 0x7F)) name
     \<and> name \<noteq> ''.'' \<and> name \<noteq> ''..''"

section \<open>Paths\<close>

text \<open>\<open>path.Clean\<close>: the segments are folded onto a stack (kept in reverse), dropping
  empty and dot segments and resolving parent segments.\<close>

definition cleanSeg :: "bool \<Rightarrow> string \<Rightarrow> string list \<Rightarrow> string list" where
  "cleanSeg rooted seg st =
     (if seg = [] \<or> seg = ''.'' then st
      else if seg = ''..'' then
        (case st of
           [] \<Rightarrow> if rooted then [] else [''..'']
         | t # ts \<Rightarrow> if t = ''..'' then ''..'' # st else ts)
      else seg # st)"

fun joinSlash :: "string list \<Rightarrow> string" where
  "joinSlash [] = []"
| "joinSlash [s] = s"
| "joinSlash (s # ss) = s @ ''/'' @ joinSlash ss"

definition pathClean :: "string \<Rightarrow> string" where
  "pathClean p =
     (if p = [] then ''.''
      else (let rooted = (hd p = CHR ''/'');
                body = joinSlash (rev (fold (cleanSeg rooted) (SplitOn (CHR ''/'') p) []))
            in if rooted then CHR ''/'' # body else if body = [] then ''.'' else body))"

section \<open>Cache declarations\<close>

definition alnum :: "char \<Rightarrow> bool" where
  "alnum c \<longleftrightarrow> (let n = of_char c :: nat in 48 \<le> n \<and> n \<le> 57 \<or> 65 \<le> n \<and> n \<le> 90 \<or> 97 \<le> n \<and> n \<le> 122)"

definition cacheIDRe :: "string \<Rightarrow> bool" where
  "cacheIDRe s = (case s of [] \<Rightarrow> False
     | c # cs \<Rightarrow> alnum c \<and> list_all (\<lambda>x. alnum x \<or> x = CHR ''.'' \<or> x = CHR ''_'' \<or> x = CHR ''-'') cs)"

definition ValidateCacheID :: "string \<Rightarrow> bool" where
  "ValidateCacheID i \<longleftrightarrow> \<not> length i > 128 \<and> cacheIDRe i"

definition reservedCachePrefixes :: "string list" where
  "reservedCachePrefixes = [''/jobs'', ''/build/src'', ''/build/out'', ''/dev'', ''/proc'', ''/tmp'']"

definition ValidateCachePath :: "string \<Rightarrow> bool" where
  "ValidateCachePath p \<longleftrightarrow>
     \<not> (p = [] \<or> hd p \<noteq> CHR ''/'') \<and> p = pathClean p \<and> p \<noteq> ''/'' \<and> p \<noteq> ''/build''
     \<and> list_all (\<lambda>res. \<not> (p = res \<or> HasPrefix p (res @ ''/''))) reservedCachePrefixes"

fun validateEach :: "PinnedCache list \<Rightarrow> string list \<Rightarrow> string list \<Rightarrow> bool" where
  "validateEach [] ids paths = True"
| "validateEach (c # cs) ids paths =
     (ValidateCachePath (pcPath c) \<and> ValidateCacheID (pcID c)
      \<and> pcID c \<notin> set ids \<and> pcPath c \<notin> set paths \<and> validateEach cs (pcID c # ids) (pcPath c # paths))"

definition ValidateCaches :: "PinnedCache list \<Rightarrow> bool" where
  "ValidateCaches cs \<longleftrightarrow> validateEach cs [] []
     \<and> list_all (\<lambda>a. list_all (\<lambda>b. \<not> (pcPath a \<noteq> pcPath b \<and> HasPrefix (pcPath a) (pcPath b @ ''/''))) cs) cs"

definition CacheRefName :: "string \<Rightarrow> string \<Rightarrow> string" where
  "CacheRefName i platform = ''build-cache:'' @ i @ '':'' @ platform"

definition ParseCacheRefName :: "string \<Rightarrow> (string \<times> string) option" where
  "ParseCacheRefName name =
     (case CutPrefix name ''build-cache:'' of
        None \<Rightarrow> None
      | Some rest \<Rightarrow>
          (case Cut (CHR '':'') rest of
             None \<Rightarrow> None
           | Some (i, platform) \<Rightarrow>
               if platform = [] \<or> \<not> ValidateCacheID i then None else Some (i, platform)))"

section \<open>Canonical orders\<close>

definition CanonicalCaches :: "PinnedCache list \<Rightarrow> PinnedCache list" where
  "CanonicalCaches cs = (if cs = [] then [] else sort_key pcPath cs)"

definition CanonicalPinnedInputs :: "PinnedInput list \<Rightarrow> PinnedInput list" where
  "CanonicalPinnedInputs inp = (if inp = [] then [] else dedupBy piName [] (sort_key piName inp))"

definition CanonicalSources :: "string list \<Rightarrow> string list" where
  "CanonicalSources inp = (if inp = [] then [] else remdups_adj (sort inp))"

definition SortKeys :: "bytes list \<Rightarrow> bytes list" where
  "SortKeys ks = (if ks = [] then [] else dedupBy EncodeToString [] (sort_key EncodeToString ks))"

definition canonTags :: "string list \<Rightarrow> string list" where
  "canonTags tags = (if tags = [] then [] else sort (dedupBy id [] tags))"

text \<open>The explicit field copies of the two \<open>Canonical\<close> functions, before encoding.\<close>

definition CanonicalDefinition :: "(Definition \<Rightarrow> bytes option) \<Rightarrow> Definition \<Rightarrow> bytes option" where
  "CanonicalDefinition marshal d = marshal
     \<lparr>dfSource = dfSource d, dfDir = dfDir d, dfPlatform = dfPlatform d, dfParams = dfParams d,
      dfBuildJobs = dfBuildJobs d, dfBuildFile = dfBuildFile d, dfCtx = dfCtx d\<rparr>"

definition CanonicalImport :: "(ImportDefinition \<Rightarrow> bytes option) \<Rightarrow> ImportDefinition \<Rightarrow> bytes option" where
  "CanonicalImport marshal d = marshal
     \<lparr>imFetcher = imFetcher d, imParams = imParams d, imRequiredTags = canonTags (imRequiredTags d),
      imPlatform = imPlatform d, imFetcherDef = imFetcherDef d\<rparr>"

section \<open>Lemmas: cache names\<close>

lemma cacheIDRe_chars: "cacheIDRe s \<Longrightarrow> CHR '':'' \<notin> set s \<and> CHR ''/'' \<notin> set s \<and> s \<noteq> []"
  by (auto simp: cacheIDRe_def list_all_iff alnum_def Let_def split: list.splits)

lemma ValidateCacheID_no_colon: "ValidateCacheID i \<Longrightarrow> CHR '':'' \<notin> set i"
  using cacheIDRe_chars by (auto simp: ValidateCacheID_def)

lemma ParseCacheRefName_iff:
  "ParseCacheRefName name = Some (i, plat) \<longleftrightarrow> name = CacheRefName i plat \<and> plat \<noteq> [] \<and> ValidateCacheID i"
proof
  assume "ParseCacheRefName name = Some (i, plat)"
  then show "name = CacheRefName i plat \<and> plat \<noteq> [] \<and> ValidateCacheID i"
    by (auto simp: ParseCacheRefName_def CacheRefName_def CutPrefix_Some_iff Cut_Some_iff
        split: option.splits if_splits)
next
  assume a: "name = CacheRefName i plat \<and> plat \<noteq> [] \<and> ValidateCacheID i"
  have "CutPrefix name ''build-cache:'' = Some (i @ CHR '':'' # plat)"
    using a by (auto simp: CutPrefix_Some_iff CacheRefName_def)
  with a ValidateCacheID_no_colon show "ParseCacheRefName name = Some (i, plat)"
    by (simp add: ParseCacheRefName_def)
qed

section \<open>Lemmas: cache paths\<close>

text \<open>\<open>p\<close> is \<open>q\<close> or lies below it.\<close>

definition under :: "string \<Rightarrow> string \<Rightarrow> bool" where
  "under p q \<longleftrightarrow> p = q \<or> HasPrefix p (q @ ''/'')"

lemma reserved_ancestors:
  assumes "r \<in> set reservedCachePrefixes" "HasPrefix r (p @ ''/'')"
  shows "p = [] \<or> p = ''/build''"
proof -
  from assms(2) obtain t where "r = p @ CHR ''/'' # t" by (auto simp: HasPrefix_iff)
  with assms(1) show ?thesis
    unfolding reservedCachePrefixes_def list.set insert_iff empty_iff
    by (elim disjE FalseE; auto simp: Cons_eq_append_conv)
qed

lemma ValidateCachePath_apart:
  assumes "ValidateCachePath p" "r \<in> set reservedCachePrefixes"
  shows "\<not> under p r \<and> \<not> under r p"
proof -
  from assms have "\<not> under p r" by (auto simp: ValidateCachePath_def list_all_iff under_def)
  moreover have "\<not> under r p"
    using assms reserved_ancestors [OF assms(2), of p] \<open>\<not> under p r\<close>
    by (auto simp: under_def ValidateCachePath_def)
  ultimately show ?thesis ..
qed

lemma validateEach_props:
  "validateEach cs ids paths \<Longrightarrow>
     (\<forall>c \<in> set cs. ValidateCachePath (pcPath c) \<and> ValidateCacheID (pcID c) \<and> pcID c \<notin> set ids \<and> pcPath c \<notin> set paths)
     \<and> distinct (map pcID cs) \<and> distinct (map pcPath cs)"
  by (induction cs ids paths rule: validateEach.induct) auto

section \<open>Lemmas: canonical orders\<close>

text \<open>Lower-case hexadecimal preserves the byte order.\<close>

lemma hexDigit_mono: "m < n \<Longrightarrow> n < 16 \<Longrightarrow> hexDigit m < hexDigit n"
proof -
  have "\<forall>n<16. \<forall>m<16. m < n \<longrightarrow> hexDigit m < hexDigit n"
    unfolding all_less_16 by code_simp
  then show "m < n \<Longrightarrow> n < 16 \<Longrightarrow> hexDigit m < hexDigit n" by auto
qed

lemma hexByte_mono:
  fixes c d :: char
  assumes "c < d"
  shows "hexDigit (of_char c div 16) < hexDigit (of_char d div 16)
    \<or> hexDigit (of_char c div 16) = hexDigit (of_char d div 16)
      \<and> hexDigit (of_char c mod 16) < hexDigit (of_char d mod 16)"
proof -
  from assms have lt: "(of_char c :: nat) < of_char d" by (simp add: less_char_def)
  show ?thesis
  proof (cases "(of_char c :: nat) div 16 = of_char d div 16")
    case True
    with lt have "(of_char c :: nat) mod 16 < of_char d mod 16"
      by (metis mod_less_divisor mult_div_mod_eq nat_add_left_cancel_less)
    with True show ?thesis by (simp add: hexDigit_mono)
  next
    case False
    with lt have "(of_char c :: nat) div 16 < of_char d div 16"
      by (metis div_le_mono le_neq_implies_less less_imp_le_nat)
    then show ?thesis by (simp add: hexDigit_mono)
  qed
qed

lemma EncodeToString_mono: "a < b \<Longrightarrow> EncodeToString a < EncodeToString b"
proof (induction a arbitrary: b)
  case Nil
  then show ?case by (cases b) auto
next
  case (Cons c cs)
  then obtain d ds where b: "b = d # ds" by (cases b) auto
  with Cons.prems consider "c < d" | "c = d" "cs < ds" by auto
  then show ?case
  proof cases
    case 1
    from hexByte_mono [OF this] show ?thesis by (auto simp: b)
  next
    case 2
    with Cons.IH show ?thesis by (simp add: b)
  qed
qed

lemma EncodeToString_less [simp]: "EncodeToString a < EncodeToString b \<longleftrightarrow> a < b"
  by (metis EncodeToString_mono less_asym linorder_neqE)

lemma EncodeToString_le [simp]: "EncodeToString a \<le> EncodeToString b \<longleftrightarrow> a \<le> b"
  by (simp flip: not_less)

lemma sorted_hex: "sorted (map EncodeToString xs) \<longleftrightarrow> sorted xs"
  by (induction xs) auto

lemma sorted_distinct_set:
  "sorted xs \<Longrightarrow> distinct xs \<Longrightarrow> set xs = S \<Longrightarrow> xs = sorted_list_of_set S"
  using sorted_list_of_set.idem_if_sorted_distinct by metis

lemma remdups_adj_distinct_sorted: "sorted xs \<Longrightarrow> distinct (remdups_adj xs)"
  by (induction xs rule: remdups_adj.induct) (auto simp: not_le dest: order_antisym)

lemma CanonicalSources_set: "CanonicalSources xs = sorted_list_of_set (set xs)"
  by (auto simp: CanonicalSources_def intro!: sorted_distinct_set sorted_remdups_adj
      remdups_adj_distinct_sorted)

lemma canonTags_set: "canonTags xs = sorted_list_of_set (set xs)"
  using set_dedupBy [of id "[]" xs] distinct_dedupBy [of id "[]" xs]
  by (auto simp: canonTags_def intro!: sorted_distinct_set)

lemma SortKeys_set: "SortKeys ks = sorted_list_of_set (set ks)"
proof -
  let ?d = "dedupBy EncodeToString [] (sort_key EncodeToString ks)"
  have "sorted ?d" using sorted_dedup_sort [of EncodeToString "[]" ks] by (simp add: sorted_hex)
  moreover have "distinct ?d" using distinct_dedupBy [of EncodeToString "[]"] by (rule distinct_map [THEN iffD1, THEN conjunct1])
  moreover have "set ?d = set ks"
    using set_dedupBy [of EncodeToString "[]" "sort_key EncodeToString ks"]
    by (auto simp: inj_image_eq_iff [of EncodeToString] inj_def)
  ultimately show ?thesis by (auto simp: SortKeys_def intro: sorted_distinct_set)
qed

lemma inj_sort_key_unique:
  fixes f :: "'a \<Rightarrow> 'b :: linorder"
  assumes "mset xs = mset ys" "distinct (map f xs)"
  shows "sort_key f xs = sort_key f ys"
proof (rule properties_for_sort_key)
  show "mset (sort_key f ys) = mset xs" using assms by simp
  show "filter (\<lambda>y. f k = f y) (sort_key f ys) = filter (\<lambda>x. f k = f x) xs" if "k \<in> set (sort_key f ys)" for k
  proof -
    have "filter (\<lambda>y. f k = f y) zs = [k]" if "k \<in> set zs" "distinct (map f zs)" for zs
      using that by (induction zs) (auto simp: filter_empty_conv image_iff)
    moreover have "distinct (map f (sort_key f ys))"
      using assms by (metis distinct_map mset_eq_imp_distinct_iff mset_map mset_sort)
    moreover have "k \<in> set xs" using that assms(1) by (metis set_mset_mset set_sort)
    ultimately show ?thesis using that assms(2) by simp
  qed
qed simp

section \<open>Properties\<close>


text \<open>Re-pinning is byte-stable. The canonical inputs are strictly sorted by name,
  name every input of the argument and no other, are entries of the argument,
  are left alone by a second pass, and do not depend on the order in which
  uniquely named inputs were discovered.\<close>

theorem CanonicalPinnedInputs_stable:
  "sorted_wrt (<) (map piName (CanonicalPinnedInputs xs))
   \<and> piName ` set (CanonicalPinnedInputs xs) = piName ` set xs
   \<and> set (CanonicalPinnedInputs xs) \<subseteq> set xs
   \<and> CanonicalPinnedInputs (CanonicalPinnedInputs xs) = CanonicalPinnedInputs xs
   \<and> (mset xs = mset ys \<and> distinct (map piName xs) \<longrightarrow> CanonicalPinnedInputs xs = CanonicalPinnedInputs ys)"
proof (intro conjI impI)
  let ?c = "CanonicalPinnedInputs xs"
  have e: "CanonicalPinnedInputs zs = dedupBy piName [] (sort_key piName zs)" for zs
    by (simp add: CanonicalPinnedInputs_def)
  have s: "sorted (map piName ?c)" unfolding e by (rule sorted_dedup_sort)
  have d: "distinct (map piName ?c)" unfolding e by (rule distinct_dedupBy)
  from s d show "sorted_wrt (<) (map piName ?c)" by (simp add: strict_sorted_iff)
  show "piName ` set ?c = piName ` set xs" unfolding e by (simp add: set_dedupBy)
  show "set ?c \<subseteq> set xs" unfolding e using dedupBy_subset [of piName "[]" "sort_key piName xs"] by simp
  have "sort_key piName ?c = ?c" using s by (rule sort_key_id_if_sorted)
  with d show "CanonicalPinnedInputs ?c = ?c"
    by (simp add: e [of ?c] dedupBy_distinct_id)
  assume a: "mset xs = mset ys \<and> distinct (map piName xs)"
  then show "CanonicalPinnedInputs xs = CanonicalPinnedInputs ys"
    unfolding e using inj_sort_key_unique by metis
qed

definition demoInputs :: "PinnedInput list" where
  "demoInputs = [\<lparr>piName = ''zlib'', piKind = ''import'', piDefinition = ''z''\<rparr>, \<lparr>piName = ''go'', piKind = ''build'', piDefinition = ''g''\<rparr>]"

theorem CanonicalPinnedInputs_stable_witness:
  "CanonicalPinnedInputs demoInputs = CanonicalPinnedInputs (rev demoInputs)
   \<and> map piName (CanonicalPinnedInputs demoInputs) = [''go'', ''zlib'']"
proof -
  have "map piName (CanonicalPinnedInputs demoInputs) = [''go'', ''zlib'']" by code_simp
  then show ?thesis
    using CanonicalPinnedInputs_stable [of demoInputs "rev demoInputs"] by (simp add: demoInputs_def)
qed

text \<open>C36: The cache ref grammar is unambiguous. A name parses as cache \<open>i\<close> on platform
  \<open>plat\<close> if and only if it is the name printed for them, the platform is
  non-empty and the id is a valid cache id.\<close>

theorem ParseCacheRefName_exact:
  "ParseCacheRefName name = Some (i, plat) \<longleftrightarrow> name = CacheRefName i plat \<and> plat \<noteq> [] \<and> ValidateCacheID i"
  by (rule ParseCacheRefName_iff)


definition demoCaches :: "PinnedCache list" where
  "demoCaches = [\<lparr>pcPath = ''/build/cache'', pcID = ''go-mod''\<rparr>, \<lparr>pcPath = ''/root/.cache'', pcID = ''x.1''\<rparr>]"


end
