(* ===== verification/Gate.thy ===== *)
theory Gate
  imports BuildDef
begin

text \<open>
  The publish gate (\<open>src/sched/gate.go\<close>): which ref names a runner's result may
  write for a node.  \<open>key.Parse\<close> and \<open>reference.ValidateName\<close> belong to the store
  and are the parameters \<open>keyParse\<close> and \<open>validName\<close>.  The specification is the
  allow table of the comment on \<open>gateAllowed\<close>, stated over structured names;
  the interface \<open>publish_gate\<close> is what the scheduler's commit relies on.
\<close>

datatype gateError =
    BadKeyValue string | BadName string | NotPermitted string | MalformedCache string
  | PlatformMismatch string | NotDeclared string | BadTreeHex string | NonCanonicalTree string
  | TreeValueMismatch string | TreeNotReported string

definition parseHexKey :: "(bytes \<Rightarrow> key option) \<Rightarrow> string \<Rightarrow> key option" where
  "parseHexKey keyParse h = (case DecodeString h of None \<Rightarrow> None | Some b \<Rightarrow> keyParse b)"

text \<open>The loop that collects the value reported for \<open>build-from:K\<close>: the last such
  entry wins and a value that is no key rejects the batch.\<close>

fun reportedFrom :: "(bytes \<Rightarrow> key option) \<Rightarrow> string \<Rightarrow> RefProposal list \<Rightarrow> string \<Rightarrow> gateError + string" where
  "reportedFrom keyParse K [] acc = Inr acc"
| "reportedFrom keyParse K (r # rs) acc =
     (if pName r \<noteq> ''build-from:'' @ K then reportedFrom keyParse K rs acc
      else (case keyParse (pKey r) of
              None \<Rightarrow> Inl (BadKeyValue (pName r))
            | Some fk \<Rightarrow> reportedFrom keyParse K rs (keyString fk)))"

definition checkRefName ::
  "(bytes \<Rightarrow> key option) \<Rightarrow> kind \<Rightarrow> string \<Rightarrow> string \<Rightarrow> string \<Rightarrow> string list \<Rightarrow> RefProposal \<Rightarrow> gateError option" where
  "checkRefName keyParse kd K reportedF platform declared r =
     (let name = pName r in
      if HasPrefix name ''build-cache:'' then
        (if kd \<noteq> KindBuildRun then Some (NotPermitted name)
         else (case ParseCacheRefName name of
                 None \<Rightarrow> Some (MalformedCache name)
               | Some (i, plat) \<Rightarrow>
                   if plat \<noteq> platform then Some (PlatformMismatch name)
                   else if i \<notin> set declared then Some (NotDeclared name) else None))
      else (case CutPrefix name ''build-from-tree:'' of
        Some hexPart \<Rightarrow>
          if kd \<in> {KindBuildFrom, KindPluginResolve, KindPin} then
            (case parseHexKey keyParse hexPart of
               None \<Rightarrow> Some (BadTreeHex name)
             | Some pk \<Rightarrow>
                 if hexPart \<noteq> keyString pk then Some (NonCanonicalTree name)
                 else if pKey r \<noteq> pk then Some (TreeValueMismatch name)
                 else if kd = KindBuildFrom \<and> hexPart \<noteq> reportedF then Some (TreeNotReported name)
                 else None)
          else Some (NotPermitted name)
      | None \<Rightarrow>
          (let ok = (case kd of
               KindImport \<Rightarrow> name = ''import-output:'' @ K
             | KindBuildFrom \<Rightarrow> name = ''build-from:'' @ K
             | KindPluginResolve \<Rightarrow> name = ''build-plugin-resolved:'' @ K
             | KindPin \<Rightarrow> name = ''build-pinned:'' @ K
             | KindBuildRun \<Rightarrow> name = ''build-output:'' @ K \<or> name = ''build-output-deps:'' @ K
             | KindBuildValue \<Rightarrow> False)
           in if \<not> ok then Some (NotPermitted name) else None)))"

fun checkEach ::
  "(bytes \<Rightarrow> key option) \<Rightarrow> (string \<Rightarrow> bool) \<Rightarrow> kind \<Rightarrow> string \<Rightarrow> string \<Rightarrow> string \<Rightarrow> string list \<Rightarrow> RefProposal list \<Rightarrow> gateError option" where
  "checkEach keyParse validName kd K reportedF platform declared [] = None"
| "checkEach keyParse validName kd K reportedF platform declared (r # rs) =
     (if \<not> validName (pName r) then Some (BadName (pName r))
      else (case checkRefName keyParse kd K reportedF platform declared r of
              Some err \<Rightarrow> Some err
            | None \<Rightarrow> checkEach keyParse validName kd K reportedF platform declared rs))"

definition gateAllowed ::
  "(bytes \<Rightarrow> key option) \<Rightarrow> (string \<Rightarrow> bool) \<Rightarrow> kind \<Rightarrow> key \<Rightarrow> string \<Rightarrow> RefProposal list \<Rightarrow> PinnedCache list \<Rightarrow> gateError option" where
  "gateAllowed keyParse validName kd nodeKey platform refs declared =
     (let K = keyString nodeKey in
      case (if kd = KindBuildFrom then reportedFrom keyParse K refs [] else Inr []) of
        Inl err \<Rightarrow> Some err
      | Inr reportedF \<Rightarrow> checkEach keyParse validName kd K reportedF platform (map pcID declared) refs)"

section \<open>The allow table\<close>

text \<open>The value of the last \<open>build-from:K\<close> entry of a batch.\<close>

definition reportedKey :: "key \<Rightarrow> RefProposal list \<Rightarrow> bytes option" where
  "reportedKey k refs =
     (case filter (\<lambda>r. pName r = ''build-from:'' @ keyString k) refs of [] \<Rightarrow> None | rs \<Rightarrow> Some (pKey (last rs)))"

definition ownRef :: "kind \<Rightarrow> key \<Rightarrow> string set" where
  "ownRef kd k = (case kd of
      KindImport \<Rightarrow> {''import-output:'' @ keyString k}
    | KindBuildFrom \<Rightarrow> {''build-from:'' @ keyString k}
    | KindPluginResolve \<Rightarrow> {''build-plugin-resolved:'' @ keyString k}
    | KindPin \<Rightarrow> {''build-pinned:'' @ keyString k}
    | KindBuildRun \<Rightarrow> {''build-output:'' @ keyString k, ''build-output-deps:'' @ keyString k}
    | KindBuildValue \<Rightarrow> {})"

definition allowTable ::
  "(bytes \<Rightarrow> key option) \<Rightarrow> kind \<Rightarrow> key \<Rightarrow> string \<Rightarrow> RefProposal list \<Rightarrow> PinnedCache list \<Rightarrow> RefProposal \<Rightarrow> bool" where
  "allowTable keyParse kd k platform refs declared r \<longleftrightarrow>
     pName r \<in> ownRef kd k
     \<or> (kd \<in> {KindBuildFrom, KindPluginResolve, KindPin}
         \<and> keyParse (pKey r) = Some (pKey r) \<and> pName r = ''build-from-tree:'' @ keyString (pKey r)
         \<and> (kd = KindBuildFrom \<longrightarrow> Option.bind (reportedKey k refs) keyParse = Some (pKey r)))
     \<or> (kd = KindBuildRun \<and> platform \<noteq> []
         \<and> (\<exists>c \<in> set declared. ValidateCacheID (pcID c) \<and> pName r = CacheRefName (pcID c) platform))"

section \<open>Lemmas\<close>

lemma HasPrefix_lit:
  "HasPrefix (x # s) (y # p) \<longleftrightarrow> x = y \<and> HasPrefix s p" "HasPrefix s []" "\<not> HasPrefix [] (y # p)"
  by (auto simp: HasPrefix_def)

lemma CutPrefix_lit:
  "CutPrefix (x # s) (y # p) = (if x = y then CutPrefix s p else None)" "CutPrefix s [] = Some s"
  "CutPrefix [] (y # p) = None"
  by (auto simp: CutPrefix_def HasPrefix_lit)

lemma reportedFrom_spec:
  "reportedFrom keyParse K rs acc =
     (let ms = filter (\<lambda>r. pName r = ''build-from:'' @ K) rs in
      case find (\<lambda>r. keyParse (pKey r) = None) ms of
        Some r \<Rightarrow> Inl (BadKeyValue (pName r))
      | None \<Rightarrow> Inr (if ms = [] then acc else keyString (the (keyParse (pKey (last ms))))))"
  by (induction keyParse K rs acc rule: reportedFrom.induct) (auto simp: Let_def split: option.splits)

lemma checkEach_iff:
  "checkEach keyParse validName kd K rF platform declared rs = None \<longleftrightarrow>
     (\<forall>r \<in> set rs. validName (pName r) \<and> checkRefName keyParse kd K rF platform declared r = None)"
  by (induction rs) (auto split: option.splits)

lemma parseHexKey_canonical:
  "(\<exists>pk. parseHexKey keyParse h = Some pk \<and> h = keyString pk \<and> v = pk) \<longleftrightarrow> keyParse v = Some v \<and> h = keyString v"
  by (auto simp: parseHexKey_def keyString_def split: option.splits)

text \<open>The prefix tests select the three disjoint name shapes.\<close>

lemma checkRefName_cache:
  assumes "HasPrefix (pName r) ''build-cache:''"
  shows "checkRefName keyParse kd K rF platform declared r = None \<longleftrightarrow>
    kd = KindBuildRun \<and> platform \<noteq> [] \<and> (\<exists>i \<in> set declared. ValidateCacheID i \<and> pName r = CacheRefName i platform)"
proof (cases "ParseCacheRefName (pName r)")
  case None
  then have "\<not> (pName r = CacheRefName i plat \<and> plat \<noteq> [] \<and> ValidateCacheID i)" for i plat
    using ParseCacheRefName_iff [of "pName r" i plat] by auto
  with None assms show ?thesis by (auto simp: checkRefName_def Let_def split: if_splits)
next
  case (Some ip)
  then obtain i plat where ip: "ParseCacheRefName (pName r) = Some (i, plat)" by (cases ip) auto
  have u: "pName r = CacheRefName j platform \<and> platform \<noteq> [] \<and> ValidateCacheID j \<longleftrightarrow> j = i \<and> platform = plat" for j
    using ParseCacheRefName_iff [of "pName r" j platform] ip by auto
  have l: "checkRefName keyParse kd K rF platform declared r = None \<longleftrightarrow>
      kd = KindBuildRun \<and> plat = platform \<and> i \<in> set declared"
    using assms ip by (simp add: checkRefName_def Let_def)
  show ?thesis
  proof
    assume "checkRefName keyParse kd K rF platform declared r = None"
    then have "kd = KindBuildRun" "plat = platform" "i \<in> set declared" unfolding l by simp_all
    with u [of i] show "kd = KindBuildRun \<and> platform \<noteq> [] \<and> (\<exists>i \<in> set declared. ValidateCacheID i \<and> pName r = CacheRefName i platform)"
      by auto
  next
    assume a: "kd = KindBuildRun \<and> platform \<noteq> [] \<and> (\<exists>i \<in> set declared. ValidateCacheID i \<and> pName r = CacheRefName i platform)"
    then obtain j where "j \<in> set declared" "ValidateCacheID j" "pName r = CacheRefName j platform" by blast
    with u [of j] a have "j = i" "platform = plat" by auto
    with a \<open>j \<in> set declared\<close> show "checkRefName keyParse kd K rF platform declared r = None" unfolding l by simp
  qed
qed

lemma checkRefName_tree:
  assumes "pName r = ''build-from-tree:'' @ h"
  shows "checkRefName keyParse kd K rF platform declared r = None \<longleftrightarrow>
    kd \<in> {KindBuildFrom, KindPluginResolve, KindPin} \<and> keyParse (pKey r) = Some (pKey r) \<and> h = keyString (pKey r)
    \<and> (kd = KindBuildFrom \<longrightarrow> h = rF)"
proof -
  have c: "CutPrefix (pName r) ''build-from-tree:'' = Some h" "\<not> HasPrefix (pName r) ''build-cache:''"
    by (simp_all add: assms CutPrefix_lit HasPrefix_lit)
  have "checkRefName keyParse kd K rF platform declared r = None \<longleftrightarrow>
     kd \<in> {KindBuildFrom, KindPluginResolve, KindPin}
     \<and> (\<exists>pk. parseHexKey keyParse h = Some pk \<and> h = keyString pk \<and> pKey r = pk) \<and> (kd = KindBuildFrom \<longrightarrow> h = rF)"
    using c by (auto simp: checkRefName_def Let_def split: option.splits if_splits)
  then show ?thesis unfolding parseHexKey_canonical by blast
qed

lemma checkRefName_own:
  assumes "\<not> HasPrefix (pName r) ''build-cache:''" "CutPrefix (pName r) ''build-from-tree:'' = None"
  shows "checkRefName keyParse kd (keyString k) rF platform declared r = None \<longleftrightarrow> pName r \<in> ownRef kd k"
  using assms by (auto simp: checkRefName_def ownRef_def Let_def split: kind.splits)

lemma ownRef_shape:
  assumes "n \<in> ownRef kd k"
  shows "\<not> HasPrefix n ''build-cache:''" "CutPrefix n ''build-from-tree:'' = None"
  using assms by (auto simp: ownRef_def HasPrefix_lit CutPrefix_lit split: kind.splits)

lemma CacheRefName_shape: "HasPrefix (CacheRefName i p) ''build-cache:''"
  by (simp add: CacheRefName_def HasPrefix_lit)

lemma name_shape [case_names cache tree own]:
  assumes "HasPrefix n ''build-cache:'' \<Longrightarrow> P"
    and "\<And>h. n = ''build-from-tree:'' @ h \<Longrightarrow> P"
    and "\<not> HasPrefix n ''build-cache:'' \<Longrightarrow> CutPrefix n ''build-from-tree:'' = None \<Longrightarrow> P"
  shows P
proof (cases "CutPrefix n ''build-from-tree:''")
  case None
  with assms(1,3) show ?thesis by blast
next
  case (Some h)
  then show ?thesis by (rule assms(2) [OF CutPrefix_Some_iff [THEN iffD1]])
qed

lemma reported_hex:
  assumes "keyParse [] = None" "kd = KindBuildFrom"
    and "reportedFrom keyParse (keyString k) refs [] = Inr rF" and "keyParse v = Some v"
  shows "keyString v = rF \<longleftrightarrow> Option.bind (reportedKey k refs) keyParse = Some v"
proof -
  let ?ms = "filter (\<lambda>r. pName r = ''build-from:'' @ keyString k) refs"
  have v: "keyString v \<noteq> []" using assms(1,4) by (auto simp: keyString_def)
  show ?thesis
  proof (cases "?ms = []")
    case True
    with assms(3) v show ?thesis by (simp add: reportedFrom_spec reportedKey_def)
  next
    case False
    with assms(3) have "rF = keyString (the (keyParse (pKey (last ?ms))))" "\<forall>r \<in> set ?ms. keyParse (pKey r) \<noteq> None"
      by (auto simp: reportedFrom_spec Let_def find_None_iff split: option.splits)
    moreover from this False have "keyParse (pKey (last ?ms)) \<noteq> None" by (meson last_in_set)
    moreover have "reportedKey k refs = Some (pKey (last ?ms))"
      using False by (auto simp: reportedKey_def split: list.splits)
    ultimately show ?thesis by (auto simp: keyString_def)
  qed
qed

lemma checkRefName_table:
  assumes "keyParse [] = None"
    and "kd = KindBuildFrom \<Longrightarrow> reportedFrom keyParse (keyString k) refs [] = Inr rF"
  shows "checkRefName keyParse kd (keyString k) rF platform (map pcID declared) r = None
    \<longleftrightarrow> allowTable keyParse kd k platform refs declared r"
proof -
  show ?thesis
  proof (cases "pName r" rule: name_shape)
    case cache
    then have "pName r \<notin> ownRef kd k" "pName r \<noteq> ''build-from-tree:'' @ x" for x
      by (auto dest: ownRef_shape simp: HasPrefix_lit)
    then show ?thesis unfolding checkRefName_cache [OF cache] allowTable_def by auto
  next
    case (tree h)
    have "CutPrefix (pName r) ''build-from-tree:'' = Some h" by (simp only: tree CutPrefix_append)
    then have "pName r \<notin> ownRef kd k" using ownRef_shape(2) [of "pName r" kd k] by auto
    moreover have "pName r \<noteq> CacheRefName i p" for i p by (simp add: tree CacheRefName_def)
    moreover have "keyParse (pKey r) = Some (pKey r) \<Longrightarrow> kd = KindBuildFrom \<Longrightarrow>
        keyString (pKey r) = rF \<longleftrightarrow> Option.bind (reportedKey k refs) keyParse = Some (pKey r)"
      using reported_hex [of keyParse kd k refs rF "pKey r"] assms by blast
    ultimately show ?thesis unfolding checkRefName_tree [OF tree] allowTable_def using tree by auto
  next
    case own
    have "pName r \<noteq> CacheRefName i p" for i p using own(1) CacheRefName_shape [of i p] by auto
    moreover have "pName r \<noteq> ''build-from-tree:'' @ x" for x
      using own(2) CutPrefix_append [of "''build-from-tree:''" x] by (metis option.distinct(1))
    ultimately show ?thesis unfolding checkRefName_own [OF own] allowTable_def by auto
  qed
qed

lemma gateAllowed_table:
  assumes "keyParse [] = None"
  shows "gateAllowed keyParse validName kd k platform refs declared = None \<longleftrightarrow>
    (\<forall>r \<in> set refs. validName (pName r) \<and> allowTable keyParse kd k platform refs declared r)
    \<and> (kd = KindBuildFrom \<longrightarrow> (\<forall>r \<in> set refs. pName r = ''build-from:'' @ keyString k \<longrightarrow> keyParse (pKey r) \<noteq> None))"
proof (cases "kd = KindBuildFrom")
  case False
  then show ?thesis
    using assms checkRefName_table [of keyParse kd k refs "[]" platform declared]
    by (simp add: gateAllowed_def checkEach_iff)
next
  case True
  show ?thesis
  proof (cases "reportedFrom keyParse (keyString k) refs []")
    case (Inl err)
    then have "\<exists>r \<in> set refs. pName r = ''build-from:'' @ keyString k \<and> keyParse (pKey r) = None"
      by (auto simp: reportedFrom_spec Let_def split: option.splits dest!: find_Some_D)
    with Inl True show ?thesis by (auto simp: gateAllowed_def)
  next
    case (Inr rF)
    then have "\<forall>r \<in> set refs. pName r = ''build-from:'' @ keyString k \<longrightarrow> keyParse (pKey r) \<noteq> None"
      by (auto simp: reportedFrom_spec Let_def find_None_iff split: option.splits)
    with True Inr show ?thesis
      using assms checkRefName_table [of keyParse kd k refs rF platform declared]
      by (simp add: gateAllowed_def checkEach_iff)
  qed
qed

section \<open>The gate as an interface\<close>

text \<open>
  What the scheduler's commit needs of a gate: \<open>accepts kd k platform refs declared\<close>
  holds only for batches of names the node owns or names that carry their
  own value, and a pure orchestrator node may write nothing.
\<close>

locale publish_gate =
  fixes accepts :: "kind \<Rightarrow> key \<Rightarrow> string \<Rightarrow> RefProposal list \<Rightarrow> PinnedCache list \<Rightarrow> bool"
  assumes accepted_names: "accepts kd k platform refs declared \<Longrightarrow> r \<in> set refs \<Longrightarrow>
      pName r \<in> ownRef kd k
      \<or> kd \<in> {KindBuildFrom, KindPluginResolve, KindPin} \<and> pName r = ''build-from-tree:'' @ keyString (pKey r)
      \<or> kd = KindBuildRun \<and> (\<exists>c \<in> set declared. pName r = CacheRefName (pcID c) platform)"
begin

text \<open>The output ref of a build is written only by the buildrun of its own key.\<close>

lemma output_only_by_owner:
  assumes "accepts kd k platform refs declared" "r \<in> set refs" "pName r = ''build-output:'' @ x"
  shows "kd = KindBuildRun \<and> x = keyString k"
  using accepted_names [OF assms(1,2)] assms(3)
  by (auto simp: ownRef_def CacheRefName_def split: kind.splits)

lemma buildvalue_writes_nothing: "accepts KindBuildValue k platform refs declared \<Longrightarrow> refs = []"
  using accepted_names [of KindBuildValue k platform refs declared] by (cases refs) (auto simp: ownRef_def)

text \<open>No accepted name belongs to a family runners never write.\<close>

lemma protected_families:
  assumes "accepts kd k platform refs declared" "r \<in> set refs"
    and "fam \<in> {''import:'', ''build:'', ''fetcher:'', ''shell:'', ''f-tree/'', ''runner-push/'', ''client-push/''}"
  shows "\<not> HasPrefix (pName r) fam"
  using accepted_names [OF assms(1,2)] assms(3)
  by (auto simp: ownRef_def CacheRefName_def HasPrefix_lit split: kind.splits)

end

definition gateAccepts ::
  "(bytes \<Rightarrow> key option) \<Rightarrow> (string \<Rightarrow> bool) \<Rightarrow> kind \<Rightarrow> key \<Rightarrow> string \<Rightarrow> RefProposal list \<Rightarrow> PinnedCache list \<Rightarrow> bool" where
  "gateAccepts keyParse validName kd k platform refs declared \<longleftrightarrow>
     gateAllowed keyParse validName kd k platform refs declared = None"

lemma checkRefName_names:
  assumes "checkRefName keyParse kd (keyString k) rF platform (map pcID declared) r = None"
  shows "pName r \<in> ownRef kd k
      \<or> kd \<in> {KindBuildFrom, KindPluginResolve, KindPin} \<and> pName r = ''build-from-tree:'' @ keyString (pKey r)
      \<or> kd = KindBuildRun \<and> (\<exists>c \<in> set declared. pName r = CacheRefName (pcID c) platform)"
proof -
  show ?thesis
  proof (cases "pName r" rule: name_shape)
    case cache
    from assms show ?thesis unfolding checkRefName_cache [OF cache] by auto
  next
    case (tree h)
    from assms show ?thesis unfolding checkRefName_tree [OF tree] using tree by auto
  next
    case own
    from assms show ?thesis unfolding checkRefName_own [OF own] by blast
  qed
qed

interpretation gate: publish_gate "gateAccepts keyParse validName" for keyParse validName
proof (unfold_locales, goal_cases)
  case (1 kd k platform refs declared r)
  then obtain rF where "checkRefName keyParse kd (keyString k) rF platform (map pcID declared) r = None"
    by (auto simp: gateAccepts_def gateAllowed_def Let_def checkEach_iff split: sum.splits)
  then show ?case by (rule checkRefName_names)
qed

section \<open>Properties\<close>

text \<open>C20: The gate is exactly the documented allow table. A batch is accepted if and only
  if every name is a valid ref name and is either the node's own result
  name, or for buildfrom, pluginresolve and pin a \<open>build-from-tree\<close> ref whose
  name is the canonical hexadecimal of the very key it points to (for buildfrom
  also the key reported for \<open>build-from:K\<close> in the same batch), or for buildrun a
  cache ref declared by the build for its placement platform; and every value
  reported for \<open>build-from:K\<close> is a key. The empty string is no key.\<close>

theorem gate_is_allow_table:
  assumes "keyParse [] = None"
  shows "gateAllowed keyParse validName kd k platform refs declared = None \<longleftrightarrow>
    (\<forall>r \<in> set refs. validName (pName r) \<and> allowTable keyParse kd k platform refs declared r)
    \<and> (kd = KindBuildFrom \<longrightarrow> (\<forall>r \<in> set refs. pName r = ''build-from:'' @ keyString k \<longrightarrow> keyParse (pKey r) \<noteq> None))"
  using assms by (rule gateAllowed_table)

definition demoKeyParse :: "bytes \<Rightarrow> key option" where
  "demoKeyParse b = (if length b = 2 then Some b else None)"

definition demoBatch :: "RefProposal list" where
  "demoBatch = [\<lparr>pName = ''build-from:6161'', pKey = ''ff'', pLabel = []\<rparr>,
                \<lparr>pName = ''build-from-tree:6666'', pKey = ''ff'', pLabel = []\<rparr>]"

text \<open>A buildfrom batch of key \<open>aa\<close> that reports the tree \<open>ff\<close>; the same tree ref alone is refused.\<close>

theorem gate_is_allow_table_witness:
  "list_all (allowTable demoKeyParse KindBuildFrom ''aa'' ''linux/arm64'' demoBatch []) demoBatch
   \<and> \<not> allowTable demoKeyParse KindBuildFrom ''aa'' ''linux/arm64'' (tl demoBatch) [] (demoBatch ! 1)"
proof -
  have k: "demoKeyParse [] = None" by (simp add: demoKeyParse_def)
  have a: "gateAllowed demoKeyParse (\<lambda>_. True) KindBuildFrom ''aa'' ''linux/arm64'' demoBatch [] = None"
    by code_simp
  have b: "gateAllowed demoKeyParse (\<lambda>_. True) KindBuildFrom ''aa'' ''linux/arm64'' (tl demoBatch) [] \<noteq> None"
    by code_simp
  have "\<forall>r \<in> set (tl demoBatch). r = demoBatch ! 1 \<and> pName r \<noteq> ''build-from:'' @ keyString ''aa''"
    by (simp add: demoBatch_def)
  with gate_is_allow_table [of demoKeyParse "\<lambda>_. True" KindBuildFrom "''aa''" "''linux/arm64''" demoBatch "[]"] a
    gate_is_allow_table [of demoKeyParse "\<lambda>_. True" KindBuildFrom "''aa''" "''linux/arm64''" "tl demoBatch" "[]"] b k
  show ?thesis by (auto simp: list_all_iff)
qed

end
