(* ===== verification/LogFold.thy ===== *)
theory LogFold
  imports Wire "HOL-Library.AList"
begin

text \<open>
  Bounded captures of output: the head-and-tail log buffer of the scheduler
  (\<open>src/sched/logfold.go\<close>), the trimming of its snapshots for durable records
  and replies (\<open>src/sched/failures.go\<close>, \<open>src/sched/diagnose.go\<close>), the tail buffer
  (\<open>src/tailbuf\<close>) and the chunking output writer (\<open>src/events/outputwriter.go\<close>).

  Times are nanoseconds with 0 for Go's zero \<open>time.Time\<close>, which precedes every
  other time.  Lengths and caps are natural numbers; the gap counter is an \<^typ>\<open>int\<close>.
\<close>

section \<open>The log buffer\<close>

record logBuffer =
  headCap :: nat
  tailCap :: nat
  lbHead :: bytes
  lbTail :: bytes
  lbGap :: int
  lbSeen :: "string set"

definition newLogBuffer :: "nat \<Rightarrow> nat \<Rightarrow> logBuffer" where
  "newLogBuffer hc tc = \<lparr>headCap = hc, tailCap = tc, lbHead = [], lbTail = [], lbGap = 0, lbSeen = {}\<rparr>"

definition dedupKey :: "string \<Rightarrow> 64 word \<Rightarrow> string" where
  "dedupKey stream seq = stream @ '':'' @ FormatNat (unat seq)"

definition logWrite :: "string \<Rightarrow> 64 word \<Rightarrow> bytes \<Rightarrow> logBuffer \<Rightarrow> logBuffer" where
  "logWrite stream seq chunk b =
     (let dedup = dedupKey stream seq in
      if dedup \<in> lbSeen b then b
      else
        (let b1 = b\<lparr>lbSeen := insert dedup (lbSeen b)\<rparr>;
             (b2, chunk2, stop) =
               (if length (lbHead b1) < headCap b1 then
                  (let n = min (headCap b1 - length (lbHead b1)) (length chunk) in
                   (b1\<lparr>lbHead := lbHead b1 @ take n chunk\<rparr>, drop n chunk, drop n chunk = []))
                else (b1, chunk, False))
         in if stop then b2
            else
              (let t = lbTail b2 @ chunk2; over = length t - tailCap b2 in
               if over > 0 then b2\<lparr>lbGap := lbGap b2 + int over, lbTail := drop over t\<rparr>
               else b2\<lparr>lbTail := t\<rparr>)))"

section \<open>The fold of all nodes' logs\<close>

record nodeLog =
  nlGen :: "64 word"
  nlBuf :: logBuffer
  nlUpdated :: int

type_synonym logTable = "(string \<times> nodeLog) list"

definition maxLogNodes :: nat where "maxLogNodes = 512"
definition logHeadCap :: nat where "logHeadCap = 2 ^ 20"
definition logTailCap :: nat where "logTailCap = 3 * 2 ^ 20"

fun oldestLog :: "logTable \<Rightarrow> (string \<times> int) option \<Rightarrow> string option" where
  "oldestLog [] best = map_option fst best"
| "oldestLog ((name, lb) # ls) best =
     oldestLog ls (case best of
        None \<Rightarrow> Some (name, nlUpdated lb)
      | Some (bn, bt) \<Rightarrow> if nlUpdated lb < bt then Some (name, nlUpdated lb) else best)"

lemma oldestLog_mem:
  "oldestLog ls best = Some name \<Longrightarrow> name \<in> fst ` set ls \<or> (\<exists>t. best = Some (name, t))"
  by (induction ls best rule: oldestLog.induct) (auto split: option.splits if_splits)

function evictLogs :: "nat \<Rightarrow> logTable \<Rightarrow> logTable" where
  "evictLogs cap ls =
     (if length ls \<le> cap then ls
      else (case oldestLog ls None of
              None \<Rightarrow> ls
            | Some name \<Rightarrow> evictLogs cap (AList.delete name ls)))"
  by pat_completeness auto
termination
proof (relation "measure (\<lambda>(cap, ls). length ls)", goal_cases)
  case (2 cap ls name)
  then obtain lb where "(name, lb) \<in> set ls" using oldestLog_mem by fastforce
  then have "length (filter (\<lambda>(k, v). name \<noteq> k) ls) < length ls"
    by (intro length_filter_less [of "(name, lb)"]) auto
  then show ?case by (simp add: AList.delete_eq)
qed simp

declare evictLogs.simps [simp del]

text \<open>The capture part of \<open>onLogChunk\<close>: a later attempt resets the buffer, an earlier
  one is ignored.  The buffer written to is the one looked up or created, also
  when the eviction has just removed it from the table.\<close>

definition foldChunk :: "string \<Rightarrow> LogChunk \<Rightarrow> int \<Rightarrow> logTable \<Rightarrow> logTable" where
  "foldChunk name chunk now ls =
     (let (lb, ls1) =
        (case map_of ls name of
           Some lb \<Rightarrow>
             if cGen chunk > nlGen lb then
               (let lb' = \<lparr>nlGen = cGen chunk, nlBuf = newLogBuffer logHeadCap logTailCap, nlUpdated = 0\<rparr>
                in (lb', evictLogs maxLogNodes (AList.update name lb' ls)))
             else (lb, ls)
         | None \<Rightarrow>
             (let lb' = \<lparr>nlGen = cGen chunk, nlBuf = newLogBuffer logHeadCap logTailCap, nlUpdated = 0\<rparr>
              in (lb', evictLogs maxLogNodes (AList.update name lb' ls))))
      in if cGen chunk = nlGen lb \<and> map_of ls1 name \<noteq> None then
           AList.update name (lb\<lparr>nlBuf := logWrite (cStream chunk) (cSeq chunk) (cData chunk) (nlBuf lb), nlUpdated := now\<rparr>) ls1
         else ls1)"

section \<open>Trimmed snapshots\<close>

definition trimLogSnapshot :: "logBuffer \<Rightarrow> nat \<Rightarrow> nat \<Rightarrow> bytes \<times> int \<times> bytes" where
  "trimLogSnapshot buf hc tc =
     (let (h, g) = (if length (lbHead buf) > hc
                    then (take hc (lbHead buf), lbGap buf + int (length (lbHead buf) - hc))
                    else (lbHead buf, lbGap buf));
          (t, g') = (if length (lbTail buf) > tc
                     then (drop (length (lbTail buf) - tc) (lbTail buf), g + int (length (lbTail buf) - tc))
                     else (lbTail buf, g))
      in (h, g', t))"

definition failureLogHeadCap :: nat where "failureLogHeadCap = 256 * 2 ^ 10"
definition failureLogTailCap :: nat where "failureLogTailCap = 512 * 2 ^ 10"

definition trimAttempt :: "FailureRecord \<Rightarrow> int \<Rightarrow> FailureRecord \<times> bool" where
  "trimAttempt rec maxLogBytes =
     (if maxLogBytes \<le> 0 \<or> int (length (fLogHead rec)) + int (length (fLogTail rec)) \<le> maxLogBytes then (rec, False)
      else
        (let m = nat maxLogBytes;
             (t, g) = (if length (fLogTail rec) > m
                       then (drop (length (fLogTail rec) - m) (fLogTail rec), fLogGap rec + int (length (fLogTail rec) - m))
                       else (fLogTail rec, fLogGap rec));
             budget = m - length t;
             (h, g') = (if length (fLogHead rec) > budget
                        then (take budget (fLogHead rec), g + int (length (fLogHead rec) - budget))
                        else (fLogHead rec, g))
         in (rec\<lparr>fLogHead := h, fLogGap := g', fLogTail := t\<rparr>, True)))"

section \<open>The tail buffer\<close>

record tailbuf =
  tbBuf :: bytes
  tbMax :: nat

definition tailWrite :: "bytes \<Rightarrow> tailbuf \<Rightarrow> tailbuf" where
  "tailWrite p b =
     (let b' = b\<lparr>tbBuf := tbBuf b @ p\<rparr> in
      if length (tbBuf b') > tbMax b' then b'\<lparr>tbBuf := drop (length (tbBuf b') - tbMax b') (tbBuf b')\<rparr> else b')"

section \<open>The output writer\<close>

datatype outEvent = ExecOutput bytes nat | ExecTruncated nat nat

record outputWriter =
  owCap :: nat
  owBuf :: bytes
  owOffset :: nat
  owWritten :: nat
  owTruncated :: bool
  owClosed :: bool
  owTimer :: bool
  owEmitted :: "outEvent list"

definition outputChunkMax :: nat where "outputChunkMax = 32 * 2 ^ 10"
definition outputFlushBytes :: nat where "outputFlushBytes = 64 * 2 ^ 10"

definition newOutputWriter :: "nat \<Rightarrow> outputWriter" where
  "newOutputWriter cap = \<lparr>owCap = cap, owBuf = [], owOffset = 0, owWritten = 0, owTruncated = False,
     owClosed = False, owTimer = False, owEmitted = []\<rparr>"

function flushLoop :: "bytes \<Rightarrow> nat \<Rightarrow> outEvent list \<Rightarrow> outEvent list \<times> nat" where
  "flushLoop buf off evs =
     (if buf = [] then (evs, off)
      else (let n = min (length buf) outputChunkMax
            in flushLoop (drop n buf) (off + n) (evs @ [ExecOutput (take n buf) off])))"
  by pat_completeness auto
termination
  by (relation "measure (\<lambda>(buf, off, evs). length buf)") (auto simp: outputChunkMax_def)

declare flushLoop.simps [simp del]

definition owFlush :: "outputWriter \<Rightarrow> outputWriter" where
  "owFlush w = (let (evs, off) = flushLoop (owBuf w) (owOffset w) (owEmitted w)
                in w\<lparr>owEmitted := evs, owOffset := off, owBuf := []\<rparr>)"

definition owWrite :: "bytes \<Rightarrow> outputWriter \<Rightarrow> outputWriter" where
  "owWrite p w0 =
     (let w = w0\<lparr>owWritten := owWritten w0 + length p\<rparr> in
      if owTruncated w \<or> owClosed w then w
      else
        (let room = owCap w - owOffset w - length (owBuf w) in
         if length p \<ge> room then
           (let w1 = owFlush (w\<lparr>owBuf := owBuf w @ take room p\<rparr>)
            in w1\<lparr>owTruncated := True, owTimer := False,
                   owEmitted := owEmitted w1 @ [ExecTruncated (owCap w1) (owWritten w1)]\<rparr>)
         else
           (let w1 = w\<lparr>owBuf := owBuf w @ p\<rparr> in
            if length (owBuf w1) \<ge> outputFlushBytes then (owFlush w1)\<lparr>owTimer := False\<rparr>
            else w1\<lparr>owTimer := True\<rparr>)))"

definition owTimedFlush :: "outputWriter \<Rightarrow> outputWriter" where
  "owTimedFlush w0 = (let w = w0\<lparr>owTimer := False\<rparr> in if \<not> owClosed w \<and> \<not> owTruncated w then owFlush w else w)"

definition owClose :: "outputWriter \<Rightarrow> outputWriter" where
  "owClose w0 =
     (if owClosed w0 then w0
      else (let w = w0\<lparr>owClosed := True, owTimer := False\<rparr> in if \<not> owTruncated w then owFlush w else w))"

section \<open>Lemmas: the log buffer\<close>

lemma dedupKey_inj [simp]: "dedupKey a m = dedupKey b n \<longleftrightarrow> a = b \<and> m = n"
  using digits_suffix_unique_sep [of "CHR '':''" a "unat m" b "unat n"]
  by (auto simp: dedupKey_def isDigit_def simp flip: word_unat_eq_iff)

text \<open>The buffer that holds the stream \<open>D\<close>: the first \<open>headCap\<close> bytes, the last \<open>tailCap\<close>
  bytes of the rest, and the number of bytes between.\<close>

definition holds :: "nat \<Rightarrow> nat \<Rightarrow> bytes \<Rightarrow> logBuffer \<Rightarrow> bool" where
  "holds hc tc D b \<longleftrightarrow>
     headCap b = hc \<and> tailCap b = tc \<and> lbHead b = take hc D
     \<and> lbTail b = drop (length (drop hc D) - tc) (drop hc D) \<and> lbGap b = int (length (drop hc D) - tc)"

lemma drop_last_append:
  "drop (length (drop (length R - t) R @ c) - t) (drop (length R - t) R @ c) = drop (length (R @ c) - t) (R @ c)"
  "int (length R - t) + int (length (drop (length R - t) R @ c) - t) = int (length (R @ c) - t)"
  by (cases "length R \<le> t"; simp add: drop_append add.commute)+

lemma holds_write:
  assumes "holds hc tc D b" "dedupKey st sq \<notin> lbSeen b"
  shows "holds hc tc (D @ c) (logWrite st sq c b) \<and> lbSeen (logWrite st sq c b) = insert (dedupKey st sq) (lbSeen b)"
proof (cases "length D < hc")
  case True
  with assms have b: "lbHead b = D" "lbTail b = []" "lbGap b = 0" "headCap b = hc" "tailCap b = tc"
    by (simp_all add: holds_def)
  have n: "drop (min (hc - length D) (length c)) c = drop hc (D @ c)" "D @ take (min (hc - length D) (length c)) c = take hc (D @ c)"
    using True by (simp_all add: min_def)
  show ?thesis
    using True assms(2) b by (auto simp: logWrite_def Let_def holds_def n)
next
  case False
  with assms have b: "lbHead b = take hc D" "length (take hc D) = hc" "headCap b = hc" "tailCap b = tc"
    "lbTail b = drop (length (drop hc D) - tc) (drop hc D)" "lbGap b = int (length (drop hc D) - tc)"
    by (simp_all add: holds_def)
  have d: "drop hc (D @ c) = drop hc D @ c" "take hc (D @ c) = take hc D" using False by simp_all
  show ?thesis
    using assms(2) b drop_last_append [of "drop hc D" tc c]
    by (auto simp: logWrite_def Let_def holds_def d not_less)
qed

lemma holds_dup: "dedupKey st sq \<in> lbSeen b \<Longrightarrow> logWrite st sq c b = b"
  by (simp add: logWrite_def Let_def)

lemma fold_logWrite:
  assumes "holds hc tc D b" "lbSeen b = (\<lambda>(st, sq). dedupKey st sq) ` set seen"
  shows "holds hc tc (D @ concat (map (snd \<circ> snd) (dedupBy (\<lambda>(st, sq, c). (st, sq)) seen ws)))
    (fold (\<lambda>(st, sq, c). logWrite st sq c) ws b)"
  using assms
proof (induction ws arbitrary: D b seen)
  case (Cons w ws)
  obtain st sq c where w: "w = (st, sq, c)" by (cases w) auto
  show ?case
  proof (cases "(st, sq) \<in> set seen")
    case True
    with Cons.prems have "dedupKey st sq \<in> lbSeen b" by auto
    with True Cons show ?thesis by (simp add: w holds_dup)
  next
    case False
    with Cons.prems have f: "dedupKey st sq \<notin> lbSeen b" by auto
    from holds_write [OF Cons.prems(1) f, of c] Cons.prems(2)
    have "holds hc tc (D @ c) (logWrite st sq c b)"
      "lbSeen (logWrite st sq c b) = (\<lambda>(st, sq). dedupKey st sq) ` set ((st, sq) # seen)" by auto
    from Cons.IH [OF this] False show ?thesis by (simp add: w)
  qed
qed simp

section \<open>Lemmas: excerpts\<close>

text \<open>A head, a count and a tail that account for every byte of \<open>D\<close>.\<close>

definition excerpt :: "bytes \<Rightarrow> bytes \<Rightarrow> int \<Rightarrow> bytes \<Rightarrow> bool" where
  "excerpt D h g t \<longleftrightarrow> prefix h D \<and> suffix t D \<and> 0 \<le> g \<and> int (length h) + g + int (length t) = int (length D)"

lemma holds_excerpt: "holds hc tc D b \<Longrightarrow> excerpt D (lbHead b) (lbGap b) (lbTail b)"
  by (auto simp: holds_def excerpt_def take_is_prefix intro: suffix_drop)

lemma excerpt_cut_head:
  "excerpt D h g t \<Longrightarrow> excerpt D (take n h) (g + int (length h - n)) t"
  by (auto simp: excerpt_def min_def intro: prefix_order.trans [OF take_is_prefix])

lemma excerpt_cut_tail:
  "excerpt D h g t \<Longrightarrow> excerpt D h (g + int n) (drop n t)" if "n \<le> length t"
  using that by (auto simp: excerpt_def intro: suffix_order.trans [OF suffix_drop])

lemma trimLogSnapshot_excerpt:
  assumes "excerpt D (lbHead b) (lbGap b) (lbTail b)" "trimLogSnapshot b hc tc = (h, g, t)"
  shows "excerpt D h g t" "length h \<le> hc" "length t \<le> tc"
proof -
  let ?nt = "length (lbTail b) - tc"
  have t: "t = drop ?nt (lbTail b)" and h: "h = take hc (lbHead b)"
    and g: "g = lbGap b + int (length (lbHead b) - hc) + int ?nt"
    using assms(2) by (auto simp: trimLogSnapshot_def Let_def split: if_splits)
  show "excerpt D h g t"
    unfolding t h g by (intro excerpt_cut_tail excerpt_cut_head assms(1)) simp
  show "length h \<le> hc" "length t \<le> tc" by (simp_all add: h t)
qed

lemma trimAttempt_excerpt:
  assumes "excerpt D (fLogHead rec) (fLogGap rec) (fLogTail rec)" "trimAttempt rec m = (rec', trunc)"
  shows "excerpt D (fLogHead rec') (fLogGap rec') (fLogTail rec')
    \<and> (m > 0 \<longrightarrow> int (length (fLogHead rec')) + int (length (fLogTail rec')) \<le> m)
    \<and> (\<not> trunc \<longrightarrow> rec' = rec) \<and> (trunc \<longrightarrow> suffix (fLogTail rec') (fLogTail rec) \<and> (fLogHead rec' \<noteq> [] \<longrightarrow> fLogTail rec' = fLogTail rec))"
proof (cases "m \<le> 0 \<or> int (length (fLogHead rec)) + int (length (fLogTail rec)) \<le> m")
  case True
  with assms show ?thesis by (auto simp: trimAttempt_def)
next
  case False
  let ?nt = "length (fLogTail rec) - nat m"
  let ?t = "drop ?nt (fLogTail rec)"
  let ?b = "nat m - length ?t"
  have r: "fLogTail rec' = ?t" "fLogHead rec' = take ?b (fLogHead rec)" "trunc"
    "fLogGap rec' = fLogGap rec + int ?nt + int (length (fLogHead rec) - ?b)"
    using assms(2) False by (auto simp: trimAttempt_def Let_def split: if_splits)
  have "excerpt D (fLogHead rec') (fLogGap rec') (fLogTail rec')"
    unfolding r by (intro excerpt_cut_head excerpt_cut_tail assms(1)) simp
  moreover have "int (length (fLogHead rec')) + int (length (fLogTail rec')) \<le> m"
  proof -
    have "length ?t \<le> nat m" by simp
    moreover have "length (take ?b (fLogHead rec)) \<le> nat m - length ?t" by simp
    ultimately have "length (take ?b (fLogHead rec)) + length ?t \<le> nat m" by linarith
    then show ?thesis unfolding r using False by linarith
  qed
  moreover have "fLogHead rec' \<noteq> [] \<longrightarrow> fLogTail rec' = fLogTail rec"
    unfolding r by (auto simp: not_le)
  ultimately show ?thesis using r(1,3) by (simp add: suffix_drop)
qed

section \<open>Lemmas: the tail buffer\<close>

lemma tailWrite_step:
  "tbBuf b = drop (length D - tbMax b) D \<Longrightarrow>
     tbMax (tailWrite p b) = tbMax b \<and> tbBuf (tailWrite p b) = drop (length (D @ p) - tbMax b) (D @ p)"
  using drop_last_append(1) [of D "tbMax b" p]
  by (auto simp: tailWrite_def Let_def not_less)

lemma fold_tailWrite:
  "tbBuf b = drop (length D - tbMax b) D \<Longrightarrow>
     tbBuf (fold tailWrite ps b) = drop (length (D @ concat ps) - tbMax b) (D @ concat ps)"
proof (induction ps arbitrary: b D)
  case (Cons p ps)
  note st = tailWrite_step [OF Cons.prems, of p]
  from st have "tbBuf (tailWrite p b) = drop (length (D @ p) - tbMax (tailWrite p b)) (D @ p)" by simp
  from Cons.IH [OF this] st show ?case by simp
qed simp

section \<open>Lemmas: the output writer\<close>

fun outChunk :: "outEvent \<Rightarrow> bytes" where
  "outChunk (ExecOutput c _) = c"
| "outChunk (ExecTruncated _ _) = []"

definition outStream :: "outEvent list \<Rightarrow> bytes" where
  "outStream evs = concat (map outChunk evs)"

text \<open>Chunks are non-empty, bounded, and each offset is the number of bytes before it.\<close>

fun chunksOK :: "nat \<Rightarrow> outEvent list \<Rightarrow> bool" where
  "chunksOK off [] \<longleftrightarrow> True"
| "chunksOK off (ExecOutput c o' # evs) \<longleftrightarrow>
     o' = off \<and> 0 < length c \<and> length c \<le> outputChunkMax \<and> chunksOK (off + length c) evs"
| "chunksOK off (ExecTruncated _ _ # evs) \<longleftrightarrow> chunksOK off evs"

lemma outStream_simps [simp]: "outStream [] = []" "outStream (evs @ evs') = outStream evs @ outStream evs'"
  "outStream [ExecOutput c n] = c" "outStream [ExecTruncated m n] = []"
  by (simp_all add: outStream_def)

lemma chunksOK_append:
  "chunksOK off (evs @ evs') \<longleftrightarrow> chunksOK off evs \<and> chunksOK (off + length (outStream evs)) evs'"
  by (induction off evs rule: chunksOK.induct) (auto simp: outStream_def add.assoc)

lemma flushLoop_emits:
  assumes "chunksOK 0 evs" "off = length (outStream evs)" "flushLoop buf off evs = (evs', off')"
  shows "chunksOK 0 evs' \<and> off' = length (outStream evs') \<and> outStream evs' = outStream evs @ buf
    \<and> (\<forall>c w. ExecTruncated c w \<in> set evs' \<longleftrightarrow> ExecTruncated c w \<in> set evs)"
  using assms
proof (induction buf off evs rule: flushLoop.induct)
  case (1 buf off evs)
  let ?n = "min (length buf) outputChunkMax"
  show ?case
  proof (cases "buf = []")
    case True
    with "1.prems"(3) have "evs' = evs" "off' = off" by (simp_all add: flushLoop.simps)
    with "1.prems"(1,2) True show ?thesis by simp
  next
    case False
    have e: "flushLoop (drop ?n buf) (off + ?n) (evs @ [ExecOutput (take ?n buf) off]) = (evs', off')"
      using "1.prems"(3) False by (subst (asm) flushLoop.simps) (simp add: Let_def)
    have "0 < ?n" using False by (simp add: outputChunkMax_def)
    then have "chunksOK 0 (evs @ [ExecOutput (take ?n buf) off])"
      using "1.prems"(1,2) by (simp add: chunksOK_append)
    from "1.IH" [OF False refl this _ e] "1.prems"(2) show ?thesis by (auto simp: min_def)
  qed
qed

datatype owOp = OwWrite bytes | OwTimer | OwClose

fun owStep :: "owOp \<Rightarrow> outputWriter \<Rightarrow> outputWriter" where
  "owStep (OwWrite p) w = owWrite p w"
| "owStep OwTimer w = owTimedFlush w"
| "owStep OwClose w = owClose w"

text \<open>The bytes written before the writer was closed.\<close>

fun writtenBefore :: "owOp list \<Rightarrow> bytes" where
  "writtenBefore [] = []"
| "writtenBefore (OwWrite p # ops) = p @ writtenBefore ops"
| "writtenBefore (OwTimer # ops) = writtenBefore ops"
| "writtenBefore (OwClose # ops) = []"

definition owOK :: "nat \<Rightarrow> bytes \<Rightarrow> outputWriter \<Rightarrow> bool" where
  "owOK cap D w \<longleftrightarrow>
     owCap w = cap \<and> chunksOK 0 (owEmitted w) \<and> owOffset w = length (outStream (owEmitted w))
     \<and> outStream (owEmitted w) @ owBuf w = take cap D
     \<and> (owTruncated w \<longleftrightarrow> cap \<le> length D) \<and> (owTruncated w \<or> owClosed w \<longrightarrow> owBuf w = [])
     \<and> (owTruncated w \<longleftrightarrow> (\<exists>c n. ExecTruncated c n \<in> set (owEmitted w)))"

lemma owFlush_emits:
  assumes "chunksOK 0 (owEmitted w)" "owOffset w = length (outStream (owEmitted w))"
  shows "chunksOK 0 (owEmitted (owFlush w))" "owOffset (owFlush w) = length (outStream (owEmitted (owFlush w)))"
    "outStream (owEmitted (owFlush w)) = outStream (owEmitted w) @ owBuf w"
    "ExecTruncated c n \<in> set (owEmitted (owFlush w)) \<longleftrightarrow> ExecTruncated c n \<in> set (owEmitted w)"
proof -
  obtain evs off where e: "flushLoop (owBuf w) (owOffset w) (owEmitted w) = (evs, off)" by fastforce
  then have f: "owEmitted (owFlush w) = evs" "owOffset (owFlush w) = off" by (simp_all add: owFlush_def)
  note fl = flushLoop_emits [OF assms e]
  show "chunksOK 0 (owEmitted (owFlush w))" "owOffset (owFlush w) = length (outStream (owEmitted (owFlush w)))"
    "outStream (owEmitted (owFlush w)) = outStream (owEmitted w) @ owBuf w"
    "ExecTruncated c n \<in> set (owEmitted (owFlush w)) \<longleftrightarrow> ExecTruncated c n \<in> set (owEmitted w)"
    unfolding f using fl by blast+
qed

lemma owFlush_frame [simp]:
  "owBuf (owFlush w) = []" "owCap (owFlush w) = owCap w" "owTruncated (owFlush w) = owTruncated w"
  "owClosed (owFlush w) = owClosed w" "owWritten (owFlush w) = owWritten w"
  by (simp_all add: owFlush_def Let_def split: prod.splits)

lemma owFlush_OK: "owOK cap D w \<Longrightarrow> owOK cap D (owFlush w)"
  by (auto simp: owOK_def owFlush_emits)

lemma owWrite_OK:
  assumes "owOK cap D w" "\<not> owClosed w" "0 < cap"
  shows "owOK cap (D @ p) (owWrite p w) \<and> \<not> owClosed (owWrite p w)"
proof (cases "owTruncated w")
  case True
  with assms show ?thesis by (auto simp: owOK_def owWrite_def Let_def)
next
  case False
  let ?s = "outStream (owEmitted w)"
  have st: "?s @ owBuf w = D" "length D < cap" "owOffset w = length ?s" "owCap w = cap" "chunksOK 0 (owEmitted w)"
    "\<And>c n. ExecTruncated c n \<notin> set (owEmitted w)"
    using assms(1) False by (auto simp: owOK_def not_le)
  then have l: "length ?s + length (owBuf w) = length D" by (metis length_append)
  let ?room = "cap - owOffset w - length (owBuf w)"
  have room: "?room = cap - length D" using st l by simp
  show ?thesis
  proof (cases "length p \<ge> ?room")
    case True
    let ?w = "w\<lparr>owWritten := owWritten w + length p, owBuf := owBuf w @ take ?room p\<rparr>"
    note fl = owFlush_emits [of ?w]
    have "?s @ (owBuf w @ take ?room p) = take cap (D @ p)"
      using st room by (metis append.assoc take_append less_imp_le take_all)
    then show ?thesis
      using True False assms(2) st room fl
      by (auto simp: owWrite_def Let_def owOK_def chunksOK_append)
  next
    case small: False
    let ?w = "w\<lparr>owWritten := owWritten w + length p, owBuf := owBuf w @ p\<rparr>"
    have "owOK cap (D @ p) ?w"
      using small room st assms(1,2) False by (auto simp: owOK_def)
    then show ?thesis
      using small False assms(2) st owFlush_OK [of cap "D @ p" ?w]
      by (auto simp: owWrite_def Let_def owOK_def)
  qed
qed

lemma owOK_timer [simp]: "owOK cap D (w\<lparr>owTimer := b\<rparr>) = owOK cap D w"
  unfolding owOK_def by simp

lemma owTimedFlush_OK: "owOK cap D w \<Longrightarrow> owOK cap D (owTimedFlush w) \<and> owClosed (owTimedFlush w) = owClosed w"
proof -
  assume a: "owOK cap D w"
  then have "owOK cap D (w\<lparr>owTimer := False\<rparr>)" by simp
  from owFlush_OK [OF this] this show ?thesis by (simp add: owTimedFlush_def Let_def)
qed

lemma owClose_OK: "owOK cap D w \<Longrightarrow> owOK cap D (owClose w) \<and> owClosed (owClose w) \<and> owBuf (owClose w) = []"
proof (cases "owClosed w")
  case True
  assume a: "owOK cap D w"
  with True have "owBuf w = []" by (simp add: owOK_def)
  with a True show ?thesis by (simp add: owClose_def)
next
  case False
  assume a: "owOK cap D w"
  show ?thesis
  proof (cases "owTruncated w")
    case True
    with a False show ?thesis by (auto simp: owClose_def Let_def owOK_def)
  next
    case nt: False
    let ?w = "w\<lparr>owClosed := True, owTimer := False\<rparr>"
    have "owOK cap D (owFlush ?w)"
      using a nt owFlush_emits [of ?w] by (auto simp: owOK_def)
    with nt False show ?thesis by (simp add: owClose_def Let_def)
  qed
qed

lemma owStep_closed: "owClosed w \<Longrightarrow> owEmitted (owStep x w) = owEmitted w \<and> owClosed (owStep x w)"
  by (cases x) (auto simp: owWrite_def owTimedFlush_def owClose_def Let_def)

lemma fold_owStep_closed: "owClosed w \<Longrightarrow> owEmitted (fold owStep ops w) = owEmitted w"
  by (induction ops arbitrary: w) (auto simp: owStep_closed)

lemma fold_owStep:
  assumes "owOK cap D w" "\<not> owClosed w" "0 < cap"
  shows "\<exists>w'. owOK cap (D @ writtenBefore ops) w' \<and> owClosed w' \<and> owBuf w' = []
    \<and> owEmitted (fold owStep (ops @ [OwClose]) w) = owEmitted w'"
  using assms(1,2)
proof (induction ops arbitrary: D w rule: writtenBefore.induct)
  case 1
  then show ?case using owClose_OK by fastforce
next
  case (2 p ops)
  from owWrite_OK [OF 2(2,3) assms(3)] 2(1) [of "D @ p" "owWrite p w"] show ?case by simp
next
  case (3 ops)
  from owTimedFlush_OK [OF 3(2)] 3(1) [of D "owTimedFlush w"] 3(3) show ?case by simp
next
  case (4 ops)
  note c = owClose_OK [OF 4(1)]
  have "owEmitted (fold owStep (ops @ [OwClose]) (owClose w)) = owEmitted (owClose w)"
    using c by (intro fold_owStep_closed) simp
  with c show ?case by (intro exI [of _ "owClose w"]) simp
qed

lemma newOutputWriter_OK: "0 < cap \<Longrightarrow> owOK cap [] (newOutputWriter cap)"
  by (simp add: owOK_def newOutputWriter_def)

section \<open>Lemmas: eviction\<close>

lemma oldestLog_zero:
  "\<forall>(n, lb) \<in> set ls. 0 < nlUpdated lb \<Longrightarrow> (\<forall>bn bt. best = Some (bn, bt) \<longrightarrow> 0 < bt) \<Longrightarrow> nlUpdated lb0 = 0 \<Longrightarrow>
     oldestLog (ls @ [(name, lb0)]) best = Some name"
  by (induction ls best rule: oldestLog.induct) (auto split: option.splits)

lemma update_new: "map_of ls i = None \<Longrightarrow> AList.update i r ls = ls @ [(i, r)]"
  by (induction ls) (auto split: if_splits)

lemma delete_new: "map_of ls i = None \<Longrightarrow> AList.delete i (ls @ [(i, r)]) = ls"
  by (induction ls) (auto split: if_splits)

lemma evict_new_entry:
  assumes "length ls = cap" "\<forall>(n, lb) \<in> set ls. 0 < nlUpdated lb" "map_of ls name = None" "nlUpdated lb0 = 0"
  shows "evictLogs cap (AList.update name lb0 ls) = ls"
proof -
  have "oldestLog (ls @ [(name, lb0)]) None = Some name"
    using assms by (intro oldestLog_zero) auto
  then have "evictLogs cap (ls @ [(name, lb0)]) = evictLogs cap ls"
    using assms by (subst evictLogs.simps) (simp add: delete_new)
  also have "\<dots> = ls" using assms(1) by (subst evictLogs.simps) simp
  finally show ?thesis by (simp add: update_new assms(3))
qed

section \<open>Properties\<close>

text \<open>C27: The log buffer equals its specification. After any sequence of chunk writes,
  with redeliveries, the buffer holds the first \<open>headCap\<close> bytes of the stream of
  first deliveries, the last \<open>tailCap\<close> bytes of the remainder, and the exact
  number of bytes between them.\<close>

theorem log_buffer_reference:
  "let D = concat (map (snd \<circ> snd) (dedupBy (\<lambda>(st, sq, c). (st, sq)) [] ws));
       b = fold (\<lambda>(st, sq, c). logWrite st sq c) ws (newLogBuffer hc tc)
   in lbHead b = take hc D \<and> lbTail b = drop (length (drop hc D) - tc) (drop hc D)
      \<and> lbGap b = int (length (drop hc D) - tc)"
proof -
  have "holds hc tc [] (newLogBuffer hc tc)" "lbSeen (newLogBuffer hc tc) = (\<lambda>(st, sq). dedupKey st sq) ` set []"
    by (simp_all add: holds_def newLogBuffer_def)
  from fold_logWrite [OF this, of ws] show ?thesis by (simp add: holds_def Let_def)
qed

text \<open>C28: Durable excerpts lose nothing silently. Trimming a captured attempt for a failure
  record, and trimming that record again to a reader's budget, yields a head
  that is a prefix and a tail that is a suffix of the captured stream with every
  other byte counted in the gap; the record's log stays within 768 KiB and the
  reply's within the budget; the reply gives up the head before the tail.\<close>

theorem trimmed_log_accounts:
  assumes "holds hc tc D b"
    and "trimLogSnapshot b failureLogHeadCap failureLogTailCap = (h, g, t)"
    and "fLogHead rec = h" "fLogGap rec = g" "fLogTail rec = t"
    and "trimAttempt rec m = (rec', trunc)"
  shows "excerpt D h g t \<and> length h + length t \<le> 768 * 2 ^ 10
    \<and> excerpt D (fLogHead rec') (fLogGap rec') (fLogTail rec')
    \<and> (m > 0 \<longrightarrow> int (length (fLogHead rec')) + int (length (fLogTail rec')) \<le> m)
    \<and> (fLogHead rec' \<noteq> [] \<longrightarrow> fLogTail rec' = t)"
proof -
  note e = trimLogSnapshot_excerpt [OF holds_excerpt [OF assms(1)] assms(2)]
  then have "excerpt D (fLogHead rec) (fLogGap rec) (fLogTail rec)" using assms(3-5) by simp
  from trimAttempt_excerpt [OF this assms(6)] e assms(3-5) show ?thesis
    by (cases trunc) (auto simp: failureLogHeadCap_def failureLogTailCap_def)
qed

definition demoRecord :: FailureRecord where
  "demoRecord = \<lparr>fNode = [], fGen = 1, fPlatform = [], fLabel = [], fOrigin = FailOriginResult,
     fDisposition = FailDispositionRetry, fErrSummary = [], fConsecRetry = 1, fConsecCtrl = 0, fBackoffMs = 0,
     fRequestIDs = [], fForF = [], fResult = None, fEnqueuedNs = 0, fStartedNs = 0, fFailedNs = 0,
     fLogHead = ''ab'', fLogGap = 1, fLogTail = ''de'', fLogMissing = False\<rparr>"

theorem trimmed_log_accounts_witness:
  "excerpt ''abcde'' ''ab'' 1 ''de''
   \<and> excerpt ''abcde'' (fLogHead (fst (trimAttempt demoRecord 3))) (fLogGap (fst (trimAttempt demoRecord 3)))
        (fLogTail (fst (trimAttempt demoRecord 3)))
   \<and> fLogHead (fst (trimAttempt demoRecord 3)) = ''a''"
proof -
  let ?b = "logWrite ''stdout'' 1 ''abcde'' (newLogBuffer 2 2)"
  have b: "holds 2 2 ''abcde'' ?b"
    by (simp add: holds_def logWrite_def newLogBuffer_def Let_def)
  have s: "trimLogSnapshot ?b failureLogHeadCap failureLogTailCap = (''ab'', 1, ''de'')"
    by (simp add: trimLogSnapshot_def logWrite_def newLogBuffer_def Let_def failureLogHeadCap_def failureLogTailCap_def)
  have r: "fLogHead demoRecord = ''ab''" "fLogGap demoRecord = 1" "fLogTail demoRecord = ''de''"
    by (simp_all add: demoRecord_def)
  have "fLogHead (fst (trimAttempt demoRecord 3)) = ''a''"
    by (simp add: trimAttempt_def demoRecord_def Let_def)
  then show ?thesis
    using trimmed_log_accounts [OF b s r prod.collapse [symmetric], of 3] by blast
qed

text \<open>C26: The output writer emits exactly the first \<open>cap\<close> bytes. For every sequence of
  writes, timer flushes and closes, followed by a close, the emitted chunks
  concatenate to the first \<open>cap\<close> bytes written before the first close, each chunk
  has between 1 and 32768 bytes and carries the offset at which it starts,
  and truncation is announced exactly when at least \<open>cap\<close> bytes were written (also
  when exactly \<open>cap\<close> bytes were, although none of them is lost).\<close>

theorem output_writer_emits_prefix:
  assumes "0 < cap"
  shows "let evs = owEmitted (fold owStep (ops @ [OwClose]) (newOutputWriter cap)) in
      outStream evs = take cap (writtenBefore ops) \<and> chunksOK 0 evs
      \<and> ((\<exists>c n. ExecTruncated c n \<in> set evs) \<longleftrightarrow> cap \<le> length (writtenBefore ops))"
proof -
  have "\<not> owClosed (newOutputWriter cap)" by (simp add: newOutputWriter_def)
  from fold_owStep [OF newOutputWriter_OK [OF assms] this assms, of ops]
  obtain w' where w': "owOK cap (writtenBefore ops) w'" "owBuf w' = []"
    and e: "owEmitted (fold owStep (ops @ [OwClose]) (newOutputWriter cap)) = owEmitted w'"
    by auto
  show ?thesis unfolding e Let_def using w' by (auto simp: owOK_def)
qed

text \<open>A four-byte cap filled exactly is announced as truncated.\<close>

theorem output_writer_emits_prefix_witness:
  "outStream (owEmitted (fold owStep [OwWrite ''ab'', OwTimer, OwWrite ''cd'', OwClose] (newOutputWriter 4))) = ''abcd''
   \<and> (\<exists>c n. ExecTruncated c n \<in> set (owEmitted (fold owStep [OwWrite ''ab'', OwTimer, OwWrite ''cd'', OwClose] (newOutputWriter 4))))"
  using output_writer_emits_prefix [of 4 "[OwWrite ''ab'', OwTimer, OwWrite ''cd'']"] by (simp add: Let_def)

text \<open>C40: A full log table captures nothing new. When \<open>maxLogNodes\<close> nodes have logs, the
  first chunk of another node leaves the table unchanged: the fresh entry's
  zero update time makes it the least recently updated, so it evicts itself
  and every later chunk of that node meets the same fate.\<close>

theorem full_log_table_drops_new_node:
  assumes "length ls = maxLogNodes" and "\<forall>(n, lb) \<in> set ls. 0 < nlUpdated lb" and "map_of ls name = None"
  shows "foldChunk name chunk now ls = ls"
  using assms evict_new_entry [OF assms(1,2,3)]
  by (simp add: foldChunk_def Let_def)

definition demoLogs :: "nat \<Rightarrow> logTable" where
  "demoLogs n = map (\<lambda>i. (FormatNat i, \<lparr>nlGen = 1, nlBuf = newLogBuffer 1 1, nlUpdated = 1 + int i\<rparr>)) [0..<n]"

lemma demoLogs_fresh: "map_of (demoLogs n) ''pin_ff'' = None"
proof -
  have "''pin_ff'' \<noteq> FormatNat i" for i
  proof
    assume "''pin_ff'' = FormatNat i"
    then have "CHR ''p'' \<in> set (FormatNat i)" by (metis list.set_intros(1))
    moreover have "\<not> isDigit (CHR ''p'')" by (simp add: isDigit_def)
    ultimately show False using notin_FormatNat by blast
  qed
  then show ?thesis unfolding demoLogs_def map_of_eq_None_iff set_map image_image fst_conv by blast
qed

theorem full_log_table_drops_new_node_witness:
  "foldChunk ''pin_ff'' \<lparr>cGen = 5, cStream = ''stdout'', cSeq = 0, cData = ''hello''\<rparr> 99 (demoLogs 512) = demoLogs 512"
proof (rule full_log_table_drops_new_node)
  have l: "length (demoLogs n) = n" "\<forall>(m, lb) \<in> set (demoLogs n). 0 < nlUpdated lb" for n
    by (auto simp: demoLogs_def)
  show "length (demoLogs 512) = maxLogNodes" by (simp only: l maxLogNodes_def)
  show "\<forall>(m, lb) \<in> set (demoLogs 512). 0 < nlUpdated lb" by (rule l(2))
qed (rule demoLogs_fresh)

text \<open>The tail buffer holds exactly the last \<open>max\<close> bytes of everything written to it.\<close>

theorem tailbuf_keeps_tail:
  "tbBuf (fold tailWrite ps \<lparr>tbBuf = [], tbMax = m\<rparr>) = drop (length (concat ps) - m) (concat ps)"
  using fold_tailWrite [of "\<lparr>tbBuf = [], tbMax = m\<rparr>" "[]" ps] by simp

end
