(* ===== verification/SchedState.thy ===== *)
theory SchedState
  imports Gate LogFold
begin

text \<open>
  The scheduler's state (\<open>src/sched/sched.go\<close>, the types of \<open>src/sched/node.go\<close> and
  \<open>src/sched/submit.go\<close>) and the environment it runs in.

  Nodes are Go pointers, so they are references into a heap \<open>sHeap\<close> allocated by
  \<open>sNext\<close>; the node table \<open>sNodes\<close> maps an identity to its current occupant, and an
  evicted node stays in the heap.  The Go sets \<open>deps\<close> and \<open>dependents\<close> are
  duplicate-free lists; the order in which a \<open>range\<close> visits them is the choice of
  \<open>xOrd\<close>, which may depend on the whole state.  \<open>interest\<close> is a set.  A key that comes
  with a resolved flag is an option.

  Everything outside the package is one world \<open>'st\<close> (object store, NATS, clock)
  behind the operations of the record \<open>ext\<close>; a failing operation returns its error
  text.  Messages the scheduler sends are appended to \<open>sEvents\<close>, armed timers to
  \<open>sTimers\<close>.  The ticker's local \<open>lastNoRunnerCheck\<close> is a field of the state.  Times are nanoseconds, 0 being the zero time.
\<close>

type_synonym nref = nat
type_synonym nodeID = "kind \<times> key"

record node =
  nId :: nodeID
  nPhase :: phase
  nGen :: "64 word"
  nDef :: bytes
  nPlatform :: string
  nDeps :: "nref list"
  nDependents :: "nref list"
  nInterest :: "string set"
  nF :: "key option"
  nKP :: "key option"
  nPinnedRes :: Resources
  nCaches :: "PinnedCache list"
  nPinInputs :: "Input list"
  nLabel :: string
  nRunInputs :: "Input list"
  nConsecRetry :: nat
  nConsecControl :: nat
  nLastResultGen :: "64 word"
  nRunner :: string
  nQueueSeq :: nat
  nErrSummary :: string
  nEnqueuedAt :: int
  nStartedAt :: int
  nDoneAt :: int
  nCached :: bool

record request =
  rqId :: string
  rqK :: key
  rqPlatform :: string
  rqRes :: Resources
  rqCreatedNs :: int
  rqCancelled :: bool
  rqTarget :: "nref option"
  rqFailReason :: string
  rqNoRunnersSince :: int

record NodeStatus =
  nsPhase :: phase
  nsGen :: "64 word"
  nsRunner :: string
  nsStartedNs :: int
  nsErrSummary :: string

record NodeSnap =
  snNode :: string
  snLabel :: string
  snPhase :: phase
  snGen :: "64 word"
  snRunner :: string
  snElapsedMs :: int
  snErrSummary :: string
  snDeps :: "string list"
  snCached :: bool

record Snapshot =
  ssRequestID :: string
  ssPhase :: string
  ssCounts :: Counts
  ssNodes :: "NodeSnap list"
  ssTerminal :: bool
  ssError :: string

record RequestStatus =
  rsPhase :: string
  rsTargetK :: key
  rsPlatform :: string
  rsCounts :: Counts
  rsCreatedNs :: int
  rsError :: string

text \<open>A watcher's channel holds at most eight unread snapshots.  Everything ever sent is
  kept, with the number of snapshots the receiver has taken.\<close>

record chan =
  chSent :: "Snapshot list"
  chRead :: nat
  chClosed :: bool

record watcher =
  wReqID :: string
  wCh :: nat
  wLastVer :: "64 word"
  wClosed :: bool
  wFinal :: "Snapshot option"

datatype event = StatusPut string NodeStatus | StatusPurge string | JobPublished string string Job
  | FailureRecorded FailureRecord | JobPurged nat | RequestPut string RequestStatus | RequestPurge string
  | RefsTouched "string list"

record timer =
  tmNode :: nref
  tmId :: nodeID
  tmGen :: "64 word"
  tmDelay :: int

record 'st sched =
  sW :: 'st
  sClosed :: bool
  sVersion :: "64 word"
  sHeap :: "nref \<Rightarrow> node"
  sNext :: nref
  sNodes :: "nodeID \<Rightarrow> nref option"
  sRequests :: "(string \<times> request) list"
  sLanes :: "string set"
  sLogs :: logTable
  sFleet :: "(string \<times> RunnerInfo) list"
  sTimers :: "timer list"
  sEvents :: "event list"
  sRetryBase :: int
  sNoRunnerAfter :: int
  sNoRunnerCheck :: int
  sLastNoRunnerCheck :: int
  sChans :: "chan list"
  sWatchers :: "watcher list"
  sLastKVVersion :: "64 word"
  sLastReqKV :: "(string \<times> string \<times> Counts) list"

record 'st ext =
  xNow :: "'st \<Rightarrow> int \<times> 'st"
  xOrd :: "'st sched \<Rightarrow> nref list \<Rightarrow> nref list"
  xCtxErr :: "'st \<Rightarrow> bool"
  xGetKey :: "'st \<Rightarrow> string \<Rightarrow> string + key option"
  xPutRef :: "string \<Rightarrow> key \<Rightarrow> 'st \<Rightarrow> string option \<times> 'st"
  xDeleteRef :: "string \<Rightarrow> 'st \<Rightarrow> 'st"
  xReadFile :: "'st \<Rightarrow> key \<Rightarrow> string + bytes"
  xIngestFile :: "bytes \<Rightarrow> 'st \<Rightarrow> (string + key) \<times> 'st"
  xTreeSubdir :: "'st \<Rightarrow> key \<Rightarrow> string \<Rightarrow> string + key option"
  xDerive :: "bytes \<Rightarrow> Pinned \<Rightarrow> string \<Rightarrow> key \<Rightarrow> 'st \<Rightarrow> (string + key) \<times> 'st"
  xCheckComplete :: "'st \<Rightarrow> key \<Rightarrow> string option"
  xFileKey :: "bytes \<Rightarrow> string + key"
  xDecImport :: "bytes \<Rightarrow> string + ImportDefinition"
  xDecDef :: "bytes \<Rightarrow> string + Definition"
  xEncDef :: "Definition \<Rightarrow> string + bytes"
  xDecResolved :: "bytes \<Rightarrow> string + PluginResolved"
  xDecPinned :: "bytes \<Rightarrow> string + Pinned"
  xDecTree :: "bytes \<Rightarrow> string + key"
  xKeyParse :: "bytes \<Rightarrow> key option"
  xParseMilli :: "string \<Rightarrow> int option"
  xValidName :: "string \<Rightarrow> bool"
  xPublish :: "string \<Rightarrow> string \<Rightarrow> Job \<Rightarrow> 'st \<Rightarrow> nat option \<times> 'st"
  xEnsureLane :: "string \<Rightarrow> 'st \<Rightarrow> bool \<times> 'st"

definition maxConsecRetryable :: nat where "maxConsecRetryable = 3"
definition maxConsecControl :: nat where "maxConsecControl = 20"
definition runnerLiveWindow :: int where "runnerLiveWindow = 15 * 10 ^ 9"
definition noRunnerFailAfter :: int where "noRunnerFailAfter = 5 * 60 * 10 ^ 9"
definition noRunnerCheckEvery :: int where "noRunnerCheckEvery = 10 * 10 ^ 9"
definition defaultRetryBase :: int where "defaultRetryBase = 10 ^ 9"

definition emptyNode :: node where
  "emptyNode = \<lparr>nId = (KindImport, []), nPhase = PhaseWaiting, nGen = 0, nDef = [], nPlatform = [], nDeps = [],
     nDependents = [], nInterest = {}, nF = None, nKP = None, nPinnedRes = Res 0 0, nCaches = [], nPinInputs = [],
     nLabel = [], nRunInputs = [], nConsecRetry = 0, nConsecControl = 0, nLastResultGen = 0, nRunner = [],
     nQueueSeq = 0, nErrSummary = [], nEnqueuedAt = 0, nStartedAt = 0, nDoneAt = 0, nCached = False\<rparr>"

definition newSched :: "'st \<Rightarrow> 'st sched" where
  "newSched w = \<lparr>sW = w, sClosed = False, sVersion = 0, sHeap = (\<lambda>_. emptyNode), sNext = 0, sNodes = (\<lambda>_. None),
     sRequests = [], sLanes = {}, sLogs = [], sFleet = [], sTimers = [], sEvents = [], sRetryBase = defaultRetryBase,
     sNoRunnerAfter = noRunnerFailAfter, sNoRunnerCheck = noRunnerCheckEvery, sLastNoRunnerCheck = 0, sChans = [],
     sWatchers = [], sLastKVVersion = 0, sLastReqKV = []\<rparr>"

section \<open>Access and bookkeeping\<close>

definition nName :: "node \<Rightarrow> string" where
  "nName n = NodeName (fst (nId n)) (snd (nId n))"

definition upd :: "nref \<Rightarrow> (node \<Rightarrow> node) \<Rightarrow> 'st sched \<Rightarrow> 'st sched" where
  "upd r f s = s\<lparr>sHeap := (sHeap s)(r := f (sHeap s r))\<rparr>"

definition emit :: "event \<Rightarrow> 'st sched \<Rightarrow> 'st sched" where
  "emit ev s = s\<lparr>sEvents := sEvents s @ [ev]\<rparr>"

definition bumpLocked :: "'st sched \<Rightarrow> 'st sched" where
  "bumpLocked s = s\<lparr>sVersion := sVersion s + 1\<rparr>"

definition timeNow :: "'st ext \<Rightarrow> 'st sched \<Rightarrow> int \<times> 'st sched" where
  "timeNow x s = (let (t, w) = xNow x (sW s) in (t, s\<lparr>sW := w\<rparr>))"

definition putNodeStatusLocked :: "nref \<Rightarrow> 'st sched \<Rightarrow> 'st sched" where
  "putNodeStatusLocked r s =
     (let n = sHeap s r in
      emit (StatusPut (nName n) \<lparr>nsPhase = nPhase n, nsGen = nGen n, nsRunner = nRunner n,
                                  nsStartedNs = nStartedAt n, nsErrSummary = nErrSummary n\<rparr>) s)"

definition purgeNodeStatusLocked :: "string \<Rightarrow> 'st sched \<Rightarrow> 'st sched" where
  "purgeNodeStatusLocked name s = emit (StatusPurge name) s"

definition placeable :: "kind \<Rightarrow> bool" where
  "placeable kd \<longleftrightarrow> kd \<noteq> KindBuildValue"

definition resKind :: "kind \<Rightarrow> string" where
  "resKind kd = (case kd of
      KindImport \<Rightarrow> ''import'' | KindBuildFrom \<Rightarrow> ''build-from'' | KindPluginResolve \<Rightarrow> ''build-plugin-resolve''
    | KindPin \<Rightarrow> ''build-pin'' | KindBuildRun \<Rightarrow> ''build'' | KindBuildValue \<Rightarrow> kindString kd)"

definition genSeed :: "'st ext \<Rightarrow> 'st sched \<Rightarrow> 64 word \<times> 'st sched" where
  "genSeed x s = (let (t, s') = timeNow x s in (word_of_int t, s'))"

section \<open>Failure records\<close>

definition interestIDs :: "node \<Rightarrow> string list" where
  "interestIDs n = (if nInterest n = {} then [] else sorted_list_of_set (nInterest n))"

definition waiterFs :: "'st sched \<Rightarrow> nref \<Rightarrow> string list" where
  "waiterFs s r =
     (if fst (nId (sHeap s r)) \<noteq> KindBuildRun then []
      else sort (List.map_filter (\<lambda>d. if fst (nId (sHeap s d)) = KindBuildValue
             then map_option keyString (nF (sHeap s d)) else None) (nDependents (sHeap s r))))"

definition recordFailureLocked ::
  "'st ext \<Rightarrow> nref \<Rightarrow> Result option \<Rightarrow> failOrigin \<Rightarrow> failDisposition \<Rightarrow> string \<Rightarrow> int \<Rightarrow> 'st sched \<Rightarrow> 'st sched" where
  "recordFailureLocked x r res origin disp summary backoff s =
     (if (case res of None \<Rightarrow> False | Some v \<Rightarrow> rClass v = ClassCancelled \<and> disp = FailDispositionRetry) then s
      else
        (let (t, s1) = timeNow x s;
             n = sHeap s1 r;
             (h, g, tl, miss) = (case map_of (sLogs s1) (nName n) of
                 Some lb \<Rightarrow> if nlGen lb = nGen n
                            then (let (h, g, tl) = trimLogSnapshot (nlBuf lb) failureLogHeadCap failureLogTailCap in (h, g, tl, False))
                            else ([], 0, [], True)
               | None \<Rightarrow> ([], 0, [], True))
         in emit (FailureRecorded
              \<lparr>fNode = nName n, fGen = nGen n, fPlatform = nPlatform n, fLabel = nLabel n, fOrigin = origin,
               fDisposition = disp, fErrSummary = summary, fConsecRetry = nConsecRetry n,
               fConsecCtrl = nConsecControl n, fBackoffMs = backoff div 1000000, fRequestIDs = interestIDs n,
               fForF = waiterFs s1 r, fResult = res, fEnqueuedNs = nEnqueuedAt n, fStartedNs = nStartedAt n,
               fFailedNs = t, fLogHead = h, fLogGap = g, fLogTail = tl, fLogMissing = miss\<rparr>) s1))"

definition failNodeAttrLocked ::
  "'st ext \<Rightarrow> nref \<Rightarrow> Result option \<Rightarrow> failOrigin \<Rightarrow> string \<Rightarrow> 'st sched \<Rightarrow> 'st sched" where
  "failNodeAttrLocked x r res origin summary s =
     (if nPhase (sHeap s r) = PhaseFailed \<or> nPhase (sHeap s r) = PhaseDone then s
      else
        (let (t, s1) = timeNow x s;
             s2 = upd r (\<lambda>n. n\<lparr>nPhase := PhaseFailed, nErrSummary := summary, nDoneAt := t\<rparr>) s1;
             s3 = recordFailureLocked x r res origin FailDispositionFailed summary 0 s2
         in bumpLocked (putNodeStatusLocked r s3)))"

definition failNodeLocked :: "'st ext \<Rightarrow> nref \<Rightarrow> string \<Rightarrow> 'st sched \<Rightarrow> 'st sched" where
  "failNodeLocked x r summary s = failNodeAttrLocked x r None FailOriginServer summary s"

end
