(* ===== verification/SchedStore.thy ===== *)
theory SchedStore
  imports SchedState
begin

text \<open>
  The scheduler's use of the ref store: the KP binding and the F aliases
  (\<open>src/sched/kp.go\<close>), the pull lists (\<open>src/sched/pullrefs.go\<close>), ref file reads and
  the output-existence test (\<open>src/sched/node.go\<close>).

  The store itself is outside the program.  Theorems that read back what was
  written assume the two laws of \<open>ref_store\<close> below: a successful write is visible,
  and a write leaves other names alone.
\<close>

definition KPTreeRef :: "key \<Rightarrow> string" where
  "KPTreeRef kp = ''kp-tree/'' @ keyString kp"

definition PinCoverRef :: "key \<Rightarrow> string" where
  "PinCoverRef f = ''pin-cover/'' @ FormatNat 2 @ '':'' @ keyString f"

definition FTreeRef :: "key \<Rightarrow> string" where
  "FTreeRef f = ''f-tree/'' @ keyString f"

definition readRefFileLocked :: "'st ext \<Rightarrow> string \<Rightarrow> 'st \<Rightarrow> string + bytes" where
  "readRefFileLocked x name w =
     (case xGetKey x w name of
        Inl err \<Rightarrow> Inl err
      | Inr None \<Rightarrow> Inl (name @ '' not found'')
      | Inr (Some k) \<Rightarrow> xReadFile x w k)"

definition readPluginResolvedLocked :: "'st ext \<Rightarrow> key \<Rightarrow> 'st \<Rightarrow> string + PluginResolved" where
  "readPluginResolvedLocked x f w =
     (case readRefFileLocked x (''build-plugin-resolved:'' @ keyString f) w of
        Inl err \<Rightarrow> Inl err | Inr b \<Rightarrow> xDecResolved x b)"

definition readPinnedLocked :: "'st ext \<Rightarrow> key \<Rightarrow> 'st \<Rightarrow> string + Pinned" where
  "readPinnedLocked x f w =
     (case readRefFileLocked x (''build-pinned:'' @ keyString f) w of
        Inl err \<Rightarrow> Inl err | Inr b \<Rightarrow> xDecPinned x b)"

section \<open>KP derivation\<close>

text \<open>The three ref writes in order, stopping at the first error.\<close>

fun putRefs :: "'st ext \<Rightarrow> (string \<times> key) list \<Rightarrow> 'st \<Rightarrow> string option \<times> 'st" where
  "putRefs x [] w = (None, w)"
| "putRefs x ((name, k) # rs) w =
     (case xPutRef x name k w of
        (Some err, w') \<Rightarrow> (Some err, w')
      | (None, w') \<Rightarrow> putRefs x rs w')"

definition deriveKP :: "'st ext \<Rightarrow> key \<Rightarrow> 'st \<Rightarrow> (string + key) \<times> 'st" where
  "deriveKP x f w =
     (case xGetKey x w (''build-pinned:'' @ keyString f) of
        Inl err \<Rightarrow> (Inl err, w)
      | Inr None \<Rightarrow> (Inl (''build-pinned:'' @ keyString f @ '' not found''), w)
      | Inr (Some pinnedKey) \<Rightarrow>
          (case xReadFile x w pinnedKey of
             Inl err \<Rightarrow> (Inl (''read pinned blob: '' @ err), w)
           | Inr pinnedBytes \<Rightarrow>
               (case xDecPinned x pinnedBytes of
                  Inl err \<Rightarrow> (Inl (''decode pinned: '' @ err), w)
                | Inr pinned \<Rightarrow>
                    (case (xTreeSubdir x w f ''env'', xTreeSubdir x w f ''platform'') of
                       (Inr (Some env), Inr (Some platKey)) \<Rightarrow>
                         (case xReadFile x w platKey of
                            Inl err \<Rightarrow> (Inl (''read F-tree platform: '' @ err), w)
                          | Inr platform \<Rightarrow>
                              (case xDerive x pinnedBytes pinned platform env w of
                                 (Inl err, w1) \<Rightarrow> (Inl (''cover.Derive: '' @ err), w1)
                               | (Inr kp, w1) \<Rightarrow>
                                   (case putRefs x [(''build-pinned:'' @ keyString kp, pinnedKey),
                                                    (KPTreeRef kp, kp), (PinCoverRef f, kp)] w1 of
                                      (Some err, w2) \<Rightarrow> (Inl err, w2)
                                    | (None, w2) \<Rightarrow> (Inr kp, w2))))
                     | (Inr (Some env), _) \<Rightarrow> (Inl ''F-tree platform entry'', w)
                     | _ \<Rightarrow> (Inl ''F-tree env subtree'', w)))))"

definition resolveKPLocked :: "'st ext \<Rightarrow> key \<Rightarrow> 'st \<Rightarrow> (string + key) \<times> 'st" where
  "resolveKPLocked x f w =
     (case xGetKey x w (PinCoverRef f) of
        Inl err \<Rightarrow> (Inl err, w)
      | Inr (Some kp) \<Rightarrow> (Inr kp, w)
      | Inr None \<Rightarrow> deriveKP x f w)"

definition ensureFAliasesLocked :: "'st ext \<Rightarrow> key \<Rightarrow> key \<Rightarrow> 'st \<Rightarrow> string option \<times> 'st" where
  "ensureFAliasesLocked x f kp w =
     (case xGetKey x w (''build-output:'' @ keyString f) of
        Inl err \<Rightarrow> (Some err, w)
      | Inr (Some _) \<Rightarrow> (None, w)
      | Inr None \<Rightarrow>
          (case xGetKey x w (''build-output-deps:'' @ keyString kp) of
             Inl err \<Rightarrow> (Some err, w)
           | Inr deps \<Rightarrow>
               (case xGetKey x w (''build-output:'' @ keyString kp) of
                  Inl err \<Rightarrow> (Some err, w)
                | Inr outp \<Rightarrow>
                    (case (deps, outp) of
                       (Some dk, Some ok) \<Rightarrow>
                         (case xPutRef x (''build-output-deps:'' @ keyString f) dk w of
                            (Some err, w1) \<Rightarrow> (Some err, w1)
                          | (None, w1) \<Rightarrow> xPutRef x (''build-output:'' @ keyString f) ok w1)
                     | _ \<Rightarrow> (Some (''build-output(-deps):'' @ keyString kp @ '' missing for done buildrun''), w)))))"

section \<open>Pull lists\<close>

definition healCarrierLocked :: "'st ext \<Rightarrow> string \<Rightarrow> key \<Rightarrow> 'st \<Rightarrow> string option \<times> 'st" where
  "healCarrierLocked x name k w =
     (case xGetKey x w name of
        Inl err \<Rightarrow> (Some err, w)
      | Inr (Some _) \<Rightarrow> (None, w)
      | Inr None \<Rightarrow> xPutRef x name k w)"

text \<open>The closures \<open>add\<close>, \<open>addIfPresent\<close> and \<open>addInputOutputs\<close> over the list built so far.\<close>

definition addNames :: "string list \<Rightarrow> string list \<Rightarrow> string list" where
  "addNames names out = fold (\<lambda>n o'. if n \<in> set o' then o' else o' @ [n]) names out"

definition addIfPresent :: "'st ext \<Rightarrow> 'st \<Rightarrow> string \<Rightarrow> string list \<Rightarrow> string + string list" where
  "addIfPresent x w name out =
     (case xGetKey x w name of
        Inl err \<Rightarrow> Inl err
      | Inr (Some _) \<Rightarrow> Inr (addNames [name] out)
      | Inr None \<Rightarrow> Inr out)"

definition addInputOutputs :: "'st ext \<Rightarrow> 'st \<Rightarrow> Input \<Rightarrow> bool \<Rightarrow> string list \<Rightarrow> string + string list" where
  "addInputOutputs x w inp withDeps out =
     (case xFileKey x (inDefinition inp) of
        Inl err \<Rightarrow> Inl (''input key: '' @ err)
      | Inr k \<Rightarrow>
          if inKind inp = ''import'' then Inr (addNames [''import-output:'' @ keyString k] out)
          else if inKind inp = ''build'' then
            (case xGetKey x w (''build-from:'' @ keyString k) of
               Inl err \<Rightarrow> Inl err
             | Inr None \<Rightarrow> Inl (''build-from:'' @ keyString k @ '' missing for done input'')
             | Inr (Some f) \<Rightarrow>
                 Inr (let o1 = addNames [''build-from:'' @ keyString k, ''build-output:'' @ keyString f] out
                      in if withDeps then addNames [''build-output-deps:'' @ keyString f] o1 else o1))
          else if inKind inp = ''tree'' then
            (case xDecTree x (inDefinition inp) of
               Inl err \<Rightarrow> Inl (''decode tree input: '' @ err)
             | Inr tk \<Rightarrow> Inr (addNames [''build-from-tree:'' @ keyString tk] out))
          else Inr out)"

fun addEach :: "('a \<Rightarrow> string list \<Rightarrow> string + string list) \<Rightarrow> 'a list \<Rightarrow> string list \<Rightarrow> string + string list" where
  "addEach f [] out = Inr out"
| "addEach f (a # as) out = (case f a out of Inl err \<Rightarrow> Inl err | Inr out' \<Rightarrow> addEach f as out')"

definition pullRefsImport :: "'st ext \<Rightarrow> node \<Rightarrow> 'st \<Rightarrow> string + string list" where
  "pullRefsImport x n w =
     (case xDecImport x (nDef n) of
        Inl err \<Rightarrow> Inl (''decode import def: '' @ err)
      | Inr d \<Rightarrow>
          (let platform = (if imPlatform d = [] then nPlatform n else imPlatform d) in
           case addIfPresent x w (''shell:'' @ platform) [] of
             Inl err \<Rightarrow> Inl err
           | Inr out \<Rightarrow>
               if imFetcherDef d \<noteq> [] then
                 (case xFileKey x (imFetcherDef d) of
                    Inl err \<Rightarrow> Inl (''fetcher def key: '' @ err)
                  | Inr fk \<Rightarrow>
                      (case xGetKey x w (''build-from:'' @ keyString fk) of
                         Inl err \<Rightarrow> Inl err
                       | Inr None \<Rightarrow> Inl (''build-from:'' @ keyString fk @ '' missing for done fetcher build'')
                       | Inr (Some ff) \<Rightarrow>
                           addIfPresent x w (''build-output-deps:'' @ keyString ff)
                             (addNames [''build-from:'' @ keyString fk, ''build-output:'' @ keyString ff] out)))
               else addIfPresent x w (''fetcher:'' @ imFetcher d @ '':'' @ platform) out))"

definition pullRefsBuildFrom :: "'st ext \<Rightarrow> node \<Rightarrow> 'st \<Rightarrow> string + string list" where
  "pullRefsBuildFrom x n w =
     (case xDecDef x (nDef n) of
        Inl err \<Rightarrow> Inl (''decode build def: '' @ err)
      | Inr d \<Rightarrow>
          if inKind (dfSource d) \<in> {''import'', ''build'', ''tree''}
          then addInputOutputs x w (dfSource d) (inKind (dfSource d) = ''build'') []
          else Inl (''unknown source kind '' @ inKind (dfSource d)))"

definition pullRefsPin :: "'st ext \<Rightarrow> node \<Rightarrow> 'st \<Rightarrow> string + string list" where
  "pullRefsPin x n w =
     (case addIfPresent x w (''shell:'' @ nPlatform n)
             (addNames [FTreeRef (snd (nId n)), ''build-plugin-resolved:'' @ keyString (snd (nId n))] []) of
        Inl err \<Rightarrow> Inl err
      | Inr out \<Rightarrow> addEach (\<lambda>inp. addInputOutputs x w inp False) (nPinInputs n) out)"

definition pullRefsBuildRun :: "'st ext \<Rightarrow> node \<Rightarrow> 'st \<Rightarrow> string + string list" where
  "pullRefsBuildRun x n w =
     (case addIfPresent x w (''shell:'' @ nPlatform n)
             (addNames [KPTreeRef (snd (nId n)), ''build-pinned:'' @ keyString (snd (nId n))] []) of
        Inl err \<Rightarrow> Inl err
      | Inr out \<Rightarrow>
          (case addEach (\<lambda>inp. addInputOutputs x w inp True) (nRunInputs n) out of
             Inl err \<Rightarrow> Inl err
           | Inr out' \<Rightarrow> addEach (\<lambda>c. addIfPresent x w (CacheRefName (pcID c) (nPlatform n))) (nCaches n) out'))"

definition computePullRefsLocked :: "'st ext \<Rightarrow> node \<Rightarrow> 'st \<Rightarrow> (string + string list) \<times> 'st" where
  "computePullRefsLocked x n w =
     (let k = snd (nId n);
          healed = (\<lambda>name cont. case healCarrierLocked x name k w of
                      (Some err, w') \<Rightarrow> (Inl err, w') | (None, w') \<Rightarrow> (cont w', w'))
      in case fst (nId n) of
           KindImport \<Rightarrow> (pullRefsImport x n w, w)
         | KindBuildFrom \<Rightarrow> (pullRefsBuildFrom x n w, w)
         | KindPluginResolve \<Rightarrow> healed (FTreeRef k) (\<lambda>w'. Inr (addNames [FTreeRef k] []))
         | KindPin \<Rightarrow> healed (FTreeRef k) (pullRefsPin x n)
         | KindBuildRun \<Rightarrow> healed (KPTreeRef k) (pullRefsBuildRun x n)
         | KindBuildValue \<Rightarrow> (Inr [], w))"

section \<open>Doneness\<close>

definition outputRefName :: "nodeID \<Rightarrow> string" where
  "outputRefName i = (case fst i of
      KindImport \<Rightarrow> ''import-output:'' @ keyString (snd i)
    | KindBuildFrom \<Rightarrow> ''build-from:'' @ keyString (snd i)
    | KindPluginResolve \<Rightarrow> ''build-plugin-resolved:'' @ keyString (snd i)
    | KindPin \<Rightarrow> ''build-pinned:'' @ keyString (snd i)
    | KindBuildRun \<Rightarrow> ''build-output:'' @ keyString (snd i)
    | KindBuildValue \<Rightarrow> ''build-from:'' @ keyString (snd i))"

definition outputExistsLocked :: "'st ext \<Rightarrow> nref \<Rightarrow> 'st sched \<Rightarrow> (string + bool) \<times> 'st sched" where
  "outputExistsLocked x r s =
     (let n = sHeap s r in
      case xGetKey x (sW s) (outputRefName (nId n)) of
        Inl err \<Rightarrow> (Inl err, s)
      | Inr v \<Rightarrow>
          if fst (nId n) \<noteq> KindBuildValue then (Inr (v \<noteq> None), s)
          else (case v of
                  None \<Rightarrow> (Inr False, s)
                | Some f \<Rightarrow>
                    (let s' = upd r (\<lambda>n. n\<lparr>nF := Some f\<rparr>) s in
                     case xGetKey x (sW s) (''build-output:'' @ keyString f) of
                       Inl err \<Rightarrow> (Inl err, s')
                     | Inr v' \<Rightarrow> (Inr (v' \<noteq> None), s'))))"

section \<open>Lemmas\<close>

text \<open>What is relied on of the ref store where a theorem reads back a write.\<close>

definition ref_store :: "'st ext \<Rightarrow> bool" where
  "ref_store x \<longleftrightarrow>
     (\<forall>name k w w'. xPutRef x name k w = (None, w') \<longrightarrow>
        xGetKey x w' name = Inr (Some k) \<and> (\<forall>m. m \<noteq> name \<longrightarrow> xGetKey x w' m = xGetKey x w m))"

lemma ref_store_put:
  assumes "ref_store x" "xPutRef x name k w = (None, w')"
  shows "xGetKey x w' name = Inr (Some k)" "m \<noteq> name \<Longrightarrow> xGetKey x w' m = xGetKey x w m"
  using assms unfolding ref_store_def by blast+

lemma addNames_set: "set (addNames names out) = set out \<union> set names"
  unfolding addNames_def by (induction names arbitrary: out) auto

lemma addNames_distinct: "distinct out \<Longrightarrow> distinct (addNames names out)"
  unfolding addNames_def by (induction names arbitrary: out) auto

lemma addIfPresent_Inr:
  "addIfPresent x w name out = Inr out' \<Longrightarrow>
     distinct out \<longrightarrow> distinct out'"
  "addIfPresent x w name out = Inr out' \<Longrightarrow> set out' = set out \<union> (case xGetKey x w name of Inr (Some _) \<Rightarrow> {name} | _ \<Rightarrow> {})"
  by (auto simp: addIfPresent_def addNames_set addNames_distinct split: sum.splits option.splits)

lemma addInputOutputs_distinct:
  "addInputOutputs x w inp b out = Inr out' \<Longrightarrow> distinct out \<Longrightarrow> distinct out'"
  by (auto simp: addInputOutputs_def addNames_distinct Let_def split: sum.splits option.splits if_splits)

lemma addEach_distinct:
  "(\<And>a out out'. f a out = Inr out' \<Longrightarrow> distinct out \<Longrightarrow> distinct out') \<Longrightarrow>
     addEach f as out = Inr out' \<Longrightarrow> distinct out \<Longrightarrow> distinct out'"
  by (induction as arbitrary: out) (auto split: sum.splits)

lemma outputExists_frame:
  assumes "outputExistsLocked x r s = (v, s')"
  shows "s' = s \<or> (\<exists>f. fst (nId (sHeap s r)) = KindBuildValue
     \<and> xGetKey x (sW s) (''build-from:'' @ keyString (snd (nId (sHeap s r)))) = Inr (Some f)
     \<and> s' = upd r (\<lambda>n. n\<lparr>nF := Some f\<rparr>) s)"
  using assms
  by (auto simp: outputExistsLocked_def outputRefName_def Let_def split: sum.splits option.splits if_splits kind.splits)

text \<open>A ref store in memory, on which theorems are instantiated: no blobs, one decoder error
  for every file, refs as a map.\<close>

definition memExt :: "(string \<Rightarrow> key option) ext" where
  "memExt = \<lparr>xNow = (\<lambda>w. (0, w)), xOrd = (\<lambda>_ xs. xs), xCtxErr = (\<lambda>_. False), xGetKey = (\<lambda>w n. Inr (w n)),
     xPutRef = (\<lambda>n k w. (None, w(n := Some k))), xDeleteRef = (\<lambda>n w. w(n := None)),
     xReadFile = (\<lambda>_ _. Inl ''no blob''), xIngestFile = (\<lambda>b w. (Inl ''no blob'', w)),
     xTreeSubdir = (\<lambda>_ _ _. Inr None), xDerive = (\<lambda>_ _ _ _ w. (Inl ''no tree'', w)),
     xCheckComplete = (\<lambda>_ _. None), xFileKey = (\<lambda>b. Inr b), xDecImport = (\<lambda>_. Inl ''bad''),
     xDecDef = (\<lambda>_. Inl ''bad''), xEncDef = (\<lambda>_. Inl ''bad''), xDecResolved = (\<lambda>_. Inl ''bad''),
     xDecPinned = (\<lambda>_. Inl ''bad''), xDecTree = (\<lambda>_. Inl ''bad''), xKeyParse = (\<lambda>b. Some b), xParseMilli = (\<lambda>_. None),
     xValidName = (\<lambda>_. True), xPublish = (\<lambda>_ _ _ w. (Some 1, w)), xEnsureLane = (\<lambda>_ w. (True, w))\<rparr>"

lemma memExt_ref_store: "ref_store memExt"
  by (simp add: ref_store_def memExt_def)

section \<open>Properties\<close>

text \<open>C23: Publishing the F aliases is safe at every point. When \<open>ensureFAliasesLocked\<close>
  succeeds, \<open>build-output:F\<close> exists; if it was missing before, then
  \<open>build-output-deps:F\<close> and \<open>build-output:F\<close> now have the values of the KP-keyed refs; and
  in the intermediate store between the two writes the deps alias already exists
  while the output alias does not, so a crash there never leaves a
  done-looking F without its runtime closure.\<close>

theorem aliases_deps_before_output:
  assumes "ref_store x" and "ensureFAliasesLocked x f kp w = (None, w')"
  shows "(\<exists>ok. xGetKey x w' (''build-output:'' @ keyString f) = Inr (Some ok))
    \<and> (xGetKey x w (''build-output:'' @ keyString f) = Inr None \<longrightarrow>
        xGetKey x w' (''build-output-deps:'' @ keyString f) = xGetKey x w (''build-output-deps:'' @ keyString kp)
        \<and> xGetKey x w' (''build-output:'' @ keyString f) = xGetKey x w (''build-output:'' @ keyString kp)
        \<and> (\<exists>w1 dk ok. xPutRef x (''build-output-deps:'' @ keyString f) dk w = (None, w1)
            \<and> xPutRef x (''build-output:'' @ keyString f) ok w1 = (None, w')
            \<and> xGetKey x w1 (''build-output-deps:'' @ keyString f) = Inr (Some dk)
            \<and> xGetKey x w1 (''build-output:'' @ keyString f) = Inr None))"
proof (cases "xGetKey x w (''build-output:'' @ keyString f)")
  case (Inl err)
  with assms(2) show ?thesis by (simp add: ensureFAliasesLocked_def)
next
  case (Inr v)
  show ?thesis
  proof (cases v)
    case (Some ok)
    with Inr assms(2) show ?thesis by (auto simp: ensureFAliasesLocked_def)
  next
    case None
    with Inr assms(2) obtain dk ok w1 where
      k: "xGetKey x w (''build-output-deps:'' @ keyString kp) = Inr (Some dk)"
        "xGetKey x w (''build-output:'' @ keyString kp) = Inr (Some ok)"
      and p1: "xPutRef x (''build-output-deps:'' @ keyString f) dk w = (None, w1)"
      and p2: "xPutRef x (''build-output:'' @ keyString f) ok w1 = (None, w')"
      by (auto simp: ensureFAliasesLocked_def split: sum.splits option.splits prod.splits)
    have ne: "''build-output:'' @ keyString f \<noteq> ''build-output-deps:'' @ keyString f" by simp
    note g1 = ref_store_put [OF assms(1) p1] and g2 = ref_store_put [OF assms(1) p2]
    have "xGetKey x w' (''build-output-deps:'' @ keyString f) = Inr (Some dk)"
      using g2(2) [OF ne [symmetric]] g1(1) by simp
    moreover have "xGetKey x w1 (''build-output:'' @ keyString f) = Inr None"
      using g1(2) [OF ne] Inr None by simp
    ultimately show ?thesis
      using k p1 p2 g1(1) g2(1) by (intro conjI impI exI [of _ ok] exI [of _ dk] exI [of _ w1]) simp_all
  qed
qed

theorem aliases_deps_before_output_witness:
  "let w = [''build-output-deps:01'' \<mapsto> ''d'', ''build-output:01'' \<mapsto> ''o'']
   in \<exists>w'. ensureFAliasesLocked memExt [] [CHR 0x01] w = (None, w')
        \<and> w' ''build-output:'' = Some ''o'' \<and> w' ''build-output-deps:'' = Some ''d''"
proof -
  let ?w = "[''build-output-deps:01'' \<mapsto> ''d'', ''build-output:01'' \<mapsto> ''o'']"
  have hex: "keyString [CHR 0x01] = ''01''" "keyString [] = []" by (simp_all add: keyString_def hexDigit_def)
  let ?w' = "?w(''build-output-deps:'' \<mapsto> ''d'', ''build-output:'' \<mapsto> ''o'')"
  have run: "ensureFAliasesLocked memExt [] [CHR 0x01] ?w = (None, ?w')"
    by (simp add: ensureFAliasesLocked_def memExt_def hex)
  from aliases_deps_before_output [OF memExt_ref_store run]
  have "xGetKey memExt ?w' ''build-output-deps:'' = Inr (Some ''d'')"
    "xGetKey memExt ?w' ''build-output:'' = Inr (Some ''o'')"
    by (simp_all add: hex memExt_def)
  with run show ?thesis by (simp add: memExt_def)
qed

end
