(* ===== verification/SchedNode.thy ===== *)
theory SchedNode
  imports SchedStore "HOL-Library.Monad_Syntax"
begin

text \<open>
  The node engine (\<open>src/sched/node.go\<close>): joining and unfolding nodes, the buildvalue
  orchestrator, completion, enqueueing and interest.

  \<open>require\<close>, \<open>unfoldLocked\<close>, \<open>advanceBuildValueLocked\<close> and \<open>nodeDoneLocked\<close> are mutually
  recursive through the whole graph.  Each is a body over the two functions it calls
  back, and \<open>engine\<close> closes the recursion with a depth bound; running out of it is
  \<open>None\<close>.  \<open>SchedEngine\<close> proves that a bound computed from the state is always enough.

  \<open>propagateInterest\<close>, \<open>cycleChainLocked\<close> and the walk of \<open>dropInterestLocked\<close> are
  recursions over node references with a visited set; here they run on an explicit
  stack in the same order.  Interest propagation and the interest walk have the
  same result in every order; where the order of a map iteration shows, \<open>xOrd\<close> picks
  it.  A map entry inserted into \<open>dependents\<close> while the completion loop runs over it
  is not visited by that loop.
\<close>

section \<open>Interest\<close>

lemma card_less_subset_insert:
  "r < b \<Longrightarrow> P r \<Longrightarrow> \<not> Q r \<Longrightarrow> (\<And>u. Q u \<Longrightarrow> P u) \<Longrightarrow> card {u. u < (b::nat) \<and> Q u} < card {u. u < b \<and> P u}"
  by (rule psubset_card_mono) auto

function propWalk :: "nref \<Rightarrow> (nref \<Rightarrow> node) \<Rightarrow> string set \<Rightarrow> nref list \<Rightarrow> (nref \<Rightarrow> node)" where
  "propWalk b h ids [] = h"
| "propWalk b h ids (r # st) =
     (if r < b \<and> \<not> ids \<subseteq> nInterest (h r)
      then propWalk b (h(r := (h r)\<lparr>nInterest := nInterest (h r) \<union> ids\<rparr>)) ids (nDeps (h r) @ st)
      else propWalk b h ids st)"
  by pat_completeness auto

termination
proof (relation "measures [\<lambda>(b, h, ids, st). card {r. r < b \<and> \<not> ids \<subseteq> nInterest (h r)}, \<lambda>(b, h, ids, st). length st]",
    goal_cases)
  case (2 b h ids r st)
  then have "card {u. u < b \<and> \<not> ids \<subseteq> nInterest ((h(r := (h r)\<lparr>nInterest := nInterest (h r) \<union> ids\<rparr>)) u)}
      < card {u. u < b \<and> \<not> ids \<subseteq> nInterest (h u)}"
    by (intro card_less_subset_insert [of r]) (auto split: if_splits)
  then show ?case by simp
qed auto

definition propagateInterest :: "nref \<Rightarrow> string set \<Rightarrow> 'st sched \<Rightarrow> 'st sched" where
  "propagateInterest r ids s = s\<lparr>sHeap := propWalk (sNext s) (sHeap s) ids [r]\<rparr>"

text \<open>Eviction of one node that nobody wants: purge its queued message, leave the table,
  unlink from its deps, drop its log and status.\<close>

definition dropNodeLogLocked :: "string \<Rightarrow> 'st sched \<Rightarrow> 'st sched" where
  "dropNodeLogLocked name s = s\<lparr>sLogs := AList.delete name (sLogs s)\<rparr>"

definition unlinkDeps :: "nref \<Rightarrow> 'st sched \<Rightarrow> 'st sched" where
  "unlinkDeps r s = s\<lparr>sHeap := (\<lambda>d. if d \<in> set (nDeps (sHeap s r))
       then (sHeap s d)\<lparr>nDependents := removeAll r (nDependents (sHeap s d))\<rparr> else sHeap s d)\<rparr>"

definition evictNode :: "nref \<Rightarrow> 'st sched \<Rightarrow> 'st sched" where
  "evictNode r s =
     (let n = sHeap s r in
      if nInterest n \<noteq> {} then s
      else if sNodes s (nId n) \<noteq> Some r then s
      else
        (let s1 = (if nQueueSeq n \<noteq> 0 \<and> (nPhase n = PhaseQueued \<or> nPhase n = PhaseRunning)
                   then emit (JobPurged (nQueueSeq n)) s else s);
             s2 = s1\<lparr>sNodes := (sNodes s1)(nId n := None)\<rparr>
         in purgeNodeStatusLocked (nName n) (dropNodeLogLocked (nName n) (unlinkDeps r s2))))"

definition dropInterestLocked :: "'st ext \<Rightarrow> string \<Rightarrow> nref option \<Rightarrow> 'st sched \<Rightarrow> 'st sched" where
  "dropInterestLocked x rid target s =
     (case target of
        None \<Rightarrow> s
      | Some t \<Rightarrow>
          (let seen = dfs (sNext s) (\<lambda>r. nDeps (sHeap s r)) [t] [];
               s1 = s\<lparr>sHeap := (\<lambda>r. if r \<in> set seen then (sHeap s r)\<lparr>nInterest := nInterest (sHeap s r) - {rid}\<rparr>
                                    else sHeap s r)\<rparr>
           in bumpLocked (fold evictNode (xOrd x s1 seen) s1)))"

section \<open>Cycle detection\<close>

function cycleWalk :: "nref \<Rightarrow> (nref \<Rightarrow> nref list) \<Rightarrow> (nref \<Rightarrow> node) \<Rightarrow> nodeID \<Rightarrow> (nref \<times> string list) list \<Rightarrow> nref set
    \<Rightarrow> string list option" where
  "cycleWalk b succ h target [] seen = None"
| "cycleWalk b succ h target ((r, path) # st) seen =
     (if \<not> r < b \<or> r \<in> seen then cycleWalk b succ h target st seen
      else if nId (h r) = target then Some (nName (h r) # path)
      else cycleWalk b succ h target (map (\<lambda>d. (d, nName (h r) # path)) (succ r) @ st) (insert r seen))"
  by pat_completeness auto

termination
proof (relation "measures [\<lambda>(b, succ, h, target, st, seen). card ({..<b} - seen), \<lambda>(b, succ, h, target, st, seen). length st]",
    goal_cases)
  case (3 b succ h target r path st seen)
  then have "card ({..<b} - insert r seen) < card ({..<b} - seen)"
    by (intro psubset_card_mono) auto
  then show ?case by simp
qed auto

definition cycleChainLocked :: "'st ext \<Rightarrow> nref \<Rightarrow> nodeID \<Rightarrow> 'st sched \<Rightarrow> string list option" where
  "cycleChainLocked x from target s =
     cycleWalk (sNext s) (\<lambda>r. xOrd x s (nDependents (sHeap s r))) (sHeap s) target [(from, [])] {}"

fun joinArrow :: "string list \<Rightarrow> string" where
  "joinArrow [] = []"
| "joinArrow [n] = n"
| "joinArrow (n # m # ns) = n @ '' -> '' @ joinArrow (m # ns)"

section \<open>Enqueueing\<close>

definition requirementLocked :: "'st sched \<Rightarrow> nref \<Rightarrow> Resources" where
  "requirementLocked s r =
     (let n = sHeap s r;
          base = ResMax (DefaultFor (resKind (fst (nId n)))) (nPinnedRes n)
      in fold (\<lambda>d req.
           if fst (nId (sHeap s d)) \<noteq> KindBuildValue then req
           else fold (\<lambda>(rid, rq) req.
                  if rid \<in> nInterest (sHeap s d) \<and> \<not> rqCancelled rq \<and> rqK rq = snd (nId (sHeap s d))
                  then ResMax req (rqRes rq) else req) (sRequests s) req)
         (nDependents n) base)"

definition armReenqueueLocked :: "nref \<Rightarrow> int \<Rightarrow> 'st sched \<Rightarrow> 'st sched" where
  "armReenqueueLocked r d s =
     s\<lparr>sTimers := sTimers s @ [\<lparr>tmNode = r, tmId = nId (sHeap s r), tmGen = nGen (sHeap s r), tmDelay = d\<rparr>]\<rparr>"

definition ensureLaneLocked :: "'st ext \<Rightarrow> string \<Rightarrow> string \<Rightarrow> 'st sched \<Rightarrow> 'st sched" where
  "ensureLaneLocked x platform cls s =
     (let name = ConsumerName platform cls in
      if name \<in> sLanes s then s
      else (let (ok, w) = xEnsureLane x name (sW s); s1 = s\<lparr>sW := w\<rparr>
            in if ok then s1\<lparr>sLanes := insert name (sLanes s1)\<rparr> else s1))"

text \<open>The next attempt: a new generation with the attempt's fields reset, and its job.\<close>

definition startAttempt :: "'st ext \<Rightarrow> nref \<Rightarrow> 'st sched \<Rightarrow> 'st sched" where
  "startAttempt x r s =
     (let (t, s1) = timeNow x s in
      upd r (\<lambda>n. n\<lparr>nGen := nGen n + 1, nRunner := [], nStartedAt := 0, nEnqueuedAt := t, nQueueSeq := 0\<rparr>) s1)"

definition attemptJob :: "'st sched \<Rightarrow> nref \<Rightarrow> string list \<Rightarrow> Job" where
  "attemptJob s r pullRefs =
     (let n = sHeap s r; req = requirementLocked s r in
      \<lparr>jNode = nName n, jKind = kindString (fst (nId n)), jKey = snd (nId n), jGen = nGen n,
       jPlatform = nPlatform n, jClass = fst (ClassFor req),
       jDef = (if fst (nId n) \<in> {KindImport, KindBuildFrom} then nDef n else []),
       jPullRefs = pullRefs, jCPUMilli = CPUMilli req, jMemBytes = MemBytes req\<rparr>)"

definition publishJob :: "'st ext \<Rightarrow> nref \<Rightarrow> Job \<Rightarrow> 'st sched \<Rightarrow> 'st sched" where
  "publishJob x r job s =
     (let subject = JobsSubject (jPlatform job) (jClass job);
          msgID = JobMsgID (jNode job) (jGen job);
          (ack, w) = xPublish x subject msgID job (sW s);
          s1 = s\<lparr>sW := w\<rparr>
      in case ack of
           None \<Rightarrow>
             if sClosed s1 \<or> xCtxErr x (sW s1) then s1
             else armReenqueueLocked r (sRetryBase s1) (upd r (\<lambda>n. n\<lparr>nPhase := PhaseWaiting\<rparr>) s1)
         | Some seq \<Rightarrow>
             bumpLocked (putNodeStatusLocked r
               (upd r (\<lambda>n. n\<lparr>nQueueSeq := seq, nPhase := PhaseQueued\<rparr>) (emit (JobPublished subject msgID job) s1))))"

definition enqueueLocked :: "'st ext \<Rightarrow> nref \<Rightarrow> 'st sched \<Rightarrow> 'st sched" where
  "enqueueLocked x r s =
     (if sClosed s then s
      else
        (let s1 = startAttempt x r s;
             (pull, w) = computePullRefsLocked x (sHeap s1 r) (sW s1);
             s2 = s1\<lparr>sW := w\<rparr>
         in case pull of
              Inl err \<Rightarrow> failNodeLocked x r (''compute pull refs: '' @ err) s2
            | Inr pullRefs \<Rightarrow>
                (let job = attemptJob s1 r pullRefs
                 in publishJob x r job (ensureLaneLocked x (jPlatform job) (jClass job) s2))))"

definition maybeEnqueueLocked :: "'st ext \<Rightarrow> nref \<Rightarrow> 'st sched \<Rightarrow> 'st sched" where
  "maybeEnqueueLocked x r s =
     (let n = sHeap s r in
      if \<not> placeable (fst (nId n)) \<or> nPhase n \<noteq> PhaseWaiting \<or> nInterest n = {} then s
      else if list_ex (\<lambda>d. nPhase (sHeap s d) \<noteq> PhaseDone) (nDeps n) then s
      else enqueueLocked x r s)"

section \<open>The recursive operations\<close>

type_synonym 'st requireFn = "kind \<Rightarrow> key \<Rightarrow> bytes \<Rightarrow> string \<Rightarrow> nref option \<Rightarrow> string set option \<Rightarrow> string \<Rightarrow> 'st sched
  \<Rightarrow> (nref \<times> 'st sched) option"
type_synonym 'st advanceFn = "nref \<Rightarrow> 'st sched \<Rightarrow> 'st sched option"

primrec foldOpt :: "('a \<Rightarrow> 's \<Rightarrow> 's option) \<Rightarrow> 'a list \<Rightarrow> 's \<Rightarrow> 's option" where
  "foldOpt f [] s = Some s"
| "foldOpt f (a # as) s = do { s1 \<leftarrow> f a s; foldOpt f as s1 }"

text \<open>A call of \<open>require\<close> whose node is not used.\<close>

definition requireDep :: "'st requireFn \<Rightarrow> kind \<Rightarrow> key \<Rightarrow> bytes \<Rightarrow> string \<Rightarrow> nref \<Rightarrow> string \<Rightarrow> 'st sched \<Rightarrow> 'st sched option" where
  "requireDep R kd k def platform parent label s = map_option snd (R kd k def platform (Some parent) None label s)"

definition onDepDoneLocked :: "'st ext \<Rightarrow> 'st advanceFn \<Rightarrow> nref \<Rightarrow> 'st sched \<Rightarrow> 'st sched option" where
  "onDepDoneLocked x A d s =
     (if fst (nId (sHeap s d)) = KindBuildValue then A d s else Some (maybeEnqueueLocked x d s))"

definition nodeDoneLocked :: "'st ext \<Rightarrow> 'st advanceFn \<Rightarrow> nref \<Rightarrow> 'st sched \<Rightarrow> 'st sched option" where
  "nodeDoneLocked x A r s =
     (if nPhase (sHeap s r) = PhaseDone then Some s
      else
        (let (t, s1) = timeNow x s;
             s2 = upd r (\<lambda>n. n\<lparr>nPhase := PhaseDone, nDoneAt := t, nErrSummary := []\<rparr>) s1;
             s3 = bumpLocked (putNodeStatusLocked r s2)
         in foldOpt (onDepDoneLocked x A) (xOrd x s3 (nDependents (sHeap s3 r))) s3))"

definition requireInputLocked :: "'st ext \<Rightarrow> 'st requireFn \<Rightarrow> nref \<Rightarrow> Input \<Rightarrow> string \<Rightarrow> 'st sched \<Rightarrow> 'st sched option" where
  "requireInputLocked x R parent inp label s =
     (if inKind inp = ''import'' then
        (case xFileKey x (inDefinition inp) of
           Inl err \<Rightarrow> Some (failNodeLocked x parent (''input key: '' @ err) s)
         | Inr k \<Rightarrow> requireDep R KindImport k (inDefinition inp) (nPlatform (sHeap s parent)) parent label s)
      else if inKind inp = ''build'' then
        (case xFileKey x (inDefinition inp) of
           Inl err \<Rightarrow> Some (failNodeLocked x parent (''input key: '' @ err) s)
         | Inr k \<Rightarrow>
             (case cycleChainLocked x parent (KindBuildValue, k) s of
                Some chain \<Rightarrow> Some (failNodeLocked x parent (''sub-build cycle: '' @ joinArrow chain) s)
              | None \<Rightarrow>
                  (let platform = (case xDecDef x (inDefinition inp) of
                         Inr d \<Rightarrow> if dfPlatform d \<noteq> [] then dfPlatform d else nPlatform (sHeap s parent)
                       | Inl _ \<Rightarrow> nPlatform (sHeap s parent))
                   in requireDep R KindBuildValue k (inDefinition inp) platform parent label s)))
      else if inKind inp = ''tree'' then Some s
      else Some (failNodeLocked x parent (''unknown input kind: '' @ inKind inp) s))"

text \<open>The fields an unfolding takes from the decoded definition or pin.\<close>

definition importFields :: "ImportDefinition \<Rightarrow> nref \<Rightarrow> 'st sched \<Rightarrow> 'st sched" where
  "importFields d r = upd r (\<lambda>n. n\<lparr>nPlatform := (if imPlatform d \<noteq> [] then imPlatform d else nPlatform n),
     nLabel := (if nLabel n = [] then ''fetch '' @ imFetcher d else nLabel n)\<rparr>)"

definition buildFields :: "Definition \<Rightarrow> nref \<Rightarrow> 'st sched \<Rightarrow> 'st sched" where
  "buildFields d r = upd r (\<lambda>n. n\<lparr>nPlatform := (if dfPlatform d \<noteq> [] then dfPlatform d else nPlatform n),
     nLabel := (if nLabel n = [] \<and> dfDir d \<noteq> [] then dfDir d else nLabel n)\<rparr>)"

definition runFields :: "Pinned \<Rightarrow> nref \<Rightarrow> 'st sched \<Rightarrow> 'st sched" where
  "runFields pinned r = upd r (\<lambda>n. n\<lparr>nPinnedRes := (case pnResources pinned of Some p \<Rightarrow> Res (prCPUMilli p) (prMemBytes p)
     | None \<Rightarrow> nPinnedRes n), nCaches := pnCaches pinned, nRunInputs := []\<rparr>)"

definition addPinInput :: "Input \<Rightarrow> nref \<Rightarrow> 'st sched \<Rightarrow> 'st sched" where
  "addPinInput inp r = upd r (\<lambda>n. n\<lparr>nPinInputs := nPinInputs n @ [inp]\<rparr>)"

definition addRunInput :: "Input \<Rightarrow> nref \<Rightarrow> 'st sched \<Rightarrow> 'st sched" where
  "addRunInput inp r = upd r (\<lambda>n. n\<lparr>nRunInputs := nRunInputs n @ [inp]\<rparr>)"

definition runInput :: "PinnedInput \<Rightarrow> Input" where
  "runInput pi = \<lparr>inKind = piKind pi, inDefinition = piDefinition pi\<rparr>"

definition unfoldImport :: "'st ext \<Rightarrow> 'st requireFn \<Rightarrow> nref \<Rightarrow> 'st sched \<Rightarrow> 'st sched option" where
  "unfoldImport x R r s =
     (if nDef (sHeap s r) = [] then Some (failNodeLocked x r ''import definition unavailable (defs travel in-band)'' s)
      else (case xDecImport x (nDef (sHeap s r)) of
        Inl err \<Rightarrow> Some (failNodeLocked x r (''decode import def: '' @ err) s)
      | Inr d \<Rightarrow>
          (let s1 = importFields d r s in
           if imFetcherDef d = [] then Some s1
           else (case xFileKey x (imFetcherDef d) of
             Inl err \<Rightarrow> Some (failNodeLocked x r (''fetcher build def key: '' @ err) s1)
           | Inr fk \<Rightarrow> requireDep R KindBuildValue fk (imFetcherDef d) (nPlatform (sHeap s1 r)) r (''fetcher '' @ imFetcher d) s1))))"

definition unfoldBuildFrom :: "'st ext \<Rightarrow> 'st requireFn \<Rightarrow> nref \<Rightarrow> 'st sched \<Rightarrow> 'st sched option" where
  "unfoldBuildFrom x R r s =
     (if nDef (sHeap s r) = [] then Some (failNodeLocked x r ''build definition unavailable (defs travel in-band)'' s)
      else (case xDecDef x (nDef (sHeap s r)) of
        Inl err \<Rightarrow> Some (failNodeLocked x r (''decode build def: '' @ err) s)
      | Inr d \<Rightarrow>
          requireInputLocked x R r (dfSource d) [] (buildFields d r s)))"

definition sortedNamedInputs :: "(string \<times> Input) list \<Rightarrow> (string \<times> Input) list \<Rightarrow> (string \<times> Input) list" where
  "sortedNamedInputs plugins deps = sort_key fst plugins @ sort_key fst deps"

definition unfoldPin :: "'st ext \<Rightarrow> 'st requireFn \<Rightarrow> nref \<Rightarrow> 'st sched \<Rightarrow> 'st sched option" where
  "unfoldPin x R r s =
     (case readPluginResolvedLocked x (snd (nId (sHeap s r))) (sW s) of
        Inl err \<Rightarrow> Some (failNodeLocked x r (''read build-plugin-resolved: '' @ err) s)
      | Inr pr \<Rightarrow>
          foldOpt (\<lambda>ni s. requireInputLocked x R r (snd ni) (fst ni) (addPinInput (snd ni) r s))
            (sortedNamedInputs (plPlugins pr) (plDeps pr)) (upd r (\<lambda>n. n\<lparr>nPinInputs := []\<rparr>) s))"

definition unfoldBuildRun :: "'st ext \<Rightarrow> 'st requireFn \<Rightarrow> nref \<Rightarrow> 'st sched \<Rightarrow> 'st sched option" where
  "unfoldBuildRun x R r s =
     (case readPinnedLocked x (snd (nId (sHeap s r))) (sW s) of
        Inl err \<Rightarrow> Some (failNodeLocked x r (''read build-pinned: '' @ err) s)
      | Inr pinned \<Rightarrow>
          foldOpt (\<lambda>pi s. requireInputLocked x R r (runInput pi) (piName pi) (addRunInput (runInput pi) r s))
            (pnInputs pinned) (runFields pinned r s))"

definition unfoldLocked :: "'st ext \<Rightarrow> 'st requireFn \<Rightarrow> 'st advanceFn \<Rightarrow> nref \<Rightarrow> 'st sched \<Rightarrow> 'st sched option" where
  "unfoldLocked x R A r s =
     (case fst (nId (sHeap s r)) of
        KindImport \<Rightarrow> unfoldImport x R r s
      | KindBuildFrom \<Rightarrow> unfoldBuildFrom x R r s
      | KindPluginResolve \<Rightarrow> Some s
      | KindPin \<Rightarrow> unfoldPin x R r s
      | KindBuildRun \<Rightarrow> unfoldBuildRun x R r s
      | KindBuildValue \<Rightarrow> A r s)"

text \<open>One stage of the orchestrator: require the stage node and go on only when it is done.\<close>

definition stage :: "'st requireFn \<Rightarrow> kind \<Rightarrow> key \<Rightarrow> bytes \<Rightarrow> nref \<Rightarrow> ('st sched \<Rightarrow> 'st sched option) \<Rightarrow> 'st sched \<Rightarrow> 'st sched option" where
  "stage R kd k def bv cont s =
     do { (r, s1) \<leftarrow> R kd k def (nPlatform (sHeap s bv)) (Some bv) None (nLabel (sHeap s bv)) s;
          if nPhase (sHeap s1 r) \<noteq> PhaseDone then Some s1 else cont s1 }"

definition resolveF :: "'st ext \<Rightarrow> nref \<Rightarrow> ('st sched \<Rightarrow> 'st sched option) \<Rightarrow> 'st sched \<Rightarrow> 'st sched option" where
  "resolveF x bv cont s =
     (if nF (sHeap s bv) \<noteq> None then cont s
      else (case xGetKey x (sW s) (''build-from:'' @ keyString (snd (nId (sHeap s bv)))) of
        Inl err \<Rightarrow> Some (failNodeLocked x bv (''resolve F: '' @ err) s)
      | Inr None \<Rightarrow> Some (failNodeLocked x bv (''build-from:'' @ keyString (snd (nId (sHeap s bv))) @ '' missing after buildfrom done'') s)
      | Inr (Some f) \<Rightarrow> cont (upd bv (\<lambda>n. n\<lparr>nF := Some f\<rparr>) s)))"

definition resolveKP :: "'st ext \<Rightarrow> nref \<Rightarrow> ('st sched \<Rightarrow> 'st sched option) \<Rightarrow> 'st sched \<Rightarrow> 'st sched option" where
  "resolveKP x bv cont s =
     (if nKP (sHeap s bv) \<noteq> None then cont s
      else (case resolveKPLocked x (the (nF (sHeap s bv))) (sW s) of
        (Inl err, w) \<Rightarrow> Some (failNodeLocked x bv (''resolve KP: '' @ err) (s\<lparr>sW := w\<rparr>))
      | (Inr kp, w) \<Rightarrow> cont (upd bv (\<lambda>n. n\<lparr>nKP := Some kp\<rparr>) (s\<lparr>sW := w\<rparr>))))"

definition finishBuildValue :: "'st ext \<Rightarrow> 'st advanceFn \<Rightarrow> nref \<Rightarrow> 'st sched \<Rightarrow> 'st sched option" where
  "finishBuildValue x A bv s =
     (case ensureFAliasesLocked x (the (nF (sHeap s bv))) (the (nKP (sHeap s bv))) (sW s) of
        (Some err, w) \<Rightarrow> Some (failNodeLocked x bv (''write build-output aliases: '' @ err) (s\<lparr>sW := w\<rparr>))
      | (None, w) \<Rightarrow> nodeDoneLocked x A bv (s\<lparr>sW := w\<rparr>))"

definition advanceBuildValueLocked :: "'st ext \<Rightarrow> 'st requireFn \<Rightarrow> 'st advanceFn \<Rightarrow> nref \<Rightarrow> 'st sched \<Rightarrow> 'st sched option" where
  "advanceBuildValueLocked x R A bv s =
     (if nPhase (sHeap s bv) = PhaseDone \<or> nPhase (sHeap s bv) = PhaseFailed then Some s
      else stage R KindBuildFrom (snd (nId (sHeap s bv))) (nDef (sHeap s bv)) bv
        (resolveF x bv (\<lambda>s. stage R KindPluginResolve (the (nF (sHeap s bv))) [] bv
          (\<lambda>s. stage R KindPin (the (nF (sHeap s bv))) [] bv
            (resolveKP x bv (\<lambda>s. stage R KindBuildRun (the (nKP (sHeap s bv))) [] bv
              (finishBuildValue x A bv) s)) s) s)) s)"

text \<open>\<open>require\<close> up to the doneness check: get or create the node, fill its missing
  fields, link it under the parent and spread the interest.\<close>

definition newNode :: "'st ext \<Rightarrow> nodeID \<Rightarrow> 'st sched \<Rightarrow> nref \<times> 'st sched" where
  "newNode x i s =
     (let (g, s1) = genSeed x s; r = sNext s1
      in (r, s1\<lparr>sHeap := (sHeap s1)(r := emptyNode\<lparr>nId := i, nGen := g\<rparr>), sNext := Suc r, sNodes := (sNodes s1)(i := Some r)\<rparr>))"

definition fillNode :: "bytes \<Rightarrow> string \<Rightarrow> string \<Rightarrow> nref \<Rightarrow> 'st sched \<Rightarrow> 'st sched" where
  "fillNode def platform label r s =
     upd r (\<lambda>n. n\<lparr>nDef := (if nDef n = [] \<and> def \<noteq> [] then def else nDef n),
                   nPlatform := (if nPlatform n = [] then platform else nPlatform n),
                   nLabel := (if nLabel n = [] then label else nLabel n)\<rparr>) s"

definition linkDep :: "nref \<Rightarrow> nref \<Rightarrow> 'st sched \<Rightarrow> 'st sched" where
  "linkDep p r s =
     (if r \<in> set (nDeps (sHeap s p)) then s
      else upd r (\<lambda>n. n\<lparr>nDependents := List.insert p (nDependents n)\<rparr>)
             (upd p (\<lambda>n. n\<lparr>nDeps := nDeps n @ [r]\<rparr>) s))"

definition linkParent :: "nref option \<Rightarrow> nref \<Rightarrow> 'st sched \<Rightarrow> 'st sched" where
  "linkParent parent r s =
     (case parent of None \<Rightarrow> s
      | Some p \<Rightarrow> (let s1 = linkDep p r s in propagateInterest r (nInterest (sHeap s1 p)) s1))"

definition addExtra :: "string set option \<Rightarrow> nref \<Rightarrow> 'st sched \<Rightarrow> 'st sched" where
  "addExtra extra r s = (case extra of None \<Rightarrow> s | Some ids \<Rightarrow> propagateInterest r ids s)"

definition joinNode :: "'st ext \<Rightarrow> kind \<Rightarrow> key \<Rightarrow> bytes \<Rightarrow> string \<Rightarrow> nref option \<Rightarrow> string set option \<Rightarrow> string \<Rightarrow> 'st sched
    \<Rightarrow> nref \<times> 'st sched" where
  "joinNode x kd k def platform parent extra label s =
     (let (r, s1) = (case sNodes s (kd, k) of Some r \<Rightarrow> (r, s) | None \<Rightarrow> newNode x (kd, k) s)
      in (r, addExtra extra r (linkParent parent r (fillNode def platform label r s1))))"

definition requireBody :: "'st ext \<Rightarrow> 'st requireFn \<Rightarrow> 'st advanceFn \<Rightarrow> 'st requireFn" where
  "requireBody x R A kd k def platform parent extra label s =
     (let (r, s1) = joinNode x kd k def platform parent extra label s
      in if sNodes s (kd, k) \<noteq> None then Some (r, s1)
         else (case outputExistsLocked x r s1 of
           (Inl err, s2) \<Rightarrow> Some (r, bumpLocked (failNodeLocked x r (''doneness check: '' @ err) s2))
         | (Inr True, s2) \<Rightarrow>
             Some (r, bumpLocked (putNodeStatusLocked r (upd r (\<lambda>n. n\<lparr>nPhase := PhaseDone, nCached := True\<rparr>) s2)))
         | (Inr False, s2) \<Rightarrow>
             do { s3 \<leftarrow> unfoldLocked x R A r s2; Some (r, bumpLocked (maybeEnqueueLocked x r s3)) }))"

primrec engine :: "'st ext \<Rightarrow> nat \<Rightarrow> 'st requireFn \<times> 'st advanceFn" where
  "engine x 0 = (\<lambda>kd k def platform parent extra label s. None, \<lambda>r s. None)"
| "engine x (Suc n) =
     (requireBody x (fst (engine x n)) (snd (engine x n)),
      advanceBuildValueLocked x (fst (engine x n)) (snd (engine x n)))"

definition require :: "'st ext \<Rightarrow> nat \<Rightarrow> 'st requireFn" where
  "require x n = fst (engine x n)"

definition advance :: "'st ext \<Rightarrow> nat \<Rightarrow> 'st advanceFn" where
  "advance x n = snd (engine x n)"

section \<open>Labels\<close>

definition applyRecipeLabelLocked :: "nref \<Rightarrow> RefProposal list \<Rightarrow> 'st sched \<Rightarrow> 'st sched" where
  "applyRecipeLabelLocked r refs s =
     (case find (\<lambda>p. pLabel p \<noteq> [] \<and> HasPrefix (pName p) ''build-pinned:'') refs of
        None \<Rightarrow> s
      | Some p \<Rightarrow>
          s\<lparr>sHeap := (\<lambda>d. if d = r \<or> (d \<in> set (nDependents (sHeap s r)) \<and> fst (nId (sHeap s d)) = KindBuildValue)
                          then (sHeap s d)\<lparr>nLabel := pLabel p\<rparr> else sHeap s d)\<rparr>)"

end
