(* ===== verification/SchedGraph.thy ===== *)
theory SchedGraph
  imports SchedNode
begin

text \<open>
  The invariant of the scheduler's node graph, and that joining a node keeps it.

  \<open>sOK T s\<close> says of a state \<open>s\<close> whose live requests have the targets \<open>T\<close>: the table maps
  an identity to an allocated node of that identity; a node is in the table
  exactly when somebody wants it; the deps of a table node are table nodes that
  list it as a dependent, and the other way round; interest is inherited by
  deps; and every interest comes from a live request whose target reaches the node.

  The measure \<open>mu\<close> bounds the recursion of the node engine: creating a node uses up
  one of the finitely many identities (a key has 32 bytes), and completing a node
  takes it out of the unfinished ones.
\<close>

section \<open>Steps that leave the graph alone\<close>

definition keyStep :: "key option \<Rightarrow> key option \<Rightarrow> bool" where
  "keyStep a b \<longleftrightarrow> (a \<noteq> None \<longrightarrow> b \<noteq> None) \<and> (\<forall>f. b = Some f \<longrightarrow> a = Some f \<or> length f = 32)"

lemma keyStep_refl [simp]: "keyStep a a" by (simp add: keyStep_def)

lemma keyStep_trans: "keyStep a b \<Longrightarrow> keyStep b c \<Longrightarrow> keyStep a c"
  by (auto simp: keyStep_def)

definition sameNode :: "node \<Rightarrow> node \<Rightarrow> bool" where
  "sameNode n n' \<longleftrightarrow>
     nId n' = nId n \<and> nDeps n' = nDeps n \<and> nDependents n' = nDependents n \<and> nInterest n' = nInterest n
     \<and> (nPhase n = PhaseDone \<longrightarrow> nPhase n' = PhaseDone) \<and> keyStep (nF n) (nF n') \<and> keyStep (nKP n) (nKP n')"

text \<open>The watchers and their channels.\<close>

definition watching :: "'st sched \<Rightarrow> chan list \<times> watcher list" where
  [simp]: "watching s = (sChans s, sWatchers s)"

definition sameGraph :: "'st sched \<Rightarrow> 'st sched \<Rightarrow> bool" where
  "sameGraph s s' \<longleftrightarrow>
     sNext s' = sNext s \<and> sNodes s' = sNodes s \<and> sRequests s' = sRequests s \<and> sClosed s' = sClosed s
     \<and> watching s' = watching s \<and> (\<forall>r. sameNode (sHeap s r) (sHeap s' r))"

lemma sameNode_refl: "sameNode n n"
  by (simp add: sameNode_def)

lemma sameNode_trans: "sameNode n n' \<Longrightarrow> sameNode n' n'' \<Longrightarrow> sameNode n n''"
  unfolding sameNode_def by (auto intro: keyStep_trans)

lemma sameGraph_refl: "sameGraph s s"
  by (simp add: sameGraph_def sameNode_refl)

lemma sameGraph_trans:
  assumes "sameGraph s s'" and "sameGraph s' s''"
  shows "sameGraph s s''"
  using assms unfolding sameGraph_def by (metis sameNode_trans)

lemma sameGraph_fields:
  assumes "sNext s' = sNext s" "sNodes s' = sNodes s" "sRequests s' = sRequests s" "sClosed s' = sClosed s" "sHeap s' = sHeap s"
    "watching s' = watching s"
  shows "sameGraph s s'"
  using assms by (simp add: sameGraph_def sameNode_def)

lemma sameGraph_upd:
  assumes "\<And>n. nId (f n) = nId n \<and> nDeps (f n) = nDeps n \<and> nDependents (f n) = nDependents n \<and> nInterest (f n) = nInterest n"
    and "nPhase (sHeap s r) = PhaseDone \<longrightarrow> nPhase (f (sHeap s r)) = PhaseDone"
    and "\<And>n. keyStep (nF n) (nF (f n)) \<and> keyStep (nKP n) (nKP (f n))"
  shows "sameGraph s (upd r f s)"
  using assms by (auto simp: sameGraph_def sameNode_def upd_def)

lemma sameGraph_emit: "sameGraph s (emit ev s)"
  by (rule sameGraph_fields) (simp_all add: emit_def)

lemma sameGraph_bump: "sameGraph s (bumpLocked s)"
  by (rule sameGraph_fields) (simp_all add: bumpLocked_def)

lemma sameGraph_putNodeStatus: "sameGraph s (putNodeStatusLocked r s)"
  by (simp add: putNodeStatusLocked_def Let_def sameGraph_emit)

lemma sameGraph_W: "sameGraph s (s\<lparr>sW := w\<rparr>)"
  by (rule sameGraph_fields) simp_all

lemma timeNow_eq: "timeNow x s = (fst (xNow x (sW s)), s\<lparr>sW := snd (xNow x (sW s))\<rparr>)"
  by (simp add: timeNow_def case_prod_beta)

lemma sameGraph_after:
  "sameGraph s s' \<Longrightarrow> sameGraph s (emit ev s')"
  "sameGraph s s' \<Longrightarrow> sameGraph s (bumpLocked s')"
  "sameGraph s s' \<Longrightarrow> sameGraph s (putNodeStatusLocked r s')"
  "sameGraph s s' \<Longrightarrow> sameGraph s (s'\<lparr>sW := w\<rparr>)"
  by (blast intro: sameGraph_trans sameGraph_emit sameGraph_bump sameGraph_putNodeStatus sameGraph_W)+

lemma sameGraph_record: "sameGraph s (recordFailureLocked x r res origin disp summary backoff s)"
  unfolding recordFailureLocked_def
  by (auto simp: Let_def timeNow_eq split: prod.splits option.splits if_splits
      intro!: sameGraph_after sameGraph_refl)

lemma sameGraph_phase_failed:
  assumes "nPhase (sHeap s r) \<noteq> PhaseDone"
  shows "sameGraph s (upd r (\<lambda>n. n\<lparr>nPhase := PhaseFailed, nErrSummary := e, nDoneAt := t\<rparr>) s)"
  by (rule sameGraph_upd) (use assms in simp_all)

lemma sameGraph_failAttr: "sameGraph s (failNodeAttrLocked x r res origin summary s)"
proof (cases "nPhase (sHeap s r) = PhaseFailed \<or> nPhase (sHeap s r) = PhaseDone")
  case True
  then show ?thesis by (simp add: failNodeAttrLocked_def sameGraph_refl)
next
  case False
  let ?s1 = "s\<lparr>sW := snd (xNow x (sW s))\<rparr>"
  let ?s2 = "upd r (\<lambda>n. n\<lparr>nPhase := PhaseFailed, nErrSummary := summary, nDoneAt := fst (xNow x (sW s))\<rparr>) ?s1"
  have "nPhase (sHeap ?s1 r) \<noteq> PhaseDone" using False by simp
  from sameGraph_trans [OF sameGraph_W sameGraph_phase_failed [OF this]]
  have "sameGraph s ?s2" .
  from sameGraph_trans [OF this sameGraph_record]
  have "sameGraph s (recordFailureLocked x r res origin FailDispositionFailed summary 0 ?s2)" .
  then show ?thesis using False by (simp add: failNodeAttrLocked_def timeNow_eq Let_def sameGraph_after)
qed

lemma sameGraph_fail: "sameGraph s (failNodeLocked x r summary s)"
  by (simp add: failNodeLocked_def sameGraph_failAttr)

lemma sameGraph_lane: "sameGraph s (ensureLaneLocked x p c s)"
  by (auto simp: ensureLaneLocked_def Let_def split: prod.splits intro!: sameGraph_fields)

lemma sameGraph_arm: "sameGraph s (armReenqueueLocked r d s)"
  by (rule sameGraph_fields) (simp_all add: armReenqueueLocked_def)

lemmas sameGraph_ops = sameGraph_refl sameGraph_emit sameGraph_bump sameGraph_putNodeStatus sameGraph_W
  sameGraph_record sameGraph_fail sameGraph_failAttr sameGraph_lane sameGraph_arm

text \<open>Enqueueing moves a node that is not done to queued, waiting or failed.\<close>

lemma sameGraph_phase:
  assumes "nPhase (sHeap s r) \<noteq> PhaseDone"
  shows "sameGraph s (upd r (\<lambda>n. n\<lparr>nPhase := p\<rparr>) s)"
    "sameGraph s (upd r (\<lambda>n. n\<lparr>nQueueSeq := q, nPhase := p\<rparr>) s)"
  by (rule sameGraph_upd; use assms in simp)+

lemma sameGraph_start: "sameGraph s (startAttempt x r s)"
proof -
  have "sameGraph s0 (upd r (\<lambda>n. n\<lparr>nGen := nGen n + 1, nRunner := [], nStartedAt := 0, nEnqueuedAt := t, nQueueSeq := 0\<rparr>) s0)"
    for t and s0 :: "'a sched"
    by (rule sameGraph_upd) simp_all
  from sameGraph_trans [OF sameGraph_W this] show ?thesis
    by (simp add: startAttempt_def timeNow_eq)
qed

lemma sameGraph_publish:
  assumes "nPhase (sHeap s r) \<noteq> PhaseDone"
  shows "sameGraph s (publishJob x r job s)"
proof -
  obtain ack w where q: "xPublish x (JobsSubject (jPlatform job) (jClass job)) (JobMsgID (jNode job) (jGen job)) job (sW s) = (ack, w)"
    by fastforce
  let ?s1 = "s\<lparr>sW := w\<rparr>"
  let ?s2 = "emit (JobPublished (JobsSubject (jPlatform job) (jClass job)) (JobMsgID (jNode job) (jGen job)) job) ?s1"
  have p: "nPhase (sHeap ?s1 r) \<noteq> PhaseDone" "nPhase (sHeap ?s2 r) \<noteq> PhaseDone" using assms by (simp_all add: emit_def)
  have "sameGraph s (upd r (\<lambda>n. n\<lparr>nQueueSeq := seq, nPhase := PhaseQueued\<rparr>) ?s2)" for seq
    by (rule sameGraph_trans [OF sameGraph_after(1) [OF sameGraph_W] sameGraph_phase(2) [OF p(2)]])
  moreover have "sameGraph s (armReenqueueLocked r d (upd r (\<lambda>n. n\<lparr>nPhase := PhaseWaiting\<rparr>) ?s1))" for d
    by (rule sameGraph_trans [OF sameGraph_trans [OF sameGraph_W sameGraph_phase(1) [OF p(1)]] sameGraph_arm])
  ultimately show ?thesis
    by (simp add: publishJob_def q Let_def sameGraph_after sameGraph_W split: option.splits)
qed

lemma sameGraph_enqueue:
  assumes "nPhase (sHeap s r) \<noteq> PhaseDone"
  shows "sameGraph s (enqueueLocked x r s)"
proof -
  obtain pull w where p: "computePullRefsLocked x (sHeap (startAttempt x r s) r) (sW (startAttempt x r s)) = (pull, w)"
    by fastforce
  let ?s2 = "(startAttempt x r s)\<lparr>sW := w\<rparr>"
  have s2: "sameGraph s ?s2" by (rule sameGraph_after(4) [OF sameGraph_start])
  have ph: "nPhase (sHeap ?s2 r) \<noteq> PhaseDone"
    using assms by (simp add: startAttempt_def upd_def timeNow_eq)
  have lane: "sameGraph s (ensureLaneLocked x a b ?s2)" "nPhase (sHeap (ensureLaneLocked x a b ?s2) r) \<noteq> PhaseDone" for a b
    using sameGraph_trans [OF s2 sameGraph_lane] ph by (simp_all add: ensureLaneLocked_def Let_def split: prod.splits)
  have "sameGraph s (publishJob x r job (ensureLaneLocked x a b ?s2))" for job a b
    by (rule sameGraph_trans [OF lane(1) sameGraph_publish [OF lane(2)]])
  moreover have "sameGraph s (failNodeLocked x r e ?s2)" for e
    by (rule sameGraph_trans [OF s2 sameGraph_fail])
  ultimately show ?thesis
    by (simp add: enqueueLocked_def p Let_def sameGraph_refl split: sum.splits)
qed

lemma sameGraph_maybe: "sameGraph s (maybeEnqueueLocked x r s)"
  by (auto simp: maybeEnqueueLocked_def Let_def sameGraph_refl sameGraph_enqueue)

section \<open>The invariant\<close>

definition live :: "'st sched \<Rightarrow> nref \<Rightarrow> bool" where
  "live s r \<longleftrightarrow> sNodes s (nId (sHeap s r)) = Some r"

definition edges :: "'st sched \<Rightarrow> (nref \<times> nref) set" where
  "edges s = {(u, v). v \<in> set (nDeps (sHeap s u))}"

definition tableOK :: "'st sched \<Rightarrow> bool" where
  "tableOK s \<longleftrightarrow> (\<forall>i r. sNodes s i = Some r \<longrightarrow> r < sNext s \<and> nId (sHeap s r) = i \<and> length (snd i) = 32)"

definition linksOK :: "'st sched \<Rightarrow> bool" where
  "linksOK s \<longleftrightarrow>
     (\<forall>r d. live s r \<longrightarrow> d \<in> set (nDeps (sHeap s r)) \<longrightarrow> live s d \<and> r \<in> set (nDependents (sHeap s d)))
     \<and> (\<forall>r p. live s r \<longrightarrow> p \<in> set (nDependents (sHeap s r)) \<longrightarrow> live s p \<and> r \<in> set (nDeps (sHeap s p)))
     \<and> (\<forall>r d. r < sNext s \<longrightarrow> d \<in> set (nDeps (sHeap s r)) \<longrightarrow> d < sNext s)"

definition wantedOK :: "nref set \<Rightarrow> 'st sched \<Rightarrow> bool" where
  "wantedOK X s \<longleftrightarrow> (\<forall>r. r < sNext s \<longrightarrow> r \<notin> X \<longrightarrow> (nInterest (sHeap s r) \<noteq> {} \<longleftrightarrow> live s r))"

definition closedOK :: "'st sched \<Rightarrow> bool" where
  "closedOK s \<longleftrightarrow> (\<forall>r d. live s r \<longrightarrow> d \<in> set (nDeps (sHeap s r)) \<longrightarrow> nInterest (sHeap s r) \<subseteq> nInterest (sHeap s d))"

definition rootedOK :: "(string \<Rightarrow> nref option) \<Rightarrow> 'st sched \<Rightarrow> bool" where
  "rootedOK T s \<longleftrightarrow>
     (\<forall>r rid. r < sNext s \<longrightarrow> rid \<in> nInterest (sHeap s r) \<longrightarrow> (\<exists>t. T rid = Some t \<and> (t, r) \<in> (edges s)\<^sup>*))"

definition targetsOK :: "(string \<Rightarrow> nref option) \<Rightarrow> 'st sched \<Rightarrow> bool" where
  "targetsOK T s \<longleftrightarrow> (\<forall>rid t. T rid = Some t \<longrightarrow> live s t \<and> rid \<in> nInterest (sHeap s t))"

definition keysOK :: "'st sched \<Rightarrow> bool" where
  "keysOK s \<longleftrightarrow> (\<forall>r f. nF (sHeap s r) = Some f \<or> nKP (sHeap s r) = Some f \<longrightarrow> length f = 32)"

definition sOK :: "(string \<Rightarrow> nref option) \<Rightarrow> 'st sched \<Rightarrow> bool" where
  "sOK T s \<longleftrightarrow> tableOK s \<and> linksOK s \<and> wantedOK {} s \<and> closedOK s \<and> rootedOK T s \<and> targetsOK T s \<and> keysOK s"

lemma live_less: "tableOK s \<Longrightarrow> live s r \<Longrightarrow> r < sNext s"
  unfolding tableOK_def live_def by blast

lemma tableOK_newSched: "sOK (\<lambda>_. None) (newSched w)"
  by (simp add: sOK_def tableOK_def linksOK_def wantedOK_def closedOK_def rootedOK_def targetsOK_def keysOK_def
      newSched_def live_def emptyNode_def)

lemma sOK_D:
  assumes "sOK T s"
  shows "tableOK s" "linksOK s" "wantedOK {} s" "closedOK s" "rootedOK T s" "targetsOK T s" "keysOK s"
  using assms by (simp_all add: sOK_def)

lemma linksOK_D:
  assumes "linksOK s" "live s r"
  shows "d \<in> set (nDeps (sHeap s r)) \<Longrightarrow> live s d" "d \<in> set (nDeps (sHeap s r)) \<Longrightarrow> r \<in> set (nDependents (sHeap s d))"
    "p \<in> set (nDependents (sHeap s r)) \<Longrightarrow> live s p" "p \<in> set (nDependents (sHeap s r)) \<Longrightarrow> r \<in> set (nDeps (sHeap s p))"
  using assms(1) [unfolded linksOK_def, THEN conjunct1, rule_format, OF assms(2)]
    assms(1) [unfolded linksOK_def, THEN conjunct2, THEN conjunct1, rule_format, OF assms(2)]
  by simp_all

lemma linksOK_less: "linksOK s \<Longrightarrow> r < sNext s \<Longrightarrow> d \<in> set (nDeps (sHeap s r)) \<Longrightarrow> d < sNext s"
  unfolding linksOK_def by blast

lemma reach_live:
  assumes "linksOK s" "live s t" "(t, r) \<in> (edges s)\<^sup>*"
  shows "live s r"
  using assms(3,2) by (induction rule: rtrancl_induct) (auto simp: edges_def intro: linksOK_D(1) [OF assms(1)])

lemma closedOK_reach:
  assumes "linksOK s" "closedOK s" "live s t" "(t, r) \<in> (edges s)\<^sup>*"
  shows "nInterest (sHeap s t) \<subseteq> nInterest (sHeap s r)"
  using assms(4)
proof (induction rule: rtrancl_induct)
  case (step y z)
  then have "live s y" using assms(1,3) reach_live by blast
  with step assms(2) show ?case by (fastforce simp: edges_def closedOK_def)
qed simp

lemma sameGraph_live: "sameGraph s s' \<Longrightarrow> live s' r \<longleftrightarrow> live s r"
  by (simp add: sameGraph_def sameNode_def live_def)

lemma sameGraph_edges: "sameGraph s s' \<Longrightarrow> edges s' = edges s"
  by (simp add: sameGraph_def sameNode_def edges_def)

lemma sameGraph_keysOK:
  assumes g: "sameGraph s s'" and k: "keysOK s"
  shows "keysOK s'"
  unfolding keysOK_def
proof (intro allI impI)
  fix r f assume f: "nF (sHeap s' r) = Some f \<or> nKP (sHeap s' r) = Some f"
  have "keyStep (nF (sHeap s r)) (nF (sHeap s' r))" "keyStep (nKP (sHeap s r)) (nKP (sHeap s' r))"
    using g by (simp_all add: sameGraph_def sameNode_def)
  with f have "nF (sHeap s r) = Some f \<or> nKP (sHeap s r) = Some f \<or> length f = 32"
    unfolding keyStep_def by blast
  then show "length f = 32" using k unfolding keysOK_def by blast
qed

lemma sameGraph_sOK:
  assumes g: "sameGraph s s'" and ok: "sOK T s"
  shows "sOK T s'"
proof -
  note l = sameGraph_live [OF g] and e = sameGraph_edges [OF g]
  have f: "sNext s' = sNext s" "sNodes s' = sNodes s" "\<And>r. nId (sHeap s' r) = nId (sHeap s r)"
    "\<And>r. nDeps (sHeap s' r) = nDeps (sHeap s r)" "\<And>r. nDependents (sHeap s' r) = nDependents (sHeap s r)"
    "\<And>r. nInterest (sHeap s' r) = nInterest (sHeap s r)"
    using g by (simp_all add: sameGraph_def sameNode_def)
  have "tableOK s' = tableOK s" "linksOK s' = linksOK s" "wantedOK {} s' = wantedOK {} s" "closedOK s' = closedOK s"
    "rootedOK T s' = rootedOK T s" "targetsOK T s' = targetsOK T s"
    unfolding tableOK_def linksOK_def wantedOK_def closedOK_def rootedOK_def targetsOK_def f l e by (rule refl)+
  moreover have "keysOK s'" using sameGraph_keysOK [OF g sOK_D(7) [OF ok]] .
  ultimately show ?thesis using sOK_D [OF ok] by (simp only: sOK_def)
qed

section \<open>Spreading interest\<close>

lemma propWalk_frame:
  "propWalk b h ids st r = (h r)\<lparr>nInterest := nInterest (propWalk b h ids st r)\<rparr>
   \<and> nInterest (h r) \<subseteq> nInterest (propWalk b h ids st r)
   \<and> nInterest (propWalk b h ids st r) \<subseteq> nInterest (h r) \<union> ids"
proof (induction b h ids st rule: propWalk.induct)
  case (2 b h ids u st)
  show ?case
  proof (cases "u < b \<and> \<not> ids \<subseteq> nInterest (h u)")
    case True
    define H where "H = h(u := (h u)\<lparr>nInterest := nInterest (h u) \<union> ids\<rparr>)"
    have eq: "propWalk b h ids (u # st) = propWalk b H ids (nDeps (h u) @ st)" using True by (simp add: H_def)
    have ih: "propWalk b H ids (nDeps (h u) @ st) r = (H r)\<lparr>nInterest := nInterest (propWalk b H ids (nDeps (h u) @ st) r)\<rparr>"
      "nInterest (H r) \<subseteq> nInterest (propWalk b H ids (nDeps (h u) @ st) r)"
      "nInterest (propWalk b H ids (nDeps (h u) @ st) r) \<subseteq> nInterest (H r) \<union> ids"
      using 2(1) [OF True] unfolding H_def by blast+
    have "nInterest (h r) \<subseteq> nInterest (H r)" "nInterest (H r) \<subseteq> nInterest (h r) \<union> ids"
      and e: "\<And>i. (H r)\<lparr>nInterest := i\<rparr> = (h r)\<lparr>nInterest := i\<rparr>"
      by (auto simp: H_def)
    with ih(2,3) ih(1) [unfolded e] show ?thesis unfolding eq by (intro conjI; assumption?) blast+
  qed (use 2(2) in auto)
qed simp

lemma propWalk_stack: "r \<in> set st \<Longrightarrow> r < b \<Longrightarrow> ids \<subseteq> nInterest (propWalk b h ids st r)"
proof (induction b h ids st rule: propWalk.induct)
  case (2 b h ids u st)
  show ?case
  proof (cases "u < b \<and> \<not> ids \<subseteq> nInterest (h u)")
    case True
    define H where "H = h(u := (h u)\<lparr>nInterest := nInterest (h u) \<union> ids\<rparr>)"
    have eq: "propWalk b h ids (u # st) = propWalk b H ids (nDeps (h u) @ st)" using True by (simp add: H_def)
    have "ids \<subseteq> nInterest (H u)" by (simp add: H_def)
    then have "ids \<subseteq> nInterest (propWalk b H ids (nDeps (h u) @ st) u)"
      using propWalk_frame [of b H ids "nDeps (h u) @ st" u] by blast
    moreover have "ids \<subseteq> nInterest (propWalk b H ids (nDeps (h u) @ st) r)" if "r \<in> set st"
      using 2(1) [OF True, folded H_def] that 2(4) by simp
    ultimately show ?thesis unfolding eq using 2(3) by auto
  next
    case False
    have "nInterest (h u) \<subseteq> nInterest (propWalk b h ids st u)"
      using propWalk_frame [of b h ids st u] by blast
    with 2 False show ?thesis by auto
  qed
qed simp

lemma propWalk_reach:
  "nInterest (propWalk b h ids st r) \<noteq> nInterest (h r) \<Longrightarrow>
     \<exists>u \<in> set st. (u, r) \<in> {(u, v). v \<in> set (nDeps (h u))}\<^sup>*"
proof (induction b h ids st rule: propWalk.induct)
  case (2 b h ids u st)
  show ?case
  proof (cases "u < b \<and> \<not> ids \<subseteq> nInterest (h u)")
    case True
    define H where "H = h(u := (h u)\<lparr>nInterest := nInterest (h u) \<union> ids\<rparr>)"
    have eq: "propWalk b h ids (u # st) = propWalk b H ids (nDeps (h u) @ st)" using True by (simp add: H_def)
    have same: "nDeps (H v) = nDeps (h v)" for v by (simp add: H_def)
    show ?thesis
    proof (cases "r = u")
      case False
      then have "H r = h r" by (simp add: H_def)
      with 2(3) have "nInterest (propWalk b H ids (nDeps (h u) @ st) r) \<noteq> nInterest (H r)" unfolding eq by simp
      from 2(1) [OF True, folded H_def, OF this] obtain v
        where v: "v \<in> set (nDeps (h u) @ st)" "(v, r) \<in> {(u, v). v \<in> set (nDeps (h u))}\<^sup>*"
        unfolding same by blast
      then show ?thesis
        by (cases "v \<in> set st") (auto intro: converse_rtrancl_into_rtrancl)
    qed auto
  next
    case False
    then have "propWalk b h ids (u # st) = propWalk b h ids st" by auto
    with 2(2) [OF False] 2(3) show ?thesis by simp
  qed
qed simp

lemma propWalk_closed:
  assumes "\<And>u d. P u \<Longrightarrow> d \<in> set (nDeps (h u)) \<Longrightarrow>
      d < b \<and> nInterest (h u) \<subseteq> nInterest (h d) \<union> (if d \<in> set st then ids else {})"
    and "P u" and "d \<in> set (nDeps (h u))"
  shows "nInterest (propWalk b h ids st u) \<subseteq> nInterest (propWalk b h ids st d)"
  using assms
proof (induction b h ids st rule: propWalk.induct)
  case (2 b h ids v st)
  show ?case
  proof (cases "v < b \<and> \<not> ids \<subseteq> nInterest (h v)")
    case True
    define H where "H = h(v := (h v)\<lparr>nInterest := nInterest (h v) \<union> ids\<rparr>)"
    have eq: "propWalk b h ids (v # st) = propWalk b H ids (nDeps (h v) @ st)" using True by (simp add: H_def)
    have same: "nDeps (H w) = nDeps (h w)" for w by (simp add: H_def)
    show ?thesis unfolding eq
    proof (rule 2(1) [OF True, folded H_def])
      fix a e assume a: "P a" "e \<in> set (nDeps (H a))"
      then have "e < b \<and> nInterest (h a) \<subseteq> nInterest (h e) \<union> (if e \<in> set (v # st) then ids else {})"
        using 2(3) unfolding same by blast
      with a show "e < b \<and> nInterest (H a) \<subseteq> nInterest (H e) \<union> (if e \<in> set (nDeps (h v) @ st) then ids else {})"
        by (auto simp: H_def split: if_splits)
    qed (use 2(4,5) in \<open>simp_all add: same\<close>)
  next
    case False
    then have eq: "propWalk b h ids (v # st) = propWalk b h ids st" by auto
    show ?thesis unfolding eq
    proof (rule 2(2) [OF False])
      fix a e assume a: "P a" "e \<in> set (nDeps (h a))"
      then have "e < b \<and> nInterest (h a) \<subseteq> nInterest (h e) \<union> (if e \<in> set (v # st) then ids else {})" by (rule 2(3))
      with False show "e < b \<and> nInterest (h a) \<subseteq> nInterest (h e) \<union> (if e \<in> set st then ids else {})"
        by (auto split: if_splits)
    qed (use 2(4,5) in simp_all)
  qed
qed auto

lemma propagate_frame:
  shows "sNext (propagateInterest r ids s) = sNext s" "sNodes (propagateInterest r ids s) = sNodes s"
    "sRequests (propagateInterest r ids s) = sRequests s" "sClosed (propagateInterest r ids s) = sClosed s"
    "sChans (propagateInterest r ids s) = sChans s" "sWatchers (propagateInterest r ids s) = sWatchers s"
    "nId (sHeap (propagateInterest r ids s) u) = nId (sHeap s u)"
    "nDeps (sHeap (propagateInterest r ids s) u) = nDeps (sHeap s u)"
    "nDependents (sHeap (propagateInterest r ids s) u) = nDependents (sHeap s u)"
    "nPhase (sHeap (propagateInterest r ids s) u) = nPhase (sHeap s u)"
    "nF (sHeap (propagateInterest r ids s) u) = nF (sHeap s u)"
    "nKP (sHeap (propagateInterest r ids s) u) = nKP (sHeap s u)"
proof -
  have eq: "sHeap (propagateInterest r ids s) u = (sHeap s u)\<lparr>nInterest := nInterest (sHeap (propagateInterest r ids s) u)\<rparr>"
    using propWalk_frame [of "sNext s" "sHeap s" ids "[r]" u] by (simp add: propagateInterest_def)
  show "nId (sHeap (propagateInterest r ids s) u) = nId (sHeap s u)"
    "nDeps (sHeap (propagateInterest r ids s) u) = nDeps (sHeap s u)"
    "nDependents (sHeap (propagateInterest r ids s) u) = nDependents (sHeap s u)"
    "nPhase (sHeap (propagateInterest r ids s) u) = nPhase (sHeap s u)"
    "nF (sHeap (propagateInterest r ids s) u) = nF (sHeap s u)"
    "nKP (sHeap (propagateInterest r ids s) u) = nKP (sHeap s u)"
    using arg_cong [where f = nId, OF eq] arg_cong [where f = nDeps, OF eq] arg_cong [where f = nDependents, OF eq]
      arg_cong [where f = nPhase, OF eq] arg_cong [where f = nF, OF eq] arg_cong [where f = nKP, OF eq]
    by simp_all
qed (simp_all add: propagateInterest_def)

lemma propagate_interest:
  "nInterest (sHeap s u) \<subseteq> nInterest (sHeap (propagateInterest r ids s) u)"
  "nInterest (sHeap (propagateInterest r ids s) u) \<subseteq> nInterest (sHeap s u) \<union> ids"
  "nInterest (sHeap (propagateInterest r ids s) u) \<noteq> nInterest (sHeap s u) \<Longrightarrow> (r, u) \<in> (edges s)\<^sup>*"
  "r < sNext s \<Longrightarrow> ids \<subseteq> nInterest (sHeap (propagateInterest r ids s) r)"
  using propWalk_frame [of "sNext s" "sHeap s" ids "[r]" u] propWalk_reach [of "sNext s" "sHeap s" ids "[r]" u]
    propWalk_stack [of r "[r]" "sNext s" ids "sHeap s"]
  by (simp_all add: propagateInterest_def edges_def)

lemma propagate_live: "live (propagateInterest r ids s) u \<longleftrightarrow> live s u"
  by (simp add: live_def propagate_frame)

lemma propagate_edges: "edges (propagateInterest r ids s) = edges s"
  by (simp add: edges_def propagate_frame)

text \<open>Spreading the interest of a parent or of a request from \<open>r\<close> repairs the one edge
  and the one node that may lack it.\<close>

lemma propagate_sOK:
  assumes t: "tableOK s" and l: "linksOK s" and k: "keysOK s" and r: "live s r" and ne: "ids \<noteq> {}"
    and w: "wantedOK {r} s"
    and c: "\<And>u d. live s u \<Longrightarrow> d \<in> set (nDeps (sHeap s u)) \<Longrightarrow>
        nInterest (sHeap s u) \<subseteq> nInterest (sHeap s d) \<union> (if d = r then ids else {})"
    and root: "rootedOK T s" and ids: "\<And>rid. rid \<in> ids \<Longrightarrow> \<exists>t. T rid = Some t \<and> (t, r) \<in> (edges s)\<^sup>*"
    and tg: "\<And>rid t. T rid = Some t \<Longrightarrow> live s t \<and> (rid \<in> nInterest (sHeap s t) \<or> t = r \<and> rid \<in> ids)"
  shows "sOK T (propagateInterest r ids s)"
proof -
  let ?s = "propagateInterest r ids s"
  have rl: "r < sNext s" using live_less [OF t r] .
  note fr = propagate_frame and pl = propagate_live and pe = propagate_edges
  have new: "live s u" if "nInterest (sHeap ?s u) \<noteq> nInterest (sHeap s u)" for u
    using propagate_interest(3) [OF that] reach_live [OF l r] by blast
  have "tableOK ?s" using t unfolding tableOK_def fr .
  moreover have "linksOK ?s" using l unfolding linksOK_def fr pl .
  moreover have "keysOK ?s" using k unfolding keysOK_def fr .
  moreover have "wantedOK {} ?s"
    unfolding wantedOK_def fr pl
  proof (intro allI impI)
    fix u assume u: "u < sNext s"
    show "(nInterest (sHeap ?s u) \<noteq> {}) = live s u"
    proof (cases "u = r")
      case True
      then show ?thesis using propagate_interest(4) [OF rl, of ids] ne r by auto
    next
      case False
      with w u have "(nInterest (sHeap s u) \<noteq> {}) = live s u" by (simp add: wantedOK_def)
      then show ?thesis using new [of u] propagate_interest(1) [of s u r ids] by auto
    qed
  qed
  moreover have "closedOK ?s"
    unfolding closedOK_def fr pl
  proof (intro allI impI)
    fix u d assume u: "live s u" and d: "d \<in> set (nDeps (sHeap s u))"
    have "nInterest (propWalk (sNext s) (sHeap s) ids [r] u) \<subseteq> nInterest (propWalk (sNext s) (sHeap s) ids [r] d)"
    proof (rule propWalk_closed [where P = "live s" and h = "sHeap s", OF _ u d])
      fix u d assume u: "live s u" and d: "d \<in> set (nDeps (sHeap s u))"
      show "d < sNext s \<and> nInterest (sHeap s u) \<subseteq> nInterest (sHeap s d) \<union> (if d \<in> set [r] then ids else {})"
        using c [OF u d] live_less [OF t linksOK_D(1) [OF l u d]] by simp
    qed
    then show "nInterest (sHeap ?s u) \<subseteq> nInterest (sHeap ?s d)" by (simp add: propagateInterest_def)
  qed
  moreover have "rootedOK T ?s"
    unfolding rootedOK_def fr pe
  proof (intro allI impI)
    fix u rid assume u: "u < sNext s" and rid: "rid \<in> nInterest (sHeap ?s u)"
    show "\<exists>t. T rid = Some t \<and> (t, u) \<in> (edges s)\<^sup>*"
    proof (cases "rid \<in> nInterest (sHeap s u)")
      case True
      then show ?thesis using root u by (simp add: rootedOK_def)
    next
      case False
      then have "(r, u) \<in> (edges s)\<^sup>*" "rid \<in> ids" using rid propagate_interest(2,3) [of r ids s u] by auto
      then show ?thesis using ids [of rid] by (meson rtrancl_trans)
    qed
  qed
  moreover have "targetsOK T ?s"
    unfolding targetsOK_def pl using tg propagate_interest(4) [OF rl] propagate_interest(1) [of s _ r ids] by blast
  ultimately show ?thesis by (simp only: sOK_def)
qed


section \<open>Growth and the measure\<close>

definition allIDs :: "nodeID set" where
  "allIDs = {i. length (snd i) = 32}"

lemma finite_allIDs: "finite allIDs"
proof -
  have "UNIV = {KindImport, KindBuildFrom, KindPluginResolve, KindPin, KindBuildRun, KindBuildValue}"
    using kind.exhaust by blast
  then have "finite (UNIV :: kind set)" by (metis finite.emptyI finite.insertI)
  moreover have "finite {k :: char list. length k = 32}"
    using finite_lists_length_eq [of "UNIV :: char set" 32] by simp
  ultimately have "finite ((UNIV :: kind set) \<times> {k :: char list. length k = 32})" by (rule finite_cartesian_product)
  then show ?thesis by (rule rev_finite_subset) (auto simp: allIDs_def)
qed

definition unfinished :: "'st sched \<Rightarrow> nref set" where
  "unfinished s = {r. r < sNext s \<and> nPhase (sHeap s r) \<noteq> PhaseDone}"

definition mu :: "'st sched \<Rightarrow> nat" where
  "mu s = 3 * card (allIDs - dom (sNodes s)) + card (unfinished s)"

lemma finite_unfinished: "finite (unfinished s)"
  by (rule finite_subset [of _ "{..<sNext s}"]) (auto simp: unfinished_def)

definition grow :: "'st sched \<Rightarrow> 'st sched \<Rightarrow> bool" where
  "grow s s' \<longleftrightarrow>
     sNodes s \<subseteq>\<^sub>m sNodes s' \<and> sNext s \<le> sNext s' \<and> sRequests s' = sRequests s \<and> sClosed s' = sClosed s \<and> mu s' \<le> mu s
     \<and> watching s' = watching s
     \<and> (\<forall>r. r < sNext s \<longrightarrow> nId (sHeap s' r) = nId (sHeap s r)
          \<and> (nPhase (sHeap s r) = PhaseDone \<longrightarrow> nPhase (sHeap s' r) = PhaseDone)
          \<and> (nF (sHeap s r) \<noteq> None \<longrightarrow> nF (sHeap s' r) \<noteq> None) \<and> (nKP (sHeap s r) \<noteq> None \<longrightarrow> nKP (sHeap s' r) \<noteq> None)
          \<and> nInterest (sHeap s r) \<subseteq> nInterest (sHeap s' r))"

lemma grow_refl: "grow s s"
  by (simp add: grow_def)

lemma grow_node:
  assumes "grow s s'" "r < sNext s"
  shows "nId (sHeap s' r) = nId (sHeap s r)" "nPhase (sHeap s r) = PhaseDone \<Longrightarrow> nPhase (sHeap s' r) = PhaseDone"
    "nInterest (sHeap s r) \<subseteq> nInterest (sHeap s' r)" "r < sNext s'"
    "nF (sHeap s r) \<noteq> None \<Longrightarrow> nF (sHeap s' r) \<noteq> None" "nKP (sHeap s r) \<noteq> None \<Longrightarrow> nKP (sHeap s' r) \<noteq> None"
  using assms unfolding grow_def by simp_all

lemma grow_trans:
  assumes a: "grow s s'" and b: "grow s' s''"
  shows "grow s s''"
proof -
  have "nId (sHeap s'' r) = nId (sHeap s r) \<and> (nPhase (sHeap s r) = PhaseDone \<longrightarrow> nPhase (sHeap s'' r) = PhaseDone)
      \<and> (nF (sHeap s r) \<noteq> None \<longrightarrow> nF (sHeap s'' r) \<noteq> None) \<and> (nKP (sHeap s r) \<noteq> None \<longrightarrow> nKP (sHeap s'' r) \<noteq> None)
      \<and> nInterest (sHeap s r) \<subseteq> nInterest (sHeap s'' r)" if "r < sNext s" for r
    using grow_node [OF a that] grow_node [OF b grow_node(4) [OF a that]] by simp
  moreover have "sNodes s \<subseteq>\<^sub>m sNodes s''"
    using a b unfolding grow_def by (blast intro: map_le_trans)
  moreover have "sNext s \<le> sNext s''" "sRequests s'' = sRequests s" "sClosed s'' = sClosed s" "mu s'' \<le> mu s" "watching s'' = watching s"
    using a b unfolding grow_def by simp_all
  ultimately show ?thesis unfolding grow_def by blast
qed

lemma grow_mu: "grow s s' \<Longrightarrow> mu s' \<le> mu s"
  by (simp add: grow_def)

lemma grow_live:
  assumes "grow s s'" "tableOK s" "live s r"
  shows "live s' r" "nId (sHeap s' r) = nId (sHeap s r)"
proof -
  have "r < sNext s" using live_less assms(2,3) .
  then show i: "nId (sHeap s' r) = nId (sHeap s r)" using assms(1) by (simp add: grow_def)
  have "sNodes s \<subseteq>\<^sub>m sNodes s'" using assms(1) by (simp add: grow_def)
  then show "live s' r" using assms(3) unfolding live_def i map_le_def by (metis domI)
qed

lemma sameGraph_mu: "sameGraph s s' \<Longrightarrow> mu s' \<le> mu s"
  unfolding mu_def sameGraph_def sameNode_def
  by (auto simp: unfinished_def intro!: card_mono finite_unfinished [unfolded unfinished_def])

lemma sameGraph_grow: "sameGraph s s' \<Longrightarrow> grow s s'"
  by (simp add: grow_def sameGraph_mu) (simp add: sameGraph_def sameNode_def keyStep_def)

lemma propagate_mu: "mu (propagateInterest r ids s) = mu s"
  by (simp add: mu_def unfinished_def propagate_frame)

lemma propagate_grow: "grow s (propagateInterest r ids s)"
  by (simp add: grow_def propagate_mu propagate_frame propagate_interest(1))

section \<open>Joining a node\<close>

lemma sameGraph_fill: "sameGraph s (fillNode def platform label r s)"
  unfolding fillNode_def by (rule sameGraph_upd) simp_all

lemma newNode_eq:
  "newNode x i s = (sNext s, s\<lparr>sW := snd (xNow x (sW s)), sHeap := (sHeap s)(sNext s := emptyNode\<lparr>nId := i, nGen := word_of_int (fst (xNow x (sW s)))\<rparr>),
      sNext := Suc (sNext s), sNodes := (sNodes s)(i := Some (sNext s))\<rparr>)"
  by (simp add: newNode_def genSeed_def timeNow_eq Let_def)

lemma newNode_fields:
  assumes "newNode x i s = (r, s')"
  shows "r = sNext s" "sNext s' = Suc (sNext s)" "sNodes s' = (sNodes s)(i := Some (sNext s))" "sRequests s' = sRequests s"
    "sClosed s' = sClosed s" "nId (sHeap s' (sNext s)) = i" "nDeps (sHeap s' (sNext s)) = []" "nDependents (sHeap s' (sNext s)) = []"
    "nInterest (sHeap s' (sNext s)) = {}" "nPhase (sHeap s' (sNext s)) = PhaseWaiting" "nF (sHeap s' (sNext s)) = None"
    "nKP (sHeap s' (sNext s)) = None" "u \<noteq> sNext s \<Longrightarrow> sHeap s' u = sHeap s u"
    "sChans s' = sChans s" "sWatchers s' = sWatchers s"
  using assms by (auto simp: newNode_eq emptyNode_def)

text \<open>What holds of the state in which \<open>r\<close> has been found or created but not yet linked:
  everything but somebody's interest in \<open>r\<close>.\<close>

definition preOK :: "(string \<Rightarrow> nref option) \<Rightarrow> nref \<Rightarrow> 'st sched \<Rightarrow> bool" where
  "preOK T r s \<longleftrightarrow> tableOK s \<and> linksOK s \<and> keysOK s \<and> closedOK s \<and> rootedOK T s \<and> targetsOK T s
     \<and> wantedOK {r} s \<and> live s r"

lemma sOK_preOK: "sOK T s \<Longrightarrow> live s r \<Longrightarrow> preOK T r s"
  unfolding sOK_def preOK_def wantedOK_def by blast

lemma newNode_live:
  assumes "newNode x i s = (r, s')" "sNodes s i = None"
  shows "live s' u \<longleftrightarrow> u = sNext s \<or> u \<noteq> sNext s \<and> live s u"
proof (cases "u = sNext s")
  case True
  then show ?thesis using newNode_fields [OF assms(1)] by (simp add: live_def)
next
  case False
  then have h: "sHeap s' u = sHeap s u" by (rule newNode_fields(13) [OF assms(1)])
  show ?thesis
    using False assms(2) unfolding live_def h newNode_fields(3) [OF assms(1)] by (cases "nId (sHeap s u) = i") auto
qed

lemma newNode_rooted:
  assumes ok: "sOK T s" and new: "newNode x i s = (r, s')"
  shows "rootedOK T s'"
proof -
  note f = newNode_fields [OF new]
  have sub: "(edges s)\<^sup>* `` {t} \<subseteq> (edges s')\<^sup>* `` {t}" if "t < sNext s" for t
  proof
    fix u assume "u \<in> (edges s)\<^sup>* `` {t}"
    then have "(t, u) \<in> (edges s)\<^sup>*" by simp
    then have "(t, u) \<in> (edges s')\<^sup>* \<and> u < sNext s"
    proof (induction rule: rtrancl_induct)
      case (step y z)
      then have "sHeap s' y = sHeap s y" using f(13) by simp
      then have "(y, z) \<in> edges s'" using step(2) by (simp add: edges_def)
      moreover have "z < sNext s" using step linksOK_less [OF sOK_D(2) [OF ok], of y z] by (simp add: edges_def)
      ultimately show ?case using step(3) by (meson rtrancl.rtrancl_into_rtrancl)
    qed (use that in simp)
    then show "u \<in> (edges s')\<^sup>* `` {t}" by simp
  qed
  show ?thesis unfolding rootedOK_def
  proof (intro allI impI)
    fix u rid assume u: "u < sNext s'" and rid: "rid \<in> nInterest (sHeap s' u)"
    then have "u \<noteq> sNext s" using f(9) by auto
    then have u': "u < sNext s" "rid \<in> nInterest (sHeap s u)" using u rid f(2,13) by auto
    then obtain t where t: "T rid = Some t" "(t, u) \<in> (edges s)\<^sup>*" using sOK_D(5) [OF ok] unfolding rootedOK_def by blast
    then have "t < sNext s" using sOK_D(6) [OF ok] live_less [OF sOK_D(1) [OF ok]] unfolding targetsOK_def by blast
    with sub t show "\<exists>t. T rid = Some t \<and> (t, u) \<in> (edges s')\<^sup>*" by blast
  qed
qed

lemma newNode_preOK:
  assumes ok: "sOK T s" and k: "length (snd i) = 32" and new: "newNode x i s = (r, s')" and fresh: "sNodes s i = None"
  shows "preOK T r s'"
proof -
  note f = newNode_fields [OF new] and l = newNode_live [OF new fresh]
  note t = sOK_D(1) [OF ok] and L = sOK_D(2) [OF ok]
  have nl: "live s u \<Longrightarrow> u < sNext s" for u using live_less [OF t] .
  have "tableOK s'"
    unfolding tableOK_def
  proof (intro allI impI)
    fix j u assume j: "sNodes s' j = Some u"
    show "u < sNext s' \<and> nId (sHeap s' u) = j \<and> length (snd j) = 32"
    proof (cases "j = i")
      case True
      then show ?thesis using j k f by simp
    next
      case False
      then have "sNodes s j = Some u" using j f(3) by simp
      then have "u < sNext s \<and> nId (sHeap s u) = j \<and> length (snd j) = 32" using t unfolding tableOK_def by blast
      then show ?thesis using f(2,13) by simp
    qed
  qed
  moreover have "linksOK s'"
    unfolding linksOK_def
  proof (intro conjI allI impI)
    fix u d assume u: "live s' u" and d: "d \<in> set (nDeps (sHeap s' u))"
    then have "u \<noteq> sNext s" using f(7) by auto
    then have u: "live s u" "d \<in> set (nDeps (sHeap s u))" using u d f(13) l by auto
    then show "live s' d" using linksOK_D(1) [OF L] l nl by blast
    have "d \<noteq> sNext s" using u linksOK_D(1) [OF L] nl by blast
    then show "u \<in> set (nDependents (sHeap s' d))" using linksOK_D(2) [OF L] u f(13) by simp
  next
    fix u d assume u: "live s' u" and d: "d \<in> set (nDependents (sHeap s' u))"
    then have "u \<noteq> sNext s" using f(8) by auto
    then have u: "live s u" "d \<in> set (nDependents (sHeap s u))" using u d f(13) l by auto
    then show "live s' d" using linksOK_D(3) [OF L] l nl by blast
    have "d \<noteq> sNext s" using u linksOK_D(3) [OF L] nl by blast
    then show "u \<in> set (nDeps (sHeap s' d))" using linksOK_D(4) [OF L] u f(13) by simp
  next
    fix u d assume u: "u < sNext s'" and d: "d \<in> set (nDeps (sHeap s' u))"
    then have "u \<noteq> sNext s" using f(7) by auto
    then show "d < sNext s'" using linksOK_less [OF L, of u d] u d f(2,13) by simp
  qed
  moreover have "keysOK s'"
    unfolding keysOK_def
  proof (intro allI impI)
    fix u k assume "nF (sHeap s' u) = Some k \<or> nKP (sHeap s' u) = Some k"
    moreover from this have "u \<noteq> sNext s" using f(11,12) by auto
    ultimately show "length k = 32" using sOK_D(7) [OF ok] f(13) by (auto simp: keysOK_def)
  qed
  moreover have "closedOK s'"
    unfolding closedOK_def
  proof (intro allI impI)
    fix u d assume u: "live s' u" and d: "d \<in> set (nDeps (sHeap s' u))"
    then have "u \<noteq> sNext s" using f(7) by auto
    then have u: "live s u" "d \<in> set (nDeps (sHeap s u))" "sHeap s' u = sHeap s u" using u d f(13) l by auto
    moreover from u have "d \<noteq> sNext s" using linksOK_D(1) [OF L] nl by blast
    ultimately show "nInterest (sHeap s' u) \<subseteq> nInterest (sHeap s' d)"
      using sOK_D(4) [OF ok] f(13) by (auto simp: closedOK_def)
  qed
  moreover have "targetsOK T s'"
    using sOK_D(6) [OF ok] l nl f(13) unfolding targetsOK_def by (metis nat_neq_iff)
  moreover have "wantedOK {r} s'"
    using sOK_D(3) [OF ok] l f(1,2,13) unfolding wantedOK_def by (simp add: less_Suc_eq)
  moreover have "live s' r" using l f(1) by simp
  ultimately show ?thesis using newNode_rooted [OF ok new] unfolding preOK_def by blast
qed

lemma newNode_mu:
  assumes "newNode x i s = (r, s')" "sNodes s i = None" "length (snd i) = 32"
  shows "mu s' + 2 = mu s"
proof -
  note f = newNode_fields [OF assms(1)]
  have "allIDs - dom (sNodes s) = insert i (allIDs - dom (sNodes s'))" "i \<notin> allIDs - dom (sNodes s')"
    using assms(2,3) f(3) by (auto simp: allIDs_def)
  then have a: "card (allIDs - dom (sNodes s)) = Suc (card (allIDs - dom (sNodes s')))"
    using finite_allIDs by simp
  have "unfinished s' = insert (sNext s) (unfinished s)"
    using f(2,10,13) by (auto simp: unfinished_def less_Suc_eq)
  moreover have "sNext s \<notin> unfinished s" by (simp add: unfinished_def)
  ultimately have "card (unfinished s') = Suc (card (unfinished s))" by (simp add: finite_unfinished)
  with a show ?thesis by (simp add: mu_def)
qed

lemma newNode_grow:
  assumes "newNode x i s = (r, s')" "sNodes s i = None" "length (snd i) = 32"
  shows "grow s s'"
  using newNode_fields [OF assms(1)] newNode_mu [OF assms] assms(2)
  by (auto simp: grow_def map_le_def)

lemma sameGraph_preOK:
  assumes g: "sameGraph s s'" and ok: "preOK T r s"
  shows "preOK T r s'"
proof -
  note l = sameGraph_live [OF g] and e = sameGraph_edges [OF g]
  have f: "sNext s' = sNext s" "sNodes s' = sNodes s" "\<And>r. nId (sHeap s' r) = nId (sHeap s r)"
    "\<And>r. nDeps (sHeap s' r) = nDeps (sHeap s r)" "\<And>r. nDependents (sHeap s' r) = nDependents (sHeap s r)"
    "\<And>r. nInterest (sHeap s' r) = nInterest (sHeap s r)"
    using g by (simp_all add: sameGraph_def sameNode_def)
  have "tableOK s' = tableOK s" "linksOK s' = linksOK s" "wantedOK {r} s' = wantedOK {r} s" "closedOK s' = closedOK s"
    "rootedOK T s' = rootedOK T s" "targetsOK T s' = targetsOK T s" "live s' r = live s r"
    unfolding tableOK_def linksOK_def wantedOK_def closedOK_def rootedOK_def targetsOK_def f l e by (rule refl)+
  moreover have "keysOK s \<Longrightarrow> keysOK s'" by (rule sameGraph_keysOK [OF g])
  ultimately show ?thesis using ok unfolding preOK_def by (simp only:)
qed

definition getNode :: "'st ext \<Rightarrow> nodeID \<Rightarrow> bytes \<Rightarrow> string \<Rightarrow> string \<Rightarrow> 'st sched \<Rightarrow> nref \<times> 'st sched" where
  "getNode x i def platform label s =
     (let (r, s1) = (case sNodes s i of Some r \<Rightarrow> (r, s) | None \<Rightarrow> newNode x i s)
      in (r, fillNode def platform label r s1))"

lemma joinNode_getNode:
  "joinNode x kd k def platform parent extra label s =
     (let (r, s1) = getNode x (kd, k) def platform label s in (r, addExtra extra r (linkParent parent r s1)))"
  by (simp add: joinNode_def getNode_def Let_def split: prod.splits)

lemma getNode_ok:
  assumes ok: "sOK T s" and k: "length (snd i) = 32" and get: "getNode x i def platform label s = (r, s')"
  shows "preOK T r s'" "grow s s'" "nId (sHeap s' r) = i" "sNodes s i = None \<Longrightarrow> mu s' + 2 \<le> mu s"
    "r = (case sNodes s i of Some u \<Rightarrow> u | None \<Rightarrow> sNext s)"
proof -
  have "preOK T r s' \<and> grow s s' \<and> nId (sHeap s' r) = i \<and> (sNodes s i = None \<longrightarrow> mu s' + 2 \<le> mu s)
      \<and> r = (case sNodes s i of Some u \<Rightarrow> u | None \<Rightarrow> sNext s)"
  proof (cases "sNodes s i")
    case None
    obtain u s1 where new: "newNode x i s = (u, s1)" by fastforce
    with get None have r: "r = u" and s': "s' = fillNode def platform label r s1" by (auto simp: getNode_def)
    note fill = sameGraph_fill [of s1 def platform label r, folded s']
    have "preOK T r s'" using sameGraph_preOK [OF fill newNode_preOK [OF ok k new None, folded r]] .
    moreover have "grow s s'" using grow_trans [OF newNode_grow [OF new None k] sameGraph_grow [OF fill]] .
    moreover have "mu s' + 2 \<le> mu s" using newNode_mu [OF new None k] sameGraph_mu [OF fill] by simp
    moreover have "nId (sHeap s' r) = i" using fill newNode_fields(1,6) [OF new] r by (simp add: sameGraph_def sameNode_def)
    ultimately show ?thesis using None newNode_fields(1) [OF new] r by simp
  next
    case (Some u)
    with get have r: "r = u" and s': "s' = fillNode def platform label r s" by (auto simp: getNode_def)
    note fill = sameGraph_fill [of s def platform label r, folded s']
    have id: "nId (sHeap s r) = i" using sOK_D(1) [OF ok] Some r unfolding tableOK_def by blast
    then have "live s r" using Some r by (simp add: live_def)
    then have "preOK T r s'" using sameGraph_preOK [OF fill sOK_preOK [OF ok]] by blast
    then show ?thesis using sameGraph_grow [OF fill] id fill Some r by (simp add: sameGraph_def sameNode_def)
  qed
  then show "preOK T r s'" "grow s s'" "nId (sHeap s' r) = i" "sNodes s i = None \<Longrightarrow> mu s' + 2 \<le> mu s"
    "r = (case sNodes s i of Some u \<Rightarrow> u | None \<Rightarrow> sNext s)" by blast+
qed

lemma linkDep_fields:
  "sNext (linkDep p r s) = sNext s" "sNodes (linkDep p r s) = sNodes s" "sRequests (linkDep p r s) = sRequests s"
  "sClosed (linkDep p r s) = sClosed s" "sChans (linkDep p r s) = sChans s" "sWatchers (linkDep p r s) = sWatchers s"
  "nId (sHeap (linkDep p r s) u) = nId (sHeap s u)" "nInterest (sHeap (linkDep p r s) u) = nInterest (sHeap s u)"
  "nPhase (sHeap (linkDep p r s) u) = nPhase (sHeap s u)" "nF (sHeap (linkDep p r s) u) = nF (sHeap s u)"
  "nKP (sHeap (linkDep p r s) u) = nKP (sHeap s u)"
  "set (nDeps (sHeap (linkDep p r s) u)) = set (nDeps (sHeap s u)) \<union> (if u = p then {r} else {})"
  by (auto simp: linkDep_def upd_def)

lemma linkDep_dependents:
  assumes "linksOK s" "live s p"
  shows "set (nDependents (sHeap (linkDep p r s) u)) = set (nDependents (sHeap s u)) \<union> (if u = r then {p} else {})"
  using linksOK_D(2) [OF assms, of r] by (auto simp: linkDep_def upd_def)

lemma linkDep_live: "live (linkDep p r s) u \<longleftrightarrow> live s u"
  by (simp add: live_def linkDep_fields)

lemma linkDep_edges: "edges (linkDep p r s) = insert (p, r) (edges s)"
  by (auto simp: edges_def linkDep_fields split: if_splits)

lemma linkDep_mu: "mu (linkDep p r s) = mu s"
  by (simp add: mu_def unfinished_def linkDep_fields)

lemma linkDep_grow: "grow s (linkDep p r s)"
  by (simp add: grow_def linkDep_mu linkDep_fields)

lemma linkDep_ok:
  assumes ok: "preOK T r s" and p: "live s p"
  shows "tableOK (linkDep p r s)" "linksOK (linkDep p r s)" "keysOK (linkDep p r s)" "rootedOK T (linkDep p r s)"
    "targetsOK T (linkDep p r s)" "wantedOK {r} (linkDep p r s)"
    "\<And>u d. live s u \<Longrightarrow> d \<in> set (nDeps (sHeap (linkDep p r s) u)) \<Longrightarrow>
        nInterest (sHeap s u) \<subseteq> nInterest (sHeap s d) \<union> (if d = r then nInterest (sHeap s p) else {})"
proof -
  have t: "tableOK s" and L: "linksOK s" and k: "keysOK s" and c: "closedOK s" and root: "rootedOK T s"
    and tg: "targetsOK T s" and w: "wantedOK {r} s" and r: "live s r"
    using ok unfolding preOK_def by blast+
  note f = linkDep_fields and l = linkDep_live
  show "tableOK (linkDep p r s)" using t unfolding tableOK_def f .
  show "keysOK (linkDep p r s)" using k unfolding keysOK_def f .
  show "targetsOK T (linkDep p r s)" using tg unfolding targetsOK_def f l .
  show "wantedOK {r} (linkDep p r s)" using w unfolding wantedOK_def f l .
  have "(edges s)\<^sup>* \<subseteq> (edges (linkDep p r s))\<^sup>*" unfolding linkDep_edges by (rule rtrancl_mono) blast
  then show "rootedOK T (linkDep p r s)" using root unfolding rootedOK_def f by blast
  show "linksOK (linkDep p r s)"
    unfolding linksOK_def f l linkDep_dependents [OF L p]
  proof (intro conjI allI impI)
    fix u d assume u: "live s u" and d: "d \<in> set (nDeps (sHeap s u)) \<union> (if u = p then {r} else {})"
    then show "live s d" using linksOK_D(1) [OF L u] r by (auto split: if_splits)
    show "u \<in> set (nDependents (sHeap s d)) \<union> (if d = r then {p} else {})"
      using d linksOK_D(2) [OF L u] by (auto split: if_splits)
  next
    fix u d assume u: "live s u" and d: "d \<in> set (nDependents (sHeap s u)) \<union> (if u = r then {p} else {})"
    then show "live s d" using linksOK_D(3) [OF L u] p by (auto split: if_splits)
    show "u \<in> set (nDeps (sHeap s d)) \<union> (if d = p then {r} else {})"
      using d linksOK_D(4) [OF L u] by (auto split: if_splits)
  next
    fix u d assume u: "u < sNext s" and d: "d \<in> set (nDeps (sHeap s u)) \<union> (if u = p then {r} else {})"
    then show "d < sNext s" using linksOK_less [OF L u] live_less [OF t r] by (auto split: if_splits)
  qed
  fix u d assume u: "live s u" and d: "d \<in> set (nDeps (sHeap (linkDep p r s) u))"
  then show "nInterest (sHeap s u) \<subseteq> nInterest (sHeap s d) \<union> (if d = r then nInterest (sHeap s p) else {})"
    using c unfolding closedOK_def f by (auto split: if_splits)
qed

text \<open>Linking under a live parent.\<close>

lemma linkParent_ok:
  assumes ok: "preOK T r s" and p: "live s p" and pw: "nInterest (sHeap s p) \<noteq> {}"
  shows "sOK T (linkParent (Some p) r s)" "grow s (linkParent (Some p) r s)"
    "nId (sHeap (linkParent (Some p) r s) u) = nId (sHeap s u)" "nPhase (sHeap (linkParent (Some p) r s) u) = nPhase (sHeap s u)"
    "sNodes (linkParent (Some p) r s) = sNodes s" "mu (linkParent (Some p) r s) = mu s"
proof -
  have t: "tableOK s" and root: "rootedOK T s" and tg: "targetsOK T s" and r: "live s r"
    using ok unfolding preOK_def by blast+
  have eq: "linkParent (Some p) r s = propagateInterest r (nInterest (sHeap s p)) (linkDep p r s)"
    by (simp add: linkParent_def linkDep_fields Let_def)
  note k = linkDep_ok [OF ok p]
  show "sOK T (linkParent (Some p) r s)"
    unfolding eq
  proof (rule propagate_sOK [OF k(1,2,3) _ pw k(6)])
    show "live (linkDep p r s) r" using r by (simp add: linkDep_live)
    fix u d assume "live (linkDep p r s) u" and "d \<in> set (nDeps (sHeap (linkDep p r s) u))"
    then show "nInterest (sHeap (linkDep p r s) u)
        \<subseteq> nInterest (sHeap (linkDep p r s) d) \<union> (if d = r then nInterest (sHeap s p) else {})"
      using k(7) unfolding linkDep_live linkDep_fields by blast
  next
    show "rootedOK T (linkDep p r s)" by (rule k(4))
    fix rid assume "rid \<in> nInterest (sHeap s p)"
    then obtain t where tt: "T rid = Some t" "(t, p) \<in> (edges s)\<^sup>*"
      using root live_less [OF t p] unfolding rootedOK_def by blast
    have "(t, p) \<in> (edges (linkDep p r s))\<^sup>*"
      using tt(2) unfolding linkDep_edges by (rule set_mp [OF rtrancl_mono, rotated]) blast
    moreover have "(p, r) \<in> edges (linkDep p r s)" by (simp add: linkDep_edges)
    ultimately show "\<exists>t. T rid = Some t \<and> (t, r) \<in> (edges (linkDep p r s))\<^sup>*"
      using tt(1) by (meson rtrancl.rtrancl_into_rtrancl)
  next
    fix rid t assume "T rid = Some t"
    then show "live (linkDep p r s) t \<and> (rid \<in> nInterest (sHeap (linkDep p r s) t) \<or> t = r \<and> rid \<in> nInterest (sHeap s p))"
      using tg unfolding targetsOK_def linkDep_live linkDep_fields by blast
  qed
  show "grow s (linkParent (Some p) r s)"
    unfolding eq by (rule grow_trans [OF linkDep_grow propagate_grow])
qed (simp_all add: linkParent_def Let_def propagate_frame linkDep_fields propagate_mu linkDep_mu)

text \<open>A request's interest enters at its target.\<close>

lemma addExtra_ok:
  assumes ok: "preOK T r s" and rid: "T rid = None"
  shows "sOK (T(rid \<mapsto> r)) (addExtra (Some {rid}) r s)" "grow s (addExtra (Some {rid}) r s)"
    "nId (sHeap (addExtra (Some {rid}) r s) u) = nId (sHeap s u)" "sNodes (addExtra (Some {rid}) r s) = sNodes s"
    "mu (addExtra (Some {rid}) r s) = mu s"
proof -
  have t: "tableOK s" and L: "linksOK s" and k: "keysOK s" and c: "closedOK s" and root: "rootedOK T s"
    and tg: "targetsOK T s" and w: "wantedOK {r} s" and r: "live s r"
    using ok unfolding preOK_def by blast+
  show "sOK (T(rid \<mapsto> r)) (addExtra (Some {rid}) r s)"
    unfolding addExtra_def option.case
  proof (rule propagate_sOK [OF t L k r _ w])
    fix u d assume "live s u" and "d \<in> set (nDeps (sHeap s u))"
    then show "nInterest (sHeap s u) \<subseteq> nInterest (sHeap s d) \<union> (if d = r then {rid} else {})"
      using c unfolding closedOK_def by blast
  next
    show "rootedOK (T(rid \<mapsto> r)) s"
      unfolding rootedOK_def
    proof (intro allI impI)
      fix u id assume "u < sNext s" "id \<in> nInterest (sHeap s u)"
      then obtain t where "T id = Some t" "(t, u) \<in> (edges s)\<^sup>*" using root unfolding rootedOK_def by blast
      then show "\<exists>t. (T(rid \<mapsto> r)) id = Some t \<and> (t, u) \<in> (edges s)\<^sup>*" using rid by auto
    qed
  next
    fix id t assume "(T(rid \<mapsto> r)) id = Some t"
    then show "live s t \<and> (id \<in> nInterest (sHeap s t) \<or> t = r \<and> id \<in> {rid})"
      using tg r unfolding targetsOK_def by (auto split: if_splits)
  qed auto
qed (simp_all add: addExtra_def propagate_grow propagate_frame propagate_mu)

lemma joinDep_ok:
  assumes ok: "sOK T s" and k: "length k = 32" and p: "live s p"
    and j: "joinNode x kd k def platform (Some p) None label s = (r, s')"
  shows "sOK T s'" "grow s s'" "live s' r" "nId (sHeap s' r) = (kd, k)" "sNodes s (kd, k) = None \<Longrightarrow> mu s' + 2 \<le> mu s"
proof -
  obtain u s1 where get: "getNode x (kd, k) def platform label s = (u, s1)" by fastforce
  with j have r: "r = u" and s': "s' = linkParent (Some p) r s1" by (auto simp: joinNode_getNode addExtra_def)
  have k': "length (snd (kd, k)) = 32" using k by simp
  note g = getNode_ok [OF ok k' get, folded r]
  have pl: "live s1 p" by (rule grow_live(1) [OF g(2) sOK_D(1) [OF ok] p])
  have "nInterest (sHeap s p) \<noteq> {}" using sOK_D(3) [OF ok] p live_less [OF sOK_D(1) [OF ok] p] unfolding wantedOK_def by blast
  then have pw: "nInterest (sHeap s1 p) \<noteq> {}" using grow_node(3) [OF g(2) live_less [OF sOK_D(1) [OF ok] p]] by blast
  note l = linkParent_ok [OF g(1) pl pw, folded s']
  show "sOK T s'" by (rule l(1))
  show "grow s s'" by (rule grow_trans [OF g(2) l(2)])
  show i: "nId (sHeap s' r) = (kd, k)" using l(3) g(3) by simp
  have "live s1 r" using g(1) unfolding preOK_def by blast
  then show "live s' r" using g(3) i l(5) by (simp add: live_def)
  show "sNodes s (kd, k) = None \<Longrightarrow> mu s' + 2 \<le> mu s" using g(4) l(6) by simp
qed

lemma joinRoot_ok:
  assumes ok: "sOK T s" and k: "length k = 32" and rid: "T rid = None"
    and j: "joinNode x kd k def platform None (Some {rid}) label s = (r, s')"
  shows "sOK (T(rid \<mapsto> r)) s'" "grow s s'" "live s' r" "nId (sHeap s' r) = (kd, k)"
    "sNodes s (kd, k) = None \<Longrightarrow> mu s' + 2 \<le> mu s"
proof -
  obtain u s1 where get: "getNode x (kd, k) def platform label s = (u, s1)" by fastforce
  with j have r: "r = u" and s': "s' = addExtra (Some {rid}) r s1" by (auto simp: joinNode_getNode linkParent_def)
  have k': "length (snd (kd, k)) = 32" using k by simp
  note g = getNode_ok [OF ok k' get, folded r]
  note l = addExtra_ok [OF g(1) rid, folded s']
  show "sOK (T(rid \<mapsto> r)) s'" by (rule l(1))
  show "grow s s'" by (rule grow_trans [OF g(2) l(2)])
  show i: "nId (sHeap s' r) = (kd, k)" using l(3) g(3) by simp
  have "live s1 r" using g(1) unfolding preOK_def by blast
  then show "live s' r" using g(3) i l(4) by (simp add: live_def)
  show "sNodes s (kd, k) = None \<Longrightarrow> mu s' + 2 \<le> mu s" using g(4) l(5) by simp
qed

end
