(* ===== verification/SchedEngine.thy ===== *)
theory SchedEngine
  imports SchedGraph
begin

text \<open>
  Total correctness of the node engine: with a depth bound above \<open>mu\<close>, the recursion of
  \<open>require\<close> and \<open>advanceBuildValueLocked\<close> returns, keeps the graph invariant and only
  grows the graph.
\<close>

section \<open>Total correctness of the engine\<close>

text \<open>What is relied on of the outside: keys are arrays of 32 bytes, and ranging over a
  map visits every entry once.\<close>

definition envOK :: "'st ext \<Rightarrow> bool" where
  "envOK x \<longleftrightarrow>
     (\<forall>w n k. xGetKey x w n = Inr (Some k) \<longrightarrow> length k = 32) \<and> (\<forall>b k. xFileKey x b = Inr k \<longrightarrow> length k = 32)
     \<and> (\<forall>b w k w'. xIngestFile x b w = (Inr k, w') \<longrightarrow> length k = 32)
     \<and> (\<forall>pb p pl env w k w'. xDerive x pb p pl env w = (Inr k, w') \<longrightarrow> length k = 32)
     \<and> (\<forall>s rs. mset (xOrd x s rs) = mset rs)"

lemma envOK_D:
  assumes "envOK x"
  shows "xGetKey x w n = Inr (Some k) \<Longrightarrow> length k = 32" "xFileKey x b = Inr k \<Longrightarrow> length k = 32"
    "xIngestFile x b w = (Inr k, w') \<Longrightarrow> length k = 32" "xDerive x pb p pl env w = (Inr k, w') \<Longrightarrow> length k = 32"
    "mset (xOrd x s rs) = mset rs"
  using assms unfolding envOK_def by blast+

lemma envOK_ord: "envOK x \<Longrightarrow> set (xOrd x s rs) = set rs"
  using envOK_D(5) [of x s rs] by (metis set_mset_mset)

text \<open>The result of an operation that must return: a grown state with the invariant.\<close>

definition good :: "(string \<Rightarrow> nref option) \<Rightarrow> 'st sched \<Rightarrow> 'st sched option \<Rightarrow> bool" where
  "good T s m \<longleftrightarrow> (\<exists>s'. m = Some s' \<and> sOK T s' \<and> grow s s')"

lemma good_same: "sOK T s \<Longrightarrow> sameGraph s s' \<Longrightarrow> good T s (Some s')"
  unfolding good_def using sameGraph_sOK sameGraph_grow by blast

lemma good_pre: "sameGraph s s1 \<Longrightarrow> good T s1 m \<Longrightarrow> good T s m"
  unfolding good_def using sameGraph_grow grow_trans by blast

lemma good_grow: "grow s s1 \<Longrightarrow> good T s1 m \<Longrightarrow> good T s m"
  unfolding good_def using grow_trans by blast

lemma good_bind:
  assumes "good T s m" "\<And>s'. sOK T s' \<Longrightarrow> grow s s' \<Longrightarrow> good T s' (f s')"
  shows "good T s (m \<bind> f)"
proof -
  obtain s1 where s1: "m = Some s1" "sOK T s1" "grow s s1" using assms(1) unfolding good_def by blast
  then have "good T s (f s1)" using good_grow assms(2) by blast
  with s1(1) show ?thesis by simp
qed

lemma good_foldOpt:
  assumes "sOK T s" "\<And>a s'. a \<in> set as \<Longrightarrow> sOK T s' \<Longrightarrow> grow s s' \<Longrightarrow> good T s' (f a s')"
  shows "good T s (foldOpt f as s)"
  using assms
proof (induction as arbitrary: s)
  case (Cons a as)
  have "good T s (f a s)" using Cons.prems(2) [OF _ Cons.prems(1) grow_refl, of a] by simp
  then show ?case unfolding foldOpt.simps
  proof (rule good_bind)
    fix s' assume s': "sOK T s'" "grow s s'"
    show "good T s' (foldOpt f as s')"
      by (rule Cons.IH [OF s'(1)], rule Cons.prems(2)) (auto intro: grow_trans [OF s'(2)])
  qed
qed (simp add: good_same sameGraph_refl)

definition requireOK :: "'st requireFn \<Rightarrow> nat \<Rightarrow> bool" where
  "requireOK R n \<longleftrightarrow>
     (\<forall>T s kd k def platform p label. sOK T s \<longrightarrow> live s p \<longrightarrow> length k = 32 \<longrightarrow> mu s < n \<longrightarrow>
        (\<exists>r s'. R kd k def platform (Some p) None label s = Some (r, s') \<and> sOK T s' \<and> grow s s'
              \<and> live s' r \<and> nId (sHeap s' r) = (kd, k)))"

definition advanceOK :: "'st advanceFn \<Rightarrow> nat \<Rightarrow> bool" where
  "advanceOK A n \<longleftrightarrow> (\<forall>T s bv. sOK T s \<longrightarrow> live s bv \<longrightarrow> mu s + 1 < n \<longrightarrow> good T s (A bv s))"

lemma requireOK_E:
  assumes "requireOK R n" "sOK T s" "live s p" "length k = 32" "mu s < n"
  obtains r s' where "R kd k def platform (Some p) None label s = Some (r, s')" "sOK T s'" "grow s s'" "live s' r"
    "nId (sHeap s' r) = (kd, k)"
  using assms unfolding requireOK_def by blast

lemma requireDep_good:
  assumes "requireOK R n" "sOK T s" "live s p" "length k = 32" "mu s < n"
  shows "good T s (requireDep R kd k def platform p label s)"
  using assms by (auto elim!: requireOK_E [where kd = kd and def = def and platform = platform and label = label]
      simp: requireDep_def good_def)

lemma good_fail: "sOK T s \<Longrightarrow> good T s (Some (failNodeLocked x r e s))"
  by (rule good_same) (auto intro: sameGraph_fail)

lemma good_fail_W: "sOK T s \<Longrightarrow> good T s (Some (failNodeLocked x r e (s\<lparr>sW := w\<rparr>)))"
  by (rule good_pre [OF sameGraph_W good_fail]) (rule sameGraph_sOK [OF sameGraph_W])

lemma requireInput_good:
  assumes x: "envOK x" and R: "requireOK R n" and ok: "sOK T s" and p: "live s p" and m: "mu s < n"
  shows "good T s (requireInputLocked x R p inp label s)"
proof -
  have "good T s (requireDep R kd k def platform p label s)" if "xFileKey x b = Inr k" for kd k def platform b
    using requireDep_good [OF R ok p envOK_D(2) [OF x that] m] .
  then show ?thesis
    using good_fail [OF ok] good_same [OF ok sameGraph_refl]
    by (auto simp: requireInputLocked_def Let_def split: sum.splits option.splits)
qed

lemma sameGraph_unfold_fields:
  "sameGraph s (importFields d r s)" "sameGraph s (buildFields df r s)" "sameGraph s (runFields pn r s)"
  "sameGraph s (addPinInput inp r s)" "sameGraph s (addRunInput inp r s)" "sameGraph s (upd r (\<lambda>n. n\<lparr>nPinInputs := []\<rparr>) s)"
  unfolding importFields_def buildFields_def runFields_def addPinInput_def addRunInput_def
  by (rule sameGraph_upd; simp)+

lemma after_same:
  assumes "sameGraph s s'" "sOK T s" "live s r" "mu s < n"
  shows "sOK T s'" "live s' r" "mu s' < n"
  using sameGraph_sOK [OF assms(1,2)] sameGraph_live [OF assms(1)] sameGraph_mu [OF assms(1)] assms(3,4) by auto

lemma unfoldImport_good:
  assumes x: "envOK x" and R: "requireOK R n" and ok: "sOK T s" "live s r" "mu s < n"
  shows "good T s (unfoldImport x R r s)"
proof -
  have g: "sameGraph s (importFields d r s)" for d by (rule sameGraph_unfold_fields)
  note a = after_same [OF g ok]
  have "good T s (requireDep R kd k def platform r label (importFields d r s))" if "xFileKey x b = Inr k" for d kd k def platform label b
    by (rule good_pre [OF g requireDep_good [OF R a(1,2) envOK_D(2) [OF x that] a(3)]])
  moreover have "good T s (Some (failNodeLocked x r e (importFields d r s)))" for d e
    by (rule good_pre [OF g good_fail [OF a(1)]])
  ultimately show ?thesis
    using good_fail [OF ok(1)] good_same [OF ok(1) g]
    by (auto simp: unfoldImport_def Let_def split: sum.splits)
qed

lemma unfoldBuildFrom_good:
  assumes x: "envOK x" and R: "requireOK R n" and ok: "sOK T s" "live s r" "mu s < n"
  shows "good T s (unfoldBuildFrom x R r s)"
proof -
  have g: "sameGraph s (buildFields d r s)" for d by (rule sameGraph_unfold_fields)
  have "good T s (requireInputLocked x R r inp label (buildFields d r s))" for inp label d
    by (rule good_pre [OF g requireInput_good [OF x R after_same [OF g ok]]])
  then show ?thesis
    using good_fail [OF ok(1)] by (auto simp: unfoldBuildFrom_def split: sum.splits)
qed

lemma requireInputs_good:
  assumes x: "envOK x" and R: "requireOK R n" and ok: "sOK T s" and p: "live s r" and m: "mu s < n"
    and u: "\<And>a s. sameGraph s (u a s)"
  shows "good T s (foldOpt (\<lambda>a s. requireInputLocked x R r (inp a) (label a) (u a s)) as s)"
proof (rule good_foldOpt [OF ok])
  fix a s' assume s': "sOK T s'" "grow s s'"
  show "good T s' (requireInputLocked x R r (inp a) (label a) (u a s'))"
  proof (rule good_pre [OF u requireInput_good [OF x R sameGraph_sOK [OF u s'(1)]]])
    show "live (u a s') r"
      using sameGraph_live [OF u] grow_live(1) [OF s'(2) sOK_D(1) [OF ok] p] by blast
    show "mu (u a s') < n" using sameGraph_mu [OF u [where a = a and s = s']] grow_mu [OF s'(2)] m by simp
  qed
qed

lemma unfoldPin_good:
  assumes x: "envOK x" and R: "requireOK R n" and ok: "sOK T s" "live s r" "mu s < n"
  shows "good T s (unfoldPin x R r s)"
proof -
  have g: "sameGraph s (upd r (\<lambda>n. n\<lparr>nPinInputs := []\<rparr>) s)" by (rule sameGraph_unfold_fields)
  have "good T s (foldOpt (\<lambda>a s. requireInputLocked x R r (snd a) (fst a) (addPinInput (snd a) r s)) as
      (upd r (\<lambda>n. n\<lparr>nPinInputs := []\<rparr>) s))" for as :: "(string \<times> Input) list"
    by (rule good_pre [OF g requireInputs_good [OF x R after_same [OF g ok] sameGraph_unfold_fields(4)]])
  then show ?thesis
    using good_fail [OF ok(1)] by (auto simp: unfoldPin_def split: sum.splits)
qed

lemma unfoldBuildRun_good:
  assumes x: "envOK x" and R: "requireOK R n" and ok: "sOK T s" "live s r" "mu s < n"
  shows "good T s (unfoldBuildRun x R r s)"
proof -
  have g: "sameGraph s (runFields d r s)" for d by (rule sameGraph_unfold_fields)
  have "good T s (foldOpt (\<lambda>a s. requireInputLocked x R r (runInput a) (piName a) (addRunInput (runInput a) r s)) as
      (runFields d r s))" for as d
    by (rule good_pre [OF g requireInputs_good [OF x R after_same [OF g ok] sameGraph_unfold_fields(5)]])
  then show ?thesis
    using good_fail [OF ok(1)] by (auto simp: unfoldBuildRun_def split: sum.splits)
qed

lemma unfold_good:
  assumes "envOK x" "requireOK R n" "advanceOK A n" "sOK T s" "live s r" "mu s + 1 < n"
  shows "good T s (unfoldLocked x R A r s)"
proof -
  have "mu s < n" using assms(6) by simp
  then show ?thesis
    using unfoldImport_good [OF assms(1,2,4,5)] unfoldBuildFrom_good [OF assms(1,2,4,5)] unfoldPin_good [OF assms(1,2,4,5)]
      unfoldBuildRun_good [OF assms(1,2,4,5)] good_same [OF assms(4) sameGraph_refl] assms(3-6)
    unfolding unfoldLocked_def advanceOK_def by (simp split: kind.splits)
qed

section \<open>Completion\<close>

definition markDone :: "'st ext \<Rightarrow> nref \<Rightarrow> 'st sched \<Rightarrow> 'st sched" where
  "markDone x r s = bumpLocked (putNodeStatusLocked r
     (upd r (\<lambda>n. n\<lparr>nPhase := PhaseDone, nDoneAt := fst (xNow x (sW s)), nErrSummary := []\<rparr>) (s\<lparr>sW := snd (xNow x (sW s))\<rparr>)))"

lemma nodeDone_markDone:
  "nodeDoneLocked x A r s =
     (if nPhase (sHeap s r) = PhaseDone then Some s
      else foldOpt (onDepDoneLocked x A) (xOrd x (markDone x r s) (nDependents (sHeap (markDone x r s) r))) (markDone x r s))"
  by (simp add: nodeDoneLocked_def markDone_def timeNow_eq Let_def)

lemma sameGraph_done:
  "sameGraph s (upd r (\<lambda>n. n\<lparr>nPhase := PhaseDone, nDoneAt := t, nErrSummary := e\<rparr>) s)"
  "sameGraph s (upd r (\<lambda>n. n\<lparr>nPhase := PhaseDone, nCached := c\<rparr>) s)"
  by (rule sameGraph_upd; simp)+

lemma sameGraph_markDone: "sameGraph s (markDone x r s)"
  unfolding markDone_def
  by (intro sameGraph_after(2,3) sameGraph_trans [OF sameGraph_W sameGraph_done(1)])

lemma markDone_phase: "nPhase (sHeap (markDone x r s) r) = PhaseDone"
  by (simp add: markDone_def bumpLocked_def putNodeStatusLocked_def emit_def upd_def Let_def)

lemma markDone_mu:
  assumes "tableOK s" "live s r" "nPhase (sHeap s r) \<noteq> PhaseDone"
  shows "mu (markDone x r s) < mu s"
proof -
  note g = sameGraph_markDone [of s x r]
  have "unfinished (markDone x r s) \<subseteq> unfinished s"
    using g by (auto simp: unfinished_def sameGraph_def sameNode_def)
  moreover have "r \<in> unfinished s" using assms live_less by (auto simp: unfinished_def)
  moreover have "r \<notin> unfinished (markDone x r s)" by (simp add: unfinished_def markDone_phase)
  ultimately have "card (unfinished (markDone x r s)) < card (unfinished s)"
    by (intro psubset_card_mono finite_unfinished) blast
  then show ?thesis using g by (simp add: mu_def sameGraph_def)
qed

lemma nodeDone_cascade:
  assumes x: "envOK x" and A: "advanceOK A n" and ok: "sOK T s" and r: "live s r" and m: "mu s < n"
    and ph: "nPhase (sHeap s r) \<noteq> PhaseDone"
  shows "good T (markDone x r s) (nodeDoneLocked x A r s)"
proof -
  let ?s = "markDone x r s"
  note g = sameGraph_markDone [of s x r]
  have ok': "sOK T ?s" using sameGraph_sOK [OF g ok] .
  have m': "mu ?s + 1 < n" using markDone_mu [OF sOK_D(1) [OF ok] r ph, of x] m by simp
  have r': "live ?s r" using sameGraph_live [OF g] r by blast
  have "good T ?s (foldOpt (onDepDoneLocked x A) (xOrd x ?s (nDependents (sHeap ?s r))) ?s)"
  proof (rule good_foldOpt [OF ok'])
    fix d s' assume d: "d \<in> set (xOrd x ?s (nDependents (sHeap ?s r)))" and s': "sOK T s'" "grow ?s s'"
    have "live ?s d" using d linksOK_D(3) [OF sOK_D(2) [OF ok'] r'] by (simp add: envOK_ord [OF x])
    then have d': "live s' d" using grow_live(1) [OF s'(2) sOK_D(1) [OF ok']] by blast
    have "mu s' + 1 < n" using grow_mu [OF s'(2)] m' by simp
    then have "good T s' (A d s')" using A s'(1) d' unfolding advanceOK_def by blast
    moreover have "good T s' (Some (maybeEnqueueLocked x d s'))" by (rule good_same [OF s'(1) sameGraph_maybe])
    ultimately show "good T s' (onDepDoneLocked x A d s')" by (simp add: onDepDoneLocked_def)
  qed
  then show ?thesis using ph by (simp add: nodeDone_markDone)
qed

lemma nodeDone_good:
  assumes x: "envOK x" and A: "advanceOK A n" and ok: "sOK T s" and r: "live s r" and m: "mu s < n"
  shows "good T s (nodeDoneLocked x A r s)"
proof (cases "nPhase (sHeap s r) = PhaseDone")
  case True
  then show ?thesis using good_same [OF ok sameGraph_refl] by (simp add: nodeDone_markDone)
next
  case False
  show ?thesis by (rule good_pre [OF sameGraph_markDone nodeDone_cascade [OF x A ok r m False]])
qed

lemma nodeDone_done:
  assumes x: "envOK x" and A: "advanceOK A n" and ok: "sOK T s" and r: "live s r" and m: "mu s < n"
    and s': "nodeDoneLocked x A r s = Some s'"
  shows "nPhase (sHeap s' r) = PhaseDone"
proof (cases "nPhase (sHeap s r) = PhaseDone")
  case True
  then show ?thesis using s' by (simp add: nodeDone_markDone)
next
  case False
  have "grow (markDone x r s) s'" using nodeDone_cascade [OF x A ok r m False] s' by (simp add: good_def)
  moreover have "r < sNext (markDone x r s)"
    using live_less [OF sOK_D(1) [OF ok] r] sameGraph_markDone [of s x r] by (simp add: sameGraph_def)
  ultimately show ?thesis using grow_node(2) markDone_phase by blast
qed

section \<open>The orchestrator\<close>

lemma stage_good:
  assumes R: "requireOK R n" and ok: "sOK T s" "live s bv" "mu s < n" and k: "length k = 32"
    and cont: "\<And>s'. sOK T s' \<Longrightarrow> grow s s' \<Longrightarrow> good T s' (cont s')"
  shows "good T s (stage R kd k def bv cont s)"
proof -
  obtain r s' where q: "R kd k def (nPlatform (sHeap s bv)) (Some bv) None (nLabel (sHeap s bv)) s = Some (r, s')" "sOK T s'" "grow s s'"
    by (rule requireOK_E [OF R ok(1,2) k ok(3)])
  have "good T s (cont s')" "good T s (Some s')"
    using good_grow [OF q(3) cont [OF q(2,3)]] good_grow [OF q(3) good_same [OF q(2) sameGraph_refl]] .
  with q(1) show ?thesis by (simp add: stage_def)
qed

lemma sameGraph_setKey:
  assumes "length f = 32"
  shows "sameGraph s (upd r (\<lambda>n. n\<lparr>nF := Some f\<rparr>) s)" "sameGraph s (upd r (\<lambda>n. n\<lparr>nKP := Some f\<rparr>) s)"
  by (rule sameGraph_upd; use assms in \<open>simp add: keyStep_def\<close>)+

lemma resolveF_good:
  assumes x: "envOK x" and ok: "sOK T s"
    and cont: "\<And>s'. sOK T s' \<Longrightarrow> sameGraph s s' \<Longrightarrow> nF (sHeap s' bv) \<noteq> None \<Longrightarrow> good T s' (cont s')"
  shows "good T s (resolveF x bv cont s)"
proof (cases "nF (sHeap s bv)")
  case (Some f)
  then show ?thesis using cont [OF ok sameGraph_refl] by (simp add: resolveF_def)
next
  case None
  have "good T s (cont (upd bv (\<lambda>n. n\<lparr>nF := Some f\<rparr>) s))" if "xGetKey x (sW s) name = Inr (Some f)" for f name
  proof -
    note g = sameGraph_setKey(1) [OF envOK_D(1) [OF x that], of s bv]
    show ?thesis by (rule good_pre [OF g cont [OF sameGraph_sOK [OF g ok] g]]) (simp add: upd_def)
  qed
  then show ?thesis using None good_fail [OF ok] by (simp add: resolveF_def split: sum.splits option.splits)
qed

lemma deriveKP_len: "envOK x \<Longrightarrow> deriveKP x f w = (Inr kp, w') \<Longrightarrow> length kp = 32"
  unfolding deriveKP_def
  by (auto split: sum.splits option.splits prod.splits dest: envOK_D(4))

lemma resolveKP_len: "envOK x \<Longrightarrow> resolveKPLocked x f w = (Inr kp, w') \<Longrightarrow> length kp = 32"
  unfolding resolveKPLocked_def
  by (auto split: sum.splits option.splits dest: envOK_D(1) deriveKP_len)

lemma resolveKP_good:
  assumes x: "envOK x" and ok: "sOK T s"
    and cont: "\<And>s'. sOK T s' \<Longrightarrow> sameGraph s s' \<Longrightarrow> nKP (sHeap s' bv) \<noteq> None \<Longrightarrow> good T s' (cont s')"
  shows "good T s (resolveKP x bv cont s)"
proof (cases "nKP (sHeap s bv)")
  case (Some f)
  then show ?thesis using cont [OF ok sameGraph_refl] by (simp add: resolveKP_def)
next
  case None
  have "good T s (cont (upd bv (\<lambda>n. n\<lparr>nKP := Some kp\<rparr>) (s\<lparr>sW := w\<rparr>)))"
    if "resolveKPLocked x f (sW s) = (Inr kp, w)" for f kp w
  proof -
    have g: "sameGraph s (upd bv (\<lambda>n. n\<lparr>nKP := Some kp\<rparr>) (s\<lparr>sW := w\<rparr>))"
      by (rule sameGraph_trans [OF sameGraph_W sameGraph_setKey(2) [OF resolveKP_len [OF x that]]])
    show ?thesis by (rule good_pre [OF g cont [OF sameGraph_sOK [OF g ok] g]]) (simp add: upd_def)
  qed
  then show ?thesis using None good_fail_W [OF ok] by (simp add: resolveKP_def split: sum.splits prod.splits)
qed

lemma finish_good:
  assumes x: "envOK x" and A: "advanceOK A n" and ok: "sOK T s" "live s bv" "mu s < n"
  shows "good T s (finishBuildValue x A bv s)"
proof -
  note a = after_same [OF sameGraph_W ok]
  have "good T s (nodeDoneLocked x A bv (s\<lparr>sW := w\<rparr>))" for w
    by (rule good_pre [OF sameGraph_W nodeDone_good [OF x A a]])
  then show ?thesis
    using good_fail_W [OF ok(1)] by (simp add: finishBuildValue_def split: prod.splits option.splits)
qed

lemma advance_good:
  assumes x: "envOK x" and R: "requireOK R n" and A: "advanceOK A n" and ok: "sOK T s" and bv: "live s bv" and m: "mu s < n"
  shows "good T s (advanceBuildValueLocked x R A bv s)"
proof -
  have later: "live s' bv" "mu s' < n" "snd (nId (sHeap s' bv)) = snd (nId (sHeap s bv))" if "grow s s'" for s'
    using grow_live [OF that sOK_D(1) [OF ok] bv] grow_mu [OF that] m by auto
  have blt: "bv < sNext s'" if "sOK T s'" "grow s s'" for s'
    using live_less [OF sOK_D(1) [OF that(1)] later(1) [OF that(2)]] .
  have len: "length (the (nF (sHeap s' bv))) = 32" if "sOK T s'" "nF (sHeap s' bv) \<noteq> None" for s'
    using sOK_D(7) [OF that(1)] that(2) by (auto simp: keysOK_def)
  have lenKP: "length (the (nKP (sHeap s' bv))) = 32" if "sOK T s'" "nKP (sHeap s' bv) \<noteq> None" for s'
    using sOK_D(7) [OF that(1)] that(2) by (auto simp: keysOK_def)
  have k: "length (snd (nId (sHeap s bv))) = 32"
    using sOK_D(1) [OF ok] bv unfolding tableOK_def live_def by blast
  have run: "good T s' (stage R KindBuildRun (the (nKP (sHeap s' bv))) [] bv (finishBuildValue x A bv) s')"
    if s': "sOK T s'" "grow s s'" "nKP (sHeap s' bv) \<noteq> None" for s'
    by (rule stage_good [OF R s'(1) later(1,2) [OF s'(2)] lenKP [OF s'(1,3)]])
      (rule finish_good [OF x A], use later grow_trans [OF s'(2)] in auto)
  have pin: "good T s' (stage R KindPin (the (nF (sHeap s' bv))) [] bv
      (resolveKP x bv (\<lambda>s. stage R KindBuildRun (the (nKP (sHeap s bv))) [] bv (finishBuildValue x A bv) s)) s')"
    if s': "sOK T s'" "grow s s'" "nF (sHeap s' bv) \<noteq> None" for s'
    by (rule stage_good [OF R s'(1) later(1,2) [OF s'(2)] len [OF s'(1,3)]], rule resolveKP_good [OF x], assumption, rule run)
      (auto intro: grow_trans [OF s'(2)] grow_trans sameGraph_grow)
  have pr: "good T s' (stage R KindPluginResolve (the (nF (sHeap s' bv))) [] bv
      (\<lambda>s. stage R KindPin (the (nF (sHeap s bv))) [] bv
        (resolveKP x bv (\<lambda>s. stage R KindBuildRun (the (nKP (sHeap s bv))) [] bv (finishBuildValue x A bv) s)) s) s')"
    if s': "sOK T s'" "grow s s'" "nF (sHeap s' bv) \<noteq> None" for s'
    by (rule stage_good [OF R s'(1) later(1,2) [OF s'(2)] len [OF s'(1,3)]], rule pin)
      (use grow_trans [OF s'(2)] grow_node(5) [OF _ blt [OF s'(1,2)] s'(3)] in auto)
  show ?thesis
    unfolding advanceBuildValueLocked_def
  proof (simp only: if_distrib, rule if_split [THEN iffD2], intro conjI impI)
    show "good T s (Some s)" by (rule good_same [OF ok sameGraph_refl])
    show "good T s (stage R KindBuildFrom (snd (nId (sHeap s bv))) (nDef (sHeap s bv)) bv
        (resolveF x bv (\<lambda>s. stage R KindPluginResolve (the (nF (sHeap s bv))) [] bv
          (\<lambda>s. stage R KindPin (the (nF (sHeap s bv))) [] bv
            (resolveKP x bv (\<lambda>s. stage R KindBuildRun (the (nKP (sHeap s bv))) [] bv
              (finishBuildValue x A bv) s)) s) s)) s)"
      by (rule stage_good [OF R ok bv m k], rule resolveF_good [OF x], assumption, rule pr)
        (auto intro: grow_trans sameGraph_grow)
  qed
qed

lemma requireBody_ok:
  assumes x: "envOK x" and R: "requireOK R n" and A: "advanceOK A n" and m: "mu s \<le> n"
    and join: "joinNode x kd k def platform parent extra label s = (r, s1)"
    and ok: "sOK T s1" "live s1 r" "grow s s1" and dec: "sNodes s (kd, k) = None \<Longrightarrow> mu s1 + 2 \<le> mu s"
  shows "\<exists>s'. requireBody x R A kd k def platform parent extra label s = Some (r, s') \<and> sOK T s' \<and> grow s1 s'"
proof (cases "sNodes s (kd, k)")
  case (Some u)
  then show ?thesis using join ok by (simp add: requireBody_def grow_refl)
next
  case None
  have g: "sameGraph s1 s2" if q: "outputExistsLocked x r s1 = (v, s2)" for v s2
    using outputExists_frame [OF q] sameGraph_refl sameGraph_setKey(1) envOK_D(1) [OF x] by metis
  obtain v s2 where q: "outputExistsLocked x r s1 = (v, s2)" by fastforce
  note a = g [OF q]
  have ok2: "sOK T s2" "live s2 r" "mu s2 + 1 < n"
    using sameGraph_sOK [OF a ok(1)] sameGraph_live [OF a] ok(2) sameGraph_mu [OF a] dec [OF None] m by auto
  consider (err) e where "v = Inl e" | (yes) "v = Inr True" | (no) "v = Inr False" by (metis sumE)
  then show ?thesis
  proof cases
    case err
    have "sameGraph s1 (bumpLocked (failNodeLocked x r e2 s2))" for e2
      by (intro sameGraph_after(2) sameGraph_trans [OF a sameGraph_fail])
    then show ?thesis
      using None join q err sameGraph_sOK [OF _ ok(1)] sameGraph_grow by (fastforce simp: requireBody_def)
  next
    case yes
    have "sameGraph s1 (bumpLocked (putNodeStatusLocked r (upd r (\<lambda>n. n\<lparr>nPhase := PhaseDone, nCached := True\<rparr>) s2)))"
      by (intro sameGraph_after(2,3) sameGraph_trans [OF a sameGraph_done(2)])
    then show ?thesis
      using None join q yes sameGraph_sOK [OF _ ok(1)] sameGraph_grow by (fastforce simp: requireBody_def)
  next
    case no
    obtain s3 where s3: "unfoldLocked x R A r s2 = Some s3" "sOK T s3" "grow s2 s3"
      using unfold_good [OF x R A ok2] unfolding good_def by blast
    have b: "sameGraph s3 (bumpLocked (maybeEnqueueLocked x r s3))"
      by (intro sameGraph_after(2) sameGraph_maybe)
    have "grow s1 (bumpLocked (maybeEnqueueLocked x r s3))"
      using grow_trans [OF sameGraph_grow [OF a] grow_trans [OF s3(3) sameGraph_grow [OF b]]] .
    then show ?thesis
      using None join q no s3(1) sameGraph_sOK [OF b s3(2)] by (simp add: requireBody_def)
  qed
qed

lemma engine_total:
  assumes x: "envOK x"
  shows "requireOK (require x n) n" "advanceOK (advance x n) n"
proof (induction n)
  case 0
  { case 1 show ?case by (simp add: requireOK_def) }
  { case 2 show ?case by (simp add: advanceOK_def) }
next
  case (Suc n)
  have r: "require x (Suc n) = requireBody x (require x n) (advance x n)"
    and a: "advance x (Suc n) = advanceBuildValueLocked x (require x n) (advance x n)"
    by (simp_all add: require_def advance_def)
  { case 1
    show ?case
      unfolding requireOK_def r
    proof (intro allI impI)
      fix T kd p and s :: "'a sched" and k def platform label :: string
      assume s: "sOK T s" "live s p" "length k = 32" "mu s < Suc n"
      obtain u s1 where j: "joinNode x kd k def platform (Some p) None label s = (u, s1)" by fastforce
      note J = joinDep_ok [OF s(1,3,2) j]
      obtain s' where s': "requireBody x (require x n) (advance x n) kd k def platform (Some p) None label s = Some (u, s')"
        "sOK T s'" "grow s1 s'"
        using requireBody_ok [OF x Suc _ j J(1,3,2,5)] s(4) by fastforce
      note l = grow_live [OF s'(3) sOK_D(1) [OF J(1)] J(3)]
      show "\<exists>r s'. requireBody x (require x n) (advance x n) kd k def platform (Some p) None label s = Some (r, s') \<and>
          sOK T s' \<and> grow s s' \<and> live s' r \<and> nId (sHeap s' r) = (kd, k)"
        using s' l J(4) grow_trans [OF J(2) s'(3)] by auto
    qed }
  { case 2
    show ?case
      unfolding advanceOK_def a using advance_good [OF x Suc] by simp }
qed

end
