(* ===== verification/SchedInterest.thy ===== *)
theory SchedInterest
  imports SchedEngine
begin

text \<open>
  Withdrawing a request's interest (\<open>dropInterestLocked\<close> of \<open>src/sched/node.go\<close>): the walk
  covers every node the request wants, the nodes nobody else wants leave the
  table, and the graph invariant holds for the remaining requests.
\<close>

section \<open>Evicting a list of nodes\<close>

lemma evictNode_fields:
  "sNext (evictNode r s) = sNext s" "sRequests (evictNode r s) = sRequests s" "sClosed (evictNode r s) = sClosed s"
  "sW (evictNode r s) = sW s"
  "nId (sHeap (evictNode r s) u) = nId (sHeap s u)" "nDeps (sHeap (evictNode r s) u) = nDeps (sHeap s u)"
  "nInterest (sHeap (evictNode r s) u) = nInterest (sHeap s u)" "nPhase (sHeap (evictNode r s) u) = nPhase (sHeap s u)"
  "nF (sHeap (evictNode r s) u) = nF (sHeap s u)" "nKP (sHeap (evictNode r s) u) = nKP (sHeap s u)"
  "nGen (sHeap (evictNode r s) u) = nGen (sHeap s u)"
  by (simp_all add: evictNode_def Let_def purgeNodeStatusLocked_def dropNodeLogLocked_def unlinkDeps_def emit_def)

definition unwanted :: "'st sched \<Rightarrow> nref \<Rightarrow> bool" where
  "unwanted s r \<longleftrightarrow> nInterest (sHeap s r) = {} \<and> live s r"

lemma evictNode_table:
  "sNodes (evictNode r s) = (if unwanted s r then (sNodes s)(nId (sHeap s r) := None) else sNodes s)"
  by (simp add: evictNode_def unwanted_def live_def Let_def purgeNodeStatusLocked_def dropNodeLogLocked_def unlinkDeps_def emit_def)

lemma evictNode_dependents:
  "set (nDependents (sHeap (evictNode r s) d)) =
     set (nDependents (sHeap s d)) - (if unwanted s r \<and> d \<in> set (nDeps (sHeap s r)) then {r} else {})"
  by (auto simp: evictNode_def unwanted_def live_def Let_def purgeNodeStatusLocked_def dropNodeLogLocked_def unlinkDeps_def emit_def)

lemma evictNode_live: "live (evictNode r s) u \<longleftrightarrow> live s u \<and> \<not> (u = r \<and> unwanted s r)"
  unfolding live_def evictNode_fields evictNode_table by (auto simp: unwanted_def live_def)

lemma fold_evict:
  fixes s :: "'st sched"
  shows "sNext (fold evictNode rs s) = sNext s" "sRequests (fold evictNode rs s) = sRequests s"
    "sClosed (fold evictNode rs s) = sClosed s"
    "nId (sHeap (fold evictNode rs s) u) = nId (sHeap s u)" "nDeps (sHeap (fold evictNode rs s) u) = nDeps (sHeap s u)"
    "nInterest (sHeap (fold evictNode rs s) u) = nInterest (sHeap s u)" "nPhase (sHeap (fold evictNode rs s) u) = nPhase (sHeap s u)"
    "nF (sHeap (fold evictNode rs s) u) = nF (sHeap s u)" "nKP (sHeap (fold evictNode rs s) u) = nKP (sHeap s u)"
    "nGen (sHeap (fold evictNode rs s) u) = nGen (sHeap s u)"
    "live (fold evictNode rs s) u \<longleftrightarrow> live s u \<and> \<not> (u \<in> set rs \<and> nInterest (sHeap s u) = {})"
    "set (nDependents (sHeap (fold evictNode rs s) u)) =
       set (nDependents (sHeap s u)) - {r. r \<in> set rs \<and> unwanted s r \<and> u \<in> set (nDeps (sHeap s r))}"
  by (induction rs arbitrary: s)
    (auto simp: evictNode_fields evictNode_live evictNode_dependents unwanted_def split: if_splits)

lemma fold_evict_table:
  assumes "tableOK s"
  shows "sNodes (fold evictNode rs s) i = Some r \<longleftrightarrow> sNodes s i = Some r \<and> \<not> (r \<in> set rs \<and> nInterest (sHeap s r) = {})"
  using assms
proof (induction rs arbitrary: s)
  case (Cons a rs)
  have t: "tableOK (evictNode a s)"
    using Cons.prems unfolding tableOK_def evictNode_fields evictNode_table by simp
  have "nId (sHeap s r) = i" if "sNodes s i = Some r"
    using Cons.prems that unfolding tableOK_def by blast
  then have "sNodes (evictNode a s) i = Some r \<longleftrightarrow> sNodes s i = Some r \<and> \<not> (r = a \<and> nInterest (sHeap s r) = {})"
    unfolding evictNode_table unwanted_def live_def by auto
  then show ?case using Cons.IH [OF t] by (auto simp: evictNode_fields)
qed simp

section \<open>Dropping interest\<close>

definition withdraw :: "string \<Rightarrow> nref list \<Rightarrow> 'st sched \<Rightarrow> 'st sched" where
  "withdraw rid seen s = s\<lparr>sHeap := (\<lambda>r. if r \<in> set seen then (sHeap s r)\<lparr>nInterest := nInterest (sHeap s r) - {rid}\<rparr>
     else sHeap s r)\<rparr>"

lemma dropInterest_withdraw:
  "dropInterestLocked x rid (Some t) s =
     (let seen = dfs (sNext s) (\<lambda>r. nDeps (sHeap s r)) [t] []; s1 = withdraw rid seen s
      in bumpLocked (fold evictNode (xOrd x s1 seen) s1))"
  by (simp add: dropInterestLocked_def withdraw_def Let_def)

lemma withdraw_fields:
  "sNext (withdraw rid seen s) = sNext s" "sNodes (withdraw rid seen s) = sNodes s" "sRequests (withdraw rid seen s) = sRequests s"
  "sClosed (withdraw rid seen s) = sClosed s"
  "nId (sHeap (withdraw rid seen s) u) = nId (sHeap s u)" "nDeps (sHeap (withdraw rid seen s) u) = nDeps (sHeap s u)"
  "nDependents (sHeap (withdraw rid seen s) u) = nDependents (sHeap s u)" "nPhase (sHeap (withdraw rid seen s) u) = nPhase (sHeap s u)"
  "nF (sHeap (withdraw rid seen s) u) = nF (sHeap s u)" "nKP (sHeap (withdraw rid seen s) u) = nKP (sHeap s u)"
  "nGen (sHeap (withdraw rid seen s) u) = nGen (sHeap s u)"
  "nInterest (sHeap (withdraw rid seen s) u) = nInterest (sHeap s u) - (if u \<in> set seen then {rid} else {})"
  by (simp_all add: withdraw_def)

lemma withdraw_live: "live (withdraw rid seen s) u \<longleftrightarrow> live s u"
  by (simp add: live_def withdraw_fields)

lemma seen_reach:
  assumes "linksOK s" "t < sNext s"
  shows "set (dfs (sNext s) (\<lambda>r. nDeps (sHeap s r)) [t] []) = {r. (t, r) \<in> (edges s)\<^sup>*}"
proof -
  have "reach (\<lambda>r. nDeps (sHeap s r)) t = {r. (t, r) \<in> (edges s)\<^sup>*}"
  proof (intro set_eqI iffI)
    fix r assume "r \<in> reach (\<lambda>r. nDeps (sHeap s r)) t"
    then have "(t, r) \<in> (edges s)\<^sup>*"
      by (induction rule: reach.induct) (auto simp: edges_def intro: rtrancl_into_rtrancl)
    then show "r \<in> {r. (t, r) \<in> (edges s)\<^sup>*}" by simp
  next
    fix r assume "r \<in> {r. (t, r) \<in> (edges s)\<^sup>*}"
    then have "(t, r) \<in> (edges s)\<^sup>*" by simp
    then show "r \<in> reach (\<lambda>r. nDeps (sHeap s r)) t"
      by (induction rule: rtrancl_induct) (auto simp: edges_def intro: reach.intros)
  qed
  then show ?thesis using dfs_reach [of t "sNext s" "\<lambda>r. nDeps (sHeap s r)"] linksOK_less [OF assms(1)] assms(2) by simp
qed

text \<open>The state after the withdrawal, field by field.\<close>

lemma dropInterest_state:
  fixes s :: "'st sched" and rid :: string
  assumes x: "envOK x" and L: "linksOK s" and t: "t < sNext s"
  defines "s' \<equiv> dropInterestLocked x rid (Some t) s" and "seen \<equiv> {r. (t, r) \<in> (edges s)\<^sup>*}"
  shows "sNext s' = sNext s" "sRequests s' = sRequests s" "sClosed s' = sClosed s"
    "nId (sHeap s' u) = nId (sHeap s u)" "nDeps (sHeap s' u) = nDeps (sHeap s u)" "nPhase (sHeap s' u) = nPhase (sHeap s u)"
    "nF (sHeap s' u) = nF (sHeap s u)" "nKP (sHeap s' u) = nKP (sHeap s u)" "nGen (sHeap s' u) = nGen (sHeap s u)"
    "nInterest (sHeap s' u) = nInterest (sHeap s u) - (if u \<in> seen then {rid} else {})"
    "live s' u \<longleftrightarrow> live s u \<and> \<not> (u \<in> seen \<and> nInterest (sHeap s u) \<subseteq> {rid})"
    "set (nDependents (sHeap s' u)) = set (nDependents (sHeap s u))
       - {r \<in> seen. nInterest (sHeap s r) \<subseteq> {rid} \<and> live s r \<and> u \<in> set (nDeps (sHeap s r))}"
    "tableOK s \<Longrightarrow> sNodes s' i = Some r \<longleftrightarrow> sNodes s i = Some r \<and> \<not> (r \<in> seen \<and> nInterest (sHeap s r) \<subseteq> {rid})"
proof -
  define ds where "ds = dfs (sNext s) (\<lambda>r. nDeps (sHeap s r)) [t] []"
  define s1 where "s1 = withdraw rid ds s"
  have d: "set ds = seen" unfolding ds_def seen_def by (rule seen_reach [OF L t])
  have s': "s' = bumpLocked (fold evictNode (xOrd x s1 ds) s1)"
    unfolding s'_def dropInterest_withdraw ds_def s1_def by (simp add: Let_def)
  have o: "set (xOrd x s1 ds) = seen" using envOK_ord [OF x] d by simp
  have b: "sNext s' = sNext (fold evictNode (xOrd x s1 ds) s1)" "sRequests s' = sRequests (fold evictNode (xOrd x s1 ds) s1)"
    "sClosed s' = sClosed (fold evictNode (xOrd x s1 ds) s1)" "sHeap s' = sHeap (fold evictNode (xOrd x s1 ds) s1)"
    "sNodes s' = sNodes (fold evictNode (xOrd x s1 ds) s1)" "\<And>u. live s' u = live (fold evictNode (xOrd x s1 ds) s1) u"
    unfolding s' by (simp_all add: bumpLocked_def live_def)
  note f = b fold_evict o d s1_def withdraw_fields withdraw_live
  show "sNext s' = sNext s" "sRequests s' = sRequests s" "sClosed s' = sClosed s"
    "nId (sHeap s' u) = nId (sHeap s u)" "nDeps (sHeap s' u) = nDeps (sHeap s u)" "nPhase (sHeap s' u) = nPhase (sHeap s u)"
    "nF (sHeap s' u) = nF (sHeap s u)" "nKP (sHeap s' u) = nKP (sHeap s u)" "nGen (sHeap s' u) = nGen (sHeap s u)"
    "nInterest (sHeap s' u) = nInterest (sHeap s u) - (if u \<in> seen then {rid} else {})"
    unfolding b fold_evict s1_def withdraw_fields d by (rule refl)+
  show "live s' u \<longleftrightarrow> live s u \<and> \<not> (u \<in> seen \<and> nInterest (sHeap s u) \<subseteq> {rid})"
    unfolding b fold_evict o unfolding s1_def withdraw_fields withdraw_live d by auto
  show "set (nDependents (sHeap s' u)) = set (nDependents (sHeap s u))
       - {r \<in> seen. nInterest (sHeap s r) \<subseteq> {rid} \<and> live s r \<and> u \<in> set (nDeps (sHeap s r))}"
    unfolding b fold_evict o unfolding s1_def withdraw_fields withdraw_live unwanted_def d by auto
  assume "tableOK s"
  then have "tableOK s1" unfolding tableOK_def s1_def withdraw_fields .
  then show "sNodes s' i = Some r \<longleftrightarrow> sNodes s i = Some r \<and> \<not> (r \<in> seen \<and> nInterest (sHeap s r) \<subseteq> {rid})"
    unfolding b fold_evict_table [OF \<open>tableOK s1\<close>] o unfolding s1_def withdraw_fields d by auto
qed

lemma dropInterest_sOK:
  assumes x: "envOK x" and ok: "sOK T s" and t: "t < sNext s" and T: "T rid = Some t \<or> T rid = None"
  shows "sOK (T(rid := None)) (dropInterestLocked x rid (Some t) s)"
proof -
  let ?s = "dropInterestLocked x rid (Some t) s"
  note tb = sOK_D(1) [OF ok] and L = sOK_D(2) [OF ok]
  note f = dropInterest_state [OF x L t, of rid]
  have seen: "(t, u) \<in> (edges s)\<^sup>*" if ui: "u < sNext s" "rid \<in> nInterest (sHeap s u)" for u
  proof -
    obtain t' where "T rid = Some t'" "(t', u) \<in> (edges s)\<^sup>*" using sOK_D(5) [OF ok] ui unfolding rootedOK_def by blast
    then show ?thesis using T by auto
  qed
  have int: "nInterest (sHeap ?s u) = nInterest (sHeap s u) - {rid}" if "u < sNext s" for u
    using f(10) [of u] seen [OF that] by auto
  have w: "nInterest (sHeap s u) \<noteq> {} \<longleftrightarrow> live s u" if "u < sNext s" for u
    using sOK_D(3) [OF ok] that unfolding wantedOK_def by blast
  have lv: "live ?s u \<longleftrightarrow> live s u \<and> \<not> nInterest (sHeap s u) \<subseteq> {rid}" if "u < sNext s" for u
    using f(11) [of u] seen [OF that] w [OF that] by auto
  have lt: "u < sNext s" if "live s u" for u using live_less [OF tb that] .
  have sub: "nInterest (sHeap s u) \<subseteq> nInterest (sHeap s d)" if "live s u" "d \<in> set (nDeps (sHeap s u))" for u d
    using sOK_D(4) [OF ok] that unfolding closedOK_def by blast
  have "tableOK ?s"
    unfolding tableOK_def f(1,4) f(13) [OF tb] using tb unfolding tableOK_def by blast
  moreover have "linksOK ?s"
    unfolding linksOK_def
  proof (intro conjI allI impI)
    fix u d assume u: "live ?s u" and d: "d \<in> set (nDeps (sHeap ?s u))"
    have u': "live s u" "\<not> nInterest (sHeap s u) \<subseteq> {rid}" using u f(11) [of u] lv lt by blast+
    have d': "d \<in> set (nDeps (sHeap s u))" using d f(5) by simp
    note ld = linksOK_D(1,2) [OF L u'(1) d']
    show "live ?s d" using lv [OF lt [OF ld(1)]] ld(1) sub [OF u'(1) d'] u'(2) by blast
    show "u \<in> set (nDependents (sHeap ?s d))" unfolding f(12) using ld(2) u'(2) by blast
  next
    fix u p assume u: "live ?s u" and p: "p \<in> set (nDependents (sHeap ?s u))"
    have u': "live s u" using u f(11) [of u] by blast
    have p': "p \<in> set (nDependents (sHeap s u))" using p f(12) by blast
    note lp = linksOK_D(3,4) [OF L u' p']
    show "u \<in> set (nDeps (sHeap ?s p))" using lp(2) f(5) by simp
    show "live ?s p" using p lp unfolding f(11,12) by blast
  next
    fix u d assume "u < sNext ?s" "d \<in> set (nDeps (sHeap ?s u))"
    then show "d < sNext ?s" using linksOK_less [OF L] f(1,5) by simp
  qed
  moreover have "wantedOK {} ?s"
    unfolding wantedOK_def f(1)
  proof (intro allI impI)
    fix u assume u: "u < sNext s"
    show "(nInterest (sHeap ?s u) \<noteq> {}) = live ?s u" using int [OF u] w [OF u] lv [OF u] by auto
  qed
  moreover have "closedOK ?s"
    unfolding closedOK_def f(5)
  proof (intro allI impI)
    fix u d assume u: "live ?s u" and d: "d \<in> set (nDeps (sHeap s u))"
    have u': "live s u" using u f(11) [of u] by blast
    show "nInterest (sHeap ?s u) \<subseteq> nInterest (sHeap ?s d)"
      using int [OF lt [OF u']] int [OF lt [OF linksOK_D(1) [OF L u' d]]] sub [OF u' d] by blast
  qed
  moreover have "edges ?s = edges s" by (simp add: edges_def f(5))
  then have "rootedOK (T(rid := None)) ?s"
    using sOK_D(5) [OF ok] int unfolding rootedOK_def f(1) by auto
  moreover have "targetsOK (T(rid := None)) ?s"
    unfolding targetsOK_def
  proof (intro allI impI)
    fix id u assume "(T(rid := None)) id = Some u"
    then have i: "id \<noteq> rid" "T id = Some u" by (auto split: if_splits)
    then have "live s u" "id \<in> nInterest (sHeap s u)" using sOK_D(6) [OF ok] unfolding targetsOK_def by blast+
    then show "live ?s u \<and> id \<in> nInterest (sHeap ?s u)" using i(1) int lv lt by blast
  qed
  moreover have "keysOK ?s" using sOK_D(7) [OF ok] unfolding keysOK_def f(7,8) .
  ultimately show ?thesis by (simp only: sOK_def)
qed

lemma dropInterest_watching: "watching (dropInterestLocked x rid target s) = watching s"
proof -
  have "watching (evictNode r s) = watching s" for r and s :: "'a sched"
    by (simp add: evictNode_def Let_def purgeNodeStatusLocked_def dropNodeLogLocked_def unlinkDeps_def emit_def)
  then have "watching (fold evictNode rs s) = watching s" for rs and s :: "'a sched"
    by (induction rs arbitrary: s) (simp_all del: watching_def)
  then show ?thesis by (simp add: dropInterestLocked_def bumpLocked_def Let_def split: option.split)
qed

text \<open>Afterwards nobody has the request's interest, and a node stays in the table exactly
  when another request wants it.\<close>

lemma dropInterest_exact:
  assumes x: "envOK x" and ok: "sOK T s" and t: "T rid = Some t"
  shows "u < sNext s \<Longrightarrow> nInterest (sHeap (dropInterestLocked x rid (Some t) s) u) = nInterest (sHeap s u) - {rid}"
    "sNodes (dropInterestLocked x rid (Some t) s) i = Some r \<longleftrightarrow>
       sNodes s i = Some r \<and> (\<exists>rid'. rid' \<noteq> rid \<and> rid' \<in> nInterest (sHeap s r))"
proof -
  have tl: "t < sNext s" using sOK_D(1,6) [OF ok] t live_less unfolding targetsOK_def by blast
  note f = dropInterest_state [OF x sOK_D(2) [OF ok] tl, of rid]
  have seen: "(t, u) \<in> (edges s)\<^sup>*" if "u < sNext s" "rid \<in> nInterest (sHeap s u)" for u
    using sOK_D(5) [OF ok] that t unfolding rootedOK_def by fastforce
  show "u < sNext s \<Longrightarrow> nInterest (sHeap (dropInterestLocked x rid (Some t) s) u) = nInterest (sHeap s u) - {rid}"
    using f(10) [of u] seen [of u] by auto
  have d: "r < sNext s" "nInterest (sHeap s r) \<noteq> {}" if i: "sNodes s i = Some r"
  proof -
    have t: "r < sNext s \<and> nId (sHeap s r) = i" using i sOK_D(1) [OF ok] unfolding tableOK_def by blast
    then show "r < sNext s" by simp
    have "live s r" using t i by (simp add: live_def)
    then show "nInterest (sHeap s r) \<noteq> {}" using t sOK_D(3) [OF ok] unfolding wantedOK_def by blast
  qed
  show "sNodes (dropInterestLocked x rid (Some t) s) i = Some r \<longleftrightarrow>
       sNodes s i = Some r \<and> (\<exists>rid'. rid' \<noteq> rid \<and> rid' \<in> nInterest (sHeap s r))"
  proof (cases "sNodes s i = Some r")
    case True
    have "(\<exists>rid'. rid' \<noteq> rid \<and> rid' \<in> nInterest (sHeap s r)) \<longleftrightarrow> \<not> nInterest (sHeap s r) \<subseteq> {rid}" by blast
    moreover have "rid \<in> nInterest (sHeap s r)" if "nInterest (sHeap s r) \<subseteq> {rid}" using that d(2) [OF True] by blast
    ultimately show ?thesis
      unfolding f(13) [OF sOK_D(1) [OF ok]] using True seen [OF d(1) [OF True]] by (cases "nInterest (sHeap s r) \<subseteq> {rid}") simp_all
  qed (simp add: f(13) [OF sOK_D(1) [OF ok]])
qed

text \<open>The queued messages of the evicted nodes are purged.\<close>

lemma evictNode_events:
  "set (sEvents s) \<subseteq> set (sEvents (evictNode r s))" "nQueueSeq (sHeap (evictNode r s) u) = nQueueSeq (sHeap s u)"
  "unwanted s r \<Longrightarrow> nQueueSeq (sHeap s r) \<noteq> 0 \<Longrightarrow> nPhase (sHeap s r) = PhaseQueued \<or> nPhase (sHeap s r) = PhaseRunning
     \<Longrightarrow> JobPurged (nQueueSeq (sHeap s r)) \<in> set (sEvents (evictNode r s))"
  by (auto simp: evictNode_def unwanted_def live_def Let_def purgeNodeStatusLocked_def dropNodeLogLocked_def unlinkDeps_def emit_def)

lemma fold_evict_events: "set (sEvents s) \<subseteq> set (sEvents (fold evictNode rs s))"
  by (induction rs arbitrary: s) (auto dest: evictNode_events(1) [THEN subsetD])

lemma fold_evict_purge:
  assumes "u \<in> set rs" "unwanted s u" "nQueueSeq (sHeap s u) \<noteq> 0" "nPhase (sHeap s u) = PhaseQueued \<or> nPhase (sHeap s u) = PhaseRunning"
  shows "JobPurged (nQueueSeq (sHeap s u)) \<in> set (sEvents (fold evictNode rs s))"
  using assms
proof (induction rs arbitrary: s)
  case (Cons r rs)
  show ?case
  proof (cases "r = u")
    case True
    then show ?thesis using evictNode_events(3) [OF Cons.prems(2,3,4)] fold_evict_events [of "evictNode r s" rs] by auto
  next
    case False
    then have "unwanted (evictNode r s) u" using Cons.prems(2) by (simp add: unwanted_def evictNode_live evictNode_fields)
    then show ?thesis
      using Cons.IH [of "evictNode r s"] Cons.prems False by (simp add: evictNode_fields evictNode_events(2))
  qed
qed simp

lemma dropInterest_purge:
  assumes x: "envOK x" and ok: "sOK T s" and t: "T rid = Some t"
    and r: "live s r" "nInterest (sHeap s r) = {rid}" "nQueueSeq (sHeap s r) \<noteq> 0"
      "nPhase (sHeap s r) = PhaseQueued \<or> nPhase (sHeap s r) = PhaseRunning"
  shows "JobPurged (nQueueSeq (sHeap s r)) \<in> set (sEvents (dropInterestLocked x rid (Some t) s))"
proof -
  define ds where "ds = dfs (sNext s) (\<lambda>r. nDeps (sHeap s r)) [t] []"
  define s1 where "s1 = withdraw rid ds s"
  have tl: "t < sNext s" using sOK_D(1,6) [OF ok] t live_less unfolding targetsOK_def by blast
  have d: "set ds = {r. (t, r) \<in> (edges s)\<^sup>*}" unfolding ds_def by (rule seen_reach [OF sOK_D(2) [OF ok] tl])
  have rl: "r < sNext s" by (rule live_less [OF sOK_D(1) [OF ok] r(1)])
  have ri: "rid \<in> nInterest (sHeap s r)" using r(2) by simp
  obtain t' where "T rid = Some t'" "(t', r) \<in> (edges s)\<^sup>*" using sOK_D(5) [OF ok] rl ri unfolding rootedOK_def by blast
  then have "(t, r) \<in> (edges s)\<^sup>*" using t by simp
  then have rd: "r \<in> set ds" using d by simp
  then have "unwanted s1 r" unfolding unwanted_def s1_def withdraw_fields withdraw_live using r(1,2) by simp
  moreover have "nQueueSeq (sHeap s1 r) = nQueueSeq (sHeap s r)" "nPhase (sHeap s1 r) = nPhase (sHeap s r)"
    by (simp_all add: s1_def withdraw_def)
  moreover have "r \<in> set (xOrd x s1 ds)" using rd envOK_ord [OF x] by simp
  ultimately have "JobPurged (nQueueSeq (sHeap s r)) \<in> set (sEvents (fold evictNode (xOrd x s1 ds) s1))"
    using fold_evict_purge [of r "xOrd x s1 ds" s1] r(3,4) by simp
  then show ?thesis unfolding dropInterest_withdraw by (simp add: Let_def bumpLocked_def ds_def s1_def)
qed

lemma dropInterest_requests: "sRequests (dropInterestLocked x rid target s) = sRequests s"
  by (simp add: dropInterestLocked_def bumpLocked_def Let_def fold_evict split: option.split)

end
