(* ===== verification/SchedSnapshot.thy ===== *)
theory SchedSnapshot
  imports SchedInterest
begin

text \<open>
  What clients see: request snapshots (\<open>assembleLocked\<close>, \<open>elapsedMs\<close> of
  \<open>src/sched/submit.go\<close>), the failure report (\<open>src/sched/diagnose.go\<close>), and the log and
  fleet views (\<open>src/sched/logfold.go\<close>).

  \<open>upstreamFailed\<close> is a recursion with a memo that is shared by all calls of one
  assembly.  It has a depth bound; one more than the number of allocated nodes is
  enough because every nested call memoises another node.
\<close>

section \<open>Snapshots\<close>

fun upstreamFailed :: "nat \<Rightarrow> (nref \<Rightarrow> node) \<Rightarrow> (nref \<Rightarrow> nref list) \<Rightarrow> nref \<Rightarrow> (nref \<Rightarrow> bool option) \<Rightarrow> bool \<times> (nref \<Rightarrow> bool option)"
  and upstreamAny :: "nat \<Rightarrow> (nref \<Rightarrow> node) \<Rightarrow> (nref \<Rightarrow> nref list) \<Rightarrow> nref list \<Rightarrow> (nref \<Rightarrow> bool option) \<Rightarrow> bool \<times> (nref \<Rightarrow> bool option)"
where
  "upstreamFailed 0 h deps r memo = (False, memo)"
| "upstreamFailed (Suc b) h deps r memo =
     (case memo r of
        Some v \<Rightarrow> (v, memo)
      | None \<Rightarrow> (let (v, memo1) = upstreamAny b h deps (deps r) (memo(r := Some False)) in (v, memo1(r := Some v))))"
| "upstreamAny b h deps [] memo = (False, memo)"
| "upstreamAny b h deps (d # ds) memo =
     (if nPhase (h d) = PhaseFailed then (True, memo)
      else (let (v, memo1) = upstreamFailed b h deps d memo in if v then (True, memo1) else upstreamAny b h deps ds memo1))"

definition snapPhase :: "nat \<Rightarrow> (nref \<Rightarrow> node) \<Rightarrow> (nref \<Rightarrow> nref list) \<Rightarrow> nref \<Rightarrow> (nref \<Rightarrow> bool option) \<Rightarrow> phase \<times> (nref \<Rightarrow> bool option)" where
  "snapPhase b h deps r memo =
     (if nPhase (h r) = PhaseDone \<or> nPhase (h r) = PhaseFailed then (nPhase (h r), memo)
      else (let (v, memo1) = upstreamFailed b h deps r memo in (if v then PhaseUpstream else nPhase (h r), memo1)))"

fun snapPhases :: "nat \<Rightarrow> (nref \<Rightarrow> node) \<Rightarrow> (nref \<Rightarrow> nref list) \<Rightarrow> nref list \<Rightarrow> (nref \<Rightarrow> bool option) \<Rightarrow> (nref \<times> phase) list" where
  "snapPhases b h deps [] memo = []"
| "snapPhases b h deps (r # rs) memo = (let (p, memo1) = snapPhase b h deps r memo in (r, p) # snapPhases b h deps rs memo1)"

definition countPhase :: "phase \<Rightarrow> Counts \<Rightarrow> Counts" where
  "countPhase p c =
     (let c1 = c\<lparr>cnTotal := Suc (cnTotal c)\<rparr> in
      case p of
        PhaseDone \<Rightarrow> c1\<lparr>cnDone := Suc (cnDone c)\<rparr>
      | PhaseFailed \<Rightarrow> c1\<lparr>cnFailed := Suc (cnFailed c)\<rparr>
      | PhaseUpstream \<Rightarrow> c1\<lparr>cnFailed := Suc (cnFailed c)\<rparr>
      | PhaseQueued \<Rightarrow> c1\<lparr>cnRunning := Suc (cnRunning c)\<rparr>
      | PhaseRunning \<Rightarrow> c1\<lparr>cnRunning := Suc (cnRunning c)\<rparr>
      | PhasePublishing \<Rightarrow> c1\<lparr>cnRunning := Suc (cnRunning c)\<rparr>
      | PhaseWaiting \<Rightarrow> c1\<lparr>cnWaiting := Suc (cnWaiting c)\<rparr>)"

definition zeroCounts :: Counts where
  "zeroCounts = \<lparr>cnTotal = 0, cnDone = 0, cnRunning = 0, cnFailed = 0, cnWaiting = 0\<rparr>"

definition elapsedMs :: "node \<Rightarrow> int \<Rightarrow> int" where
  "elapsedMs n now =
     (let start = (if nStartedAt n = 0 then nEnqueuedAt n else nStartedAt n);
          stop = (if nDoneAt n \<noteq> 0 then nDoneAt n else now)
      in if start = 0 then 0 else if stop < start then 0 else (stop - start) div 1000000)"

definition nodeSnap :: "'st sched \<Rightarrow> int \<Rightarrow> nref \<times> phase \<Rightarrow> NodeSnap" where
  "nodeSnap s now rp =
     (let n = sHeap s (fst rp) in
      \<lparr>snNode = nName n, snLabel = nLabel n, snPhase = snd rp, snGen = nGen n, snRunner = nRunner n,
       snElapsedMs = elapsedMs n now, snErrSummary = nErrSummary n,
       snDeps = sort (map (\<lambda>d. nName (sHeap s d)) (nDeps n)), snCached = nCached n\<rparr>)"

definition closureOf :: "'st sched \<Rightarrow> nref option \<Rightarrow> nref list" where
  "closureOf s target = (case target of None \<Rightarrow> [] | Some t \<Rightarrow> rev (dfs (sNext s) (\<lambda>r. nDeps (sHeap s r)) [t] []))"

definition requestPhase :: "request \<Rightarrow> 'st sched \<Rightarrow> bool \<Rightarrow> string" where
  "requestPhase rq s anyFailed =
     (if rqCancelled rq then ''cancelled''
      else if rqFailReason rq \<noteq> [] then ''failed''
      else if (case rqTarget rq of Some t \<Rightarrow> nPhase (sHeap s t) = PhaseDone | None \<Rightarrow> False) then ''done''
      else if anyFailed then ''failed'' else ''running'')"

definition assembleLocked :: "'st ext \<Rightarrow> request \<Rightarrow> 'st sched \<Rightarrow> Snapshot \<times> 'st sched" where
  "assembleLocked x rq s =
     (let (now, s1) = timeNow x s;
          phases = snapPhases (Suc (sNext s)) (sHeap s) (\<lambda>r. nDeps (sHeap s r)) (closureOf s (rqTarget rq)) (\<lambda>_. None);
          counts = fold countPhase (map snd phases) zeroCounts;
          anyFailed = (cnFailed counts > 0);
          phase = requestPhase rq s anyFailed
      in (\<lparr>ssRequestID = rqId rq, ssPhase = phase, ssCounts = counts,
           ssNodes = sort_key snNode (map (nodeSnap s now) phases), ssTerminal = (phase \<noteq> ''running''),
           ssError = rqFailReason rq\<rparr>, s1))"

section \<open>Diagnosis\<close>

record NodeDiagnosis =
  ndNode :: string
  ndKind :: kind
  ndPlatform :: string
  ndPhase :: "phase option"
  ndGen :: "64 word"
  ndLabel :: string
  ndAttempts :: "(FailureRecord \<times> bool) list"

record DiagnoseReply =
  drRequestID :: string
  drPhase :: string
  drCounts :: Counts
  drNodes :: "NodeDiagnosis list"
  drTruncated :: bool

definition failuresPerNode :: int where "failuresPerNode = 8"
definition diagnoseDefaultAttempts :: nat where "diagnoseDefaultAttempts = 4"
definition diagnoseMaxNodes :: nat where "diagnoseMaxNodes = 4"

definition failingClosureLocked :: "'st sched \<Rightarrow> request \<Rightarrow> string list" where
  "failingClosureLocked s rq =
     (let closure = closureOf s (rqTarget rq);
          failed = filter (\<lambda>r. nPhase (sHeap s r) = PhaseFailed) closure;
          retrying = filter (\<lambda>r. nPhase (sHeap s r) \<noteq> PhaseFailed \<and> (nConsecRetry (sHeap s r) > 0 \<or> nConsecControl (sHeap s r) > 0)) closure
      in sort (map (\<lambda>r. nName (sHeap s r)) (if failed = [] then retrying else failed)))"

definition synthAttemptLocked :: "'st sched \<Rightarrow> nref \<Rightarrow> FailureRecord" where
  "synthAttemptLocked s r =
     (let n = sHeap s r;
          (h, g, tl, miss) = (case map_of (sLogs s) (nName n) of
              Some lb \<Rightarrow> if nlGen lb = nGen n
                         then (let (h, g, tl) = trimLogSnapshot (nlBuf lb) failureLogHeadCap failureLogTailCap in (h, g, tl, False))
                         else ([], 0, [], True)
            | None \<Rightarrow> ([], 0, [], True))
      in \<lparr>fNode = nName n, fGen = nGen n, fPlatform = nPlatform n, fLabel = [], fOrigin = FailOriginServer,
          fDisposition = FailDispositionFailed, fErrSummary = nErrSummary n, fConsecRetry = nConsecRetry n,
          fConsecCtrl = nConsecControl n, fBackoffMs = 0, fRequestIDs = interestIDs n, fForF = [], fResult = None,
          fEnqueuedNs = nEnqueuedAt n, fStartedNs = nStartedAt n, fFailedNs = nDoneAt n,
          fLogHead = h, fLogGap = g, fLogTail = tl, fLogMissing = miss\<rparr>)"

text \<open>Reading the failure stream: each fetch is given as the messages it delivers, an
  undecodable one as \<open>None\<close>, a failed fetch as an error.  A fetch asks for at most 64.\<close>

fun readFailures :: "nat \<Rightarrow> (string + FailureRecord option list) list \<Rightarrow> FailureRecord list \<Rightarrow> string + FailureRecord list" where
  "readFailures pending [] out = Inr out"
| "readFailures pending (b # bs) out =
     (if pending = 0 then Inr out
      else (case b of
        Inl err \<Rightarrow> Inl (''diagnose: fetch failures: '' @ err)
      | Inr msgs \<Rightarrow>
          (let got = take (min pending 64) msgs; out1 = out @ List.map_filter id got
           in if got = [] then Inr out1 else readFailures (pending - length got) bs out1)))"

definition diagnoseNode :: "'st ext \<Rightarrow> string \<Rightarrow> nat \<Rightarrow> int \<Rightarrow> (string + FailureRecord list) \<Rightarrow> 'st sched \<Rightarrow> string + NodeDiagnosis" where
  "diagnoseNode x name maxAttempts maxLogBytes stored s =
     (case ParseNodeName (xKeyParse x) name of
        None \<Rightarrow> Inl ''diagnose: bad node name''
      | Some i \<Rightarrow>
          (let nd0 = \<lparr>ndNode = name, ndKind = fst i, ndPlatform = [], ndPhase = None, ndGen = 0, ndLabel = [], ndAttempts = []\<rparr>;
               (nd1, synth) = (case sNodes s i of
                   None \<Rightarrow> (nd0, None)
                 | Some r \<Rightarrow>
                     (let n = sHeap s r in
                      (nd0\<lparr>ndPlatform := nPlatform n, ndPhase := Some (nPhase n), ndGen := nGen n, ndLabel := nLabel n\<rparr>,
                       if nPhase n = PhaseFailed then Some (synthAttemptLocked s r) else None)))
           in case stored of
                Inl err \<Rightarrow> Inl err
              | Inr records \<Rightarrow>
                  (let recent = (if length records > maxAttempts then drop (length records - maxAttempts) records else records);
                       attempts = map (\<lambda>rec. trimAttempt rec maxLogBytes) (rev recent);
                       attempts1 = (case (attempts, synth) of
                           ([], Some rec) \<Rightarrow> [trimAttempt rec maxLogBytes] | _ \<Rightarrow> attempts);
                       nd2 = nd1\<lparr>ndAttempts := attempts1\<rparr>
                   in Inr (if ndPlatform nd2 \<noteq> [] then nd2
                           else (case find (\<lambda>a. fPlatform (fst a) \<noteq> []) attempts1 of
                                   Some a \<Rightarrow> nd2\<lparr>ndPlatform := fPlatform (fst a)\<rparr> | None \<Rightarrow> nd2)))))"

fun diagnoseAll :: "(string \<Rightarrow> string + NodeDiagnosis) \<Rightarrow> string list \<Rightarrow> string + NodeDiagnosis list" where
  "diagnoseAll f [] = Inr []"
| "diagnoseAll f (n # ns) =
     (case f n of Inl err \<Rightarrow> Inl err
      | Inr nd \<Rightarrow> (case diagnoseAll f ns of Inl err \<Rightarrow> Inl err | Inr nds \<Rightarrow> Inr (nd # nds)))"

text \<open>Names of the stored records that mention the request, for a request the server has
  forgotten.\<close>

definition taggedNodes :: "string \<Rightarrow> FailureRecord list \<Rightarrow> string list" where
  "taggedNodes rid records = sort (dedupBy id [] (map fNode (filter (\<lambda>rec. rid \<in> set (fRequestIDs rec)) records)))"

definition diagnoseRequest :: "'st ext \<Rightarrow> string \<Rightarrow> nat \<Rightarrow> int \<Rightarrow> (string \<Rightarrow> string + FailureRecord list) \<Rightarrow>
    RequestStatus option \<Rightarrow> (string + FailureRecord list) \<Rightarrow> 'st sched \<Rightarrow> (string + DiagnoseReply) \<times> 'st sched" where
  "diagnoseRequest x rid maxAttempts maxLogBytes stored kv allRecords s =
     (let reply0 = \<lparr>drRequestID = rid, drPhase = [], drCounts = zeroCounts, drNodes = [], drTruncated = False\<rparr>;
          (found, s1) = (case map_of (sRequests s) rid of
              Some rq \<Rightarrow>
                (let (snap, s1) = assembleLocked x rq s
                 in (Inr (failingClosureLocked s1 rq, reply0\<lparr>drPhase := ssPhase snap, drCounts := ssCounts snap\<rparr>), s1))
            | None \<Rightarrow>
                (let reply1 = (case kv of Some st \<Rightarrow> reply0\<lparr>drPhase := rsPhase st, drCounts := rsCounts st\<rparr> | None \<Rightarrow> reply0)
                 in (case allRecords of
                       Inl err \<Rightarrow> (Inl err, s)
                     | Inr records \<Rightarrow>
                         if drPhase reply1 = [] \<and> taggedNodes rid records = []
                         then (Inl (''request '' @ rid @ '' not found (and no failure records mention it)''), s)
                         else (Inr (taggedNodes rid records, reply1), s))))
      in (case found of
            Inl err \<Rightarrow> Inl err
          | Inr (names, reply1) \<Rightarrow>
              (let shown = take diagnoseMaxNodes names;
                   reply2 = reply1\<lparr>drTruncated := (length names > diagnoseMaxNodes)\<rparr>
               in (case diagnoseAll (\<lambda>n. diagnoseNode x n maxAttempts maxLogBytes (stored n) s1) shown of
                     Inl err \<Rightarrow> Inl err | Inr nds \<Rightarrow> Inr (reply2\<lparr>drNodes := nds\<rparr>))), s1))"

definition Diagnose :: "'st ext \<Rightarrow> string \<Rightarrow> string \<Rightarrow> int \<Rightarrow> int \<Rightarrow> (string \<Rightarrow> string + FailureRecord list) \<Rightarrow>
    RequestStatus option \<Rightarrow> (string + FailureRecord list) \<Rightarrow> 'st sched \<Rightarrow> (string + DiagnoseReply) \<times> 'st sched" where
  "Diagnose x rid node maxA maxLogBytes stored kv allRecords s =
     (let maxAttempts = (if maxA \<le> 0 \<or> maxA > failuresPerNode then diagnoseDefaultAttempts else nat maxA) in
      if (rid = []) = (node = []) then (Inl ''diagnose: exactly one of requestId and node must be set'', s)
      else if node \<noteq> [] then
        (case diagnoseNode x node maxAttempts maxLogBytes (stored node) s of
           Inl err \<Rightarrow> (Inl err, s)
         | Inr nd \<Rightarrow>
             if ndAttempts nd = [] then (Inl (''no failure records for node '' @ node), s)
             else (Inr \<lparr>drRequestID = [], drPhase = [], drCounts = zeroCounts, drNodes = [nd], drTruncated = False\<rparr>, s))
      else diagnoseRequest x rid maxAttempts maxLogBytes stored kv allRecords s)"

section \<open>Logs and fleet\<close>

definition onLogChunk :: "'st ext \<Rightarrow> string \<Rightarrow> LogChunk \<Rightarrow> 'st sched \<Rightarrow> 'st sched" where
  "onLogChunk x name chunk s =
     (if name = [] then s
      else
        (let (now, s0) = timeNow x s; s1 = s0\<lparr>sLogs := foldChunk name chunk now (sLogs s0)\<rparr> in
         case ParseNodeName (xKeyParse x) name of
           None \<Rightarrow> s1
         | Some i \<Rightarrow>
             (case sNodes s1 i of
                None \<Rightarrow> s1
              | Some r \<Rightarrow>
                  if nGen (sHeap s1 r) = cGen chunk \<and> nPhase (sHeap s1 r) = PhaseQueued then
                    (let (t, s2) = timeNow x s1
                     in bumpLocked (putNodeStatusLocked r (upd r (\<lambda>n. n\<lparr>nPhase := PhaseRunning, nStartedAt := t\<rparr>) s2)))
                  else s1)))"

record LogView =
  lvNode :: string
  lvGen :: "64 word"
  lvHead :: bytes
  lvGapSize :: int
  lvTail :: bytes

definition Logs :: "'st ext \<Rightarrow> string \<Rightarrow> 'st sched \<Rightarrow> LogView option" where
  "Logs x name s =
     (case ParseNodeName (xKeyParse x) name of
        None \<Rightarrow> None
      | Some _ \<Rightarrow>
          Some (case map_of (sLogs s) name of
                  Some lb \<Rightarrow> \<lparr>lvNode = name, lvGen = nlGen lb, lvHead = lbHead (nlBuf lb), lvGapSize = lbGap (nlBuf lb), lvTail = lbTail (nlBuf lb)\<rparr>
                | None \<Rightarrow> \<lparr>lvNode = name, lvGen = 0, lvHead = [], lvGapSize = 0, lvTail = []\<rparr>))"

definition onRunnerHello :: "'st ext \<Rightarrow> Hello \<Rightarrow> 'st sched \<Rightarrow> 'st sched" where
  "onRunnerHello x h s =
     (if hID h = [] then s
      else (let (t, s1) = timeNow x s in
            s1\<lparr>sFleet := AList.update (hID h) \<lparr>riID = hID h, riName = hName h, riPlatform = hPlatform h, riSize = hSize h,
                 riInFlight = 0, riFreeCPU = hCPUMilli h, riFreeMem = hMemBytes h, riSeenNs = t\<rparr> (sFleet s1)\<rparr>))"

definition onRunnerHeartbeat :: "'st ext \<Rightarrow> Heartbeat \<Rightarrow> 'st sched \<Rightarrow> 'st sched" where
  "onRunnerHeartbeat x hb s =
     (if hbID hb = [] then s
      else (let (t, s1) = timeNow x s;
                info = (case map_of (sFleet s1) (hbID hb) of Some i \<Rightarrow> i
                        | None \<Rightarrow> \<lparr>riID = [], riName = [], riPlatform = [], riSize = [], riInFlight = 0, riFreeCPU = 0, riFreeMem = 0, riSeenNs = 0\<rparr>)
            in s1\<lparr>sFleet := AList.update (hbID hb) (info\<lparr>riID := hbID hb, riInFlight := hbInFlight hb, riFreeCPU := hbFreeCPU hb,
                    riFreeMem := hbFreeMem hb, riSeenNs := t\<rparr>) (sFleet s1)\<rparr>))"

definition livePlatformLocked :: "'st sched \<Rightarrow> string \<Rightarrow> int \<Rightarrow> bool" where
  "livePlatformLocked s platform now \<longleftrightarrow>
     list_ex (\<lambda>(i, info). riPlatform info = platform \<and> riSeenNs info \<ge> now - runnerLiveWindow) (sFleet s)"

definition Fleet :: "'st sched \<Rightarrow> RunnerInfo list" where
  "Fleet s = sort_key riID (map snd (sFleet s))"

end
