(* ===== verification/SchedResults.thy ===== *)
theory SchedResults
  imports SchedEngine
begin

text \<open>
  Results (\<open>src/sched/results.go\<close>): deduplication, the commit behind the publish gate,
  the retry budget, and the cleanup of scratch refs.

  \<open>handleResult\<close> drops the lock while it commits, so it is three steps: \<open>beginResult\<close>
  decides under the lock, \<open>commit\<close> works on the store alone, \<open>endResult\<close> applies its
  verdict under the lock again.  What \<open>runResults\<close> still has to do is a \<open>pending\<close> value.
  The wording of error messages is simplified where the source quotes values.
\<close>

section \<open>Commit\<close>

datatype commitError = GateRejected gateError | BadRefKey string | IncompleteRef string string | PutFailed string | DeriveFailed string

definition isGateError :: "commitError \<Rightarrow> bool" where
  "isGateError e = (case e of GateRejected _ \<Rightarrow> True | BadRefKey _ \<Rightarrow> True | _ \<Rightarrow> False)"

definition commitErrText :: "commitError \<Rightarrow> string" where
  "commitErrText e = (case e of
      GateRejected _ \<Rightarrow> ''ref not permitted''
    | BadRefKey name \<Rightarrow> ''ref '' @ name @ '': bad key''
    | IncompleteRef name err \<Rightarrow> ''ref '' @ name @ '': incomplete closure: '' @ err
    | PutFailed err \<Rightarrow> ''put ref: '' @ err
    | DeriveFailed err \<Rightarrow> ''derive KP: '' @ err)"

record commitSpec =
  csKind :: kind
  csKey :: key
  csPlatform :: string
  csCaches :: "PinnedCache list"
  csRefs :: "RefProposal list"

fun parseKeys :: "(bytes \<Rightarrow> key option) \<Rightarrow> RefProposal list \<Rightarrow> string + (string \<times> key) list" where
  "parseKeys keyParse [] = Inr []"
| "parseKeys keyParse (r # rs) =
     (case keyParse (pKey r) of
        None \<Rightarrow> Inl (pName r)
      | Some k \<Rightarrow> (case parseKeys keyParse rs of Inl name \<Rightarrow> Inl name | Inr ks \<Rightarrow> Inr ((pName r, k) # ks)))"

fun checkAllComplete :: "'st ext \<Rightarrow> (string \<times> key) list \<Rightarrow> 'st \<Rightarrow> (string \<times> string) option" where
  "checkAllComplete x [] w = None"
| "checkAllComplete x ((name, k) # rs) w =
     (case xCheckComplete x w k of Some err \<Rightarrow> Some (name, err) | None \<Rightarrow> checkAllComplete x rs w)"

definition carrierRefs :: "commitSpec \<Rightarrow> (string \<times> key) list \<Rightarrow> (string \<times> key) list" where
  "carrierRefs sp ks =
     (if csKind sp = KindBuildFrom
      then map (\<lambda>(name, k). (FTreeRef k, k)) (filter (\<lambda>(name, k). name = ''build-from:'' @ keyString (csKey sp)) ks)
      else [])"

definition commit :: "'st ext \<Rightarrow> commitSpec \<Rightarrow> 'st \<Rightarrow> commitError option \<times> 'st" where
  "commit x sp w =
     (case gateAllowed (xKeyParse x) (xValidName x) (csKind sp) (csKey sp) (csPlatform sp) (csRefs sp) (csCaches sp) of
        Some err \<Rightarrow> (Some (GateRejected err), w)
      | None \<Rightarrow>
          (case parseKeys (xKeyParse x) (csRefs sp) of
             Inl name \<Rightarrow> (Some (BadRefKey name), w)
           | Inr ks \<Rightarrow>
               (case checkAllComplete x ks w of
                  Some (name, err) \<Rightarrow> (Some (IncompleteRef name err), w)
                | None \<Rightarrow>
                    (case putRefs x (ks @ carrierRefs sp ks) w of
                       (Some err, w1) \<Rightarrow> (Some (PutFailed err), w1)
                     | (None, w1) \<Rightarrow>
                         if csKind sp = KindPin then
                           (case deriveKP x (csKey sp) w1 of
                              (Inl err, w2) \<Rightarrow> (Some (DeriveFailed err), w2)
                            | (Inr _, w2) \<Rightarrow> (None, w2))
                         else (None, w1)))))"

definition deleteScratch :: "'st ext \<Rightarrow> string \<Rightarrow> 'st sched \<Rightarrow> 'st sched" where
  "deleteScratch x ref s =
     (if ref = [] \<or> \<not> HasPrefix ref ''runner-push/'' then s else s\<lparr>sW := xDeleteRef x ref (sW s)\<rparr>)"

section \<open>Retries\<close>

definition backoffFor :: "int \<Rightarrow> nat \<Rightarrow> int" where
  "backoffFor base consec = min (base * 2 ^ (consec - 1)) (30 * base)"

definition retryLocked :: "'st ext \<Rightarrow> nref \<Rightarrow> Result option \<Rightarrow> failOrigin \<Rightarrow> string \<Rightarrow> bool \<Rightarrow> 'st sched \<Rightarrow> 'st sched" where
  "retryLocked x r res origin summary control s =
     (if control then
        (let s1 = upd r (\<lambda>n. n\<lparr>nConsecControl := Suc (nConsecControl n)\<rparr>) s in
         if nConsecControl (sHeap s1 r) > maxConsecControl
         then failNodeAttrLocked x r res origin (''control budget exhausted: '' @ summary) s1
         else enqueueLocked x r (recordFailureLocked x r res origin FailDispositionRetry summary 0
                (upd r (\<lambda>n. n\<lparr>nPhase := PhaseWaiting, nErrSummary := summary\<rparr>) s1)))
      else
        (let s1 = upd r (\<lambda>n. n\<lparr>nConsecRetry := Suc (nConsecRetry n), nConsecControl := 0\<rparr>) s in
         if nConsecRetry (sHeap s1 r) > maxConsecRetryable
         then failNodeAttrLocked x r res origin (''retry budget exhausted: '' @ summary) s1
         else
           (let backoff = backoffFor (sRetryBase s1) (nConsecRetry (sHeap s1 r));
                s2 = recordFailureLocked x r res origin FailDispositionRetry summary backoff
                       (upd r (\<lambda>n. n\<lparr>nPhase := PhaseWaiting, nErrSummary := summary\<rparr>) s1)
            in armReenqueueLocked r backoff (bumpLocked (putNodeStatusLocked r s2)))))"

text \<open>The timer armed by \<open>armReenqueueLocked\<close> fires.\<close>

definition fireTimer :: "'st ext \<Rightarrow> timer \<Rightarrow> 'st sched \<Rightarrow> 'st sched" where
  "fireTimer x tm s =
     (let n = sHeap s (tmNode tm) in
      if sNodes s (tmId tm) \<noteq> Some (tmNode tm) \<or> sClosed s \<or> nGen n \<noteq> tmGen tm \<or> nPhase n \<noteq> PhaseWaiting \<or> nInterest n = {}
      then s else enqueueLocked x (tmNode tm) s)"

section \<open>Handling a result\<close>

datatype pending = Idle | Committing nref Result commitSpec | Committed nref Result "commitError option"

definition resultNode :: "'st ext \<Rightarrow> Result \<Rightarrow> 'st sched \<Rightarrow> nref option" where
  "resultNode x res s =
     (case ParseNodeName (xKeyParse x) (rNode res) of
        None \<Rightarrow> None
      | Some i \<Rightarrow>
          (case sNodes s i of
             None \<Rightarrow> None
           | Some r \<Rightarrow>
               (let n = sHeap s r in
                if rGen res \<noteq> nGen n \<or> rGen res \<le> nLastResultGen n \<or> (nPhase n \<noteq> PhaseQueued \<and> nPhase n \<noteq> PhaseRunning)
                then None else Some r)))"

definition FormatInt :: "int \<Rightarrow> string" where
  "FormatInt i = (if i < 0 then ''-'' @ FormatNat (nat (- i)) else FormatNat (nat i))"

definition touchReads :: "Result \<Rightarrow> 'st sched \<Rightarrow> 'st sched" where
  "touchReads res s = (if rReadRefs res \<noteq> [] then emit (RefsTouched (rReadRefs res)) s else s)"

definition claimResult :: "nref \<Rightarrow> Result \<Rightarrow> 'st sched \<Rightarrow> 'st sched" where
  "claimResult r res s = upd r (\<lambda>n. n\<lparr>nLastResultGen := rGen res, nRunner := rRunner res,
     nStartedAt := (if nStartedAt n = 0 then nEnqueuedAt n else nStartedAt n)\<rparr>) s"

definition applyVerdict :: "'st ext \<Rightarrow> nref \<Rightarrow> Result \<Rightarrow> 'st sched \<Rightarrow> 'st sched" where
  "applyVerdict x r res s =
     (if rClass res = ClassHard then
        failNodeAttrLocked x r (Some res) FailOriginResult
          (if rErrSummary res = [] then ''hard failure (exit '' @ FormatInt (rExit res) @ '')'' else rErrSummary res) s
      else if rClass res = ClassRetryable then retryLocked x r (Some res) FailOriginResult (rErrSummary res) False s
      else if rClass res = ClassControl then retryLocked x r (Some res) FailOriginResult (rErrSummary res) True s
      else if rClass res = ClassCancelled then
        (if nInterest (sHeap s r) \<noteq> {} then retryLocked x r (Some res) FailOriginResult (rErrSummary res) True s else s)
      else failNodeAttrLocked x r (Some res) FailOriginResult (''unknown result class '' @ rClass res) s)"

definition beginResult :: "'st ext \<Rightarrow> Result \<Rightarrow> 'st sched \<Rightarrow> pending \<times> 'st sched" where
  "beginResult x res s =
     (let s0 = touchReads res s in
      case resultNode x res s0 of
        None \<Rightarrow> (Idle, deleteScratch x (rScratchRef res) s0)
      | Some r \<Rightarrow>
          (let s1 = claimResult r res s0 in
           if rClass res = ClassOK then
             (let s2 = bumpLocked (putNodeStatusLocked r (upd r (\<lambda>n. n\<lparr>nPhase := PhasePublishing\<rparr>) s1)); n = sHeap s2 r
              in (Committing r res \<lparr>csKind = fst (nId n), csKey = snd (nId n), csPlatform = nPlatform n,
                                    csCaches = nCaches n, csRefs = rRefs res\<rparr>, s2))
           else (Idle, deleteScratch x (rScratchRef res) (applyVerdict x r res s1))))"

definition runCommit :: "'st ext \<Rightarrow> nref \<Rightarrow> Result \<Rightarrow> commitSpec \<Rightarrow> 'st sched \<Rightarrow> pending \<times> 'st sched" where
  "runCommit x r res sp s = (let (err, w) = commit x sp (sW s) in (Committed r res err, s\<lparr>sW := w\<rparr>))"

definition endResult :: "'st ext \<Rightarrow> nat \<Rightarrow> nref \<Rightarrow> Result \<Rightarrow> commitError option \<Rightarrow> 'st sched \<Rightarrow> 'st sched option" where
  "endResult x fuel r res err s =
     map_option (deleteScratch x (rScratchRef res))
       (let n = sHeap s r in
        if sNodes s (nId n) \<noteq> Some r \<or> nGen n \<noteq> rGen res then Some s
        else (case err of
          None \<Rightarrow> nodeDoneLocked x (advance x fuel) r
                    (applyRecipeLabelLocked r (rRefs res) (upd r (\<lambda>n. n\<lparr>nConsecRetry := 0, nConsecControl := 0\<rparr>) s))
        | Some e \<Rightarrow>
            Some (if isGateError e then failNodeAttrLocked x r (Some res) FailOriginGate (commitErrText e) s
                  else retryLocked x r (Some res) FailOriginCommit (''commit: '' @ commitErrText e) False s)))"

text \<open>The whole handler when nothing else runs in between.\<close>

definition handleResult :: "'st ext \<Rightarrow> nat \<Rightarrow> Result \<Rightarrow> 'st sched \<Rightarrow> 'st sched option" where
  "handleResult x fuel res s =
     (case beginResult x res s of
        (Committing r res' sp, s1) \<Rightarrow>
          (case runCommit x r res' sp s1 of
             (Committed r' res'' err, s2) \<Rightarrow> endResult x fuel r' res'' err s2
           | (_, s2) \<Rightarrow> Some s2)
      | (_, s1) \<Rightarrow> Some s1)"

end
