(* ===== verification/SchedSubmit.thy ===== *)
theory SchedSubmit
  imports SchedSnapshot SchedResults
begin

text \<open>
  Requests (\<open>src/sched/submit.go\<close>, \<open>src/sched/errors.go\<close>): \<open>Submit\<close>, \<open>Cancel\<close>, \<open>Delete\<close>, the
  no-runners watchdog, watchers and the ticker.

  \<open>Submit\<close> validates the definition and writes to the store before it takes the lock
  (\<open>prepareSubmit\<close>) and then registers the request (\<open>submitJoin\<close>).  The random request
  id is an argument.  An error is a pair of an api code and a text.  The request
  table and the watcher set are lists; ranging over them follows the list.
\<close>

type_synonym schedErr = "string \<times> string"

definition CodeBadRequest :: string where "CodeBadRequest = ''bad-request''"
definition CodeNotFound :: string where "CodeNotFound = ''not-found''"
definition CodeIncomplete :: string where "CodeIncomplete = ''incomplete-upload''"
definition CodeInternal :: string where "CodeInternal = ''internal''"
definition CodeUnavailable :: string where "CodeUnavailable = ''unavailable''"

definition badRequest :: "string \<Rightarrow> schedErr" where "badRequest t = (CodeBadRequest, t)"
definition notFound :: "string \<Rightarrow> schedErr" where "notFound t = (CodeNotFound, t)"
definition incomplete :: "string \<Rightarrow> schedErr" where "incomplete t = (CodeIncomplete, t)"
definition internal :: "string \<Rightarrow> schedErr" where "internal t = (CodeInternal, t)"

section \<open>Request status\<close>

definition requestKVKey :: "string \<Rightarrow> string" where
  "requestKVKey i = ''req.'' @ i"

definition requestStatus :: "request \<Rightarrow> Snapshot \<Rightarrow> RequestStatus" where
  "requestStatus r snap = \<lparr>rsPhase = ssPhase snap, rsTargetK = rqK r, rsPlatform = rqPlatform r, rsCounts = ssCounts snap,
     rsCreatedNs = rqCreatedNs r, rsError = ssError snap\<rparr>"

definition putRequestStatusLocked :: "request \<Rightarrow> Snapshot \<Rightarrow> 'st sched \<Rightarrow> 'st sched" where
  "putRequestStatusLocked r snap s =
     emit (RequestPut (requestKVKey (rqId r)) (requestStatus r snap))
       (s\<lparr>sLastReqKV := AList.update (rqId r) (ssPhase snap, ssCounts snap) (sLastReqKV s)\<rparr>)"

definition setRequest :: "string \<Rightarrow> (request \<Rightarrow> request) \<Rightarrow> 'st sched \<Rightarrow> 'st sched" where
  "setRequest rid f s = s\<lparr>sRequests := AList.map_entry rid f (sRequests s)\<rparr>"

section \<open>Submit\<close>

record SubmitRequest =
  sqDef :: bytes
  sqResources :: "(string \<times> string) option"
  sqScratchRef :: string
  sqLabel :: string

definition parseResources :: "(string \<Rightarrow> int option) \<Rightarrow> (string \<times> string) option \<Rightarrow> Resources option" where
  "parseResources milli spec =
     (case spec of
        None \<Rightarrow> Some (Res 0 0)
      | Some (cpu, mem) \<Rightarrow>
          (case (if cpu = [] then Some 0 else ParseCPU milli cpu) of
             None \<Rightarrow> None
           | Some c \<Rightarrow> (case (if mem = [] then Some 0 else ParseMem mem) of None \<Rightarrow> None | Some m \<Rightarrow> Some (Res c m))))"

definition publishTree :: "'st ext \<Rightarrow> Definition \<Rightarrow> 'st \<Rightarrow> schedErr option \<times> 'st" where
  "publishTree x d w =
     (if inKind (dfSource d) \<noteq> ''tree'' then (None, w)
      else (case xDecTree x (inDefinition (dfSource d)) of
        Inl err \<Rightarrow> (Some (badRequest (''submit: decode tree source: '' @ err)), w)
      | Inr t \<Rightarrow>
          (case xCheckComplete x w t of
             Some err \<Rightarrow> (Some (incomplete (''submit: source tree '' @ keyString t @ '' incomplete: '' @ err)), w)
           | None \<Rightarrow>
               (case xPutRef x (''build-from-tree:'' @ keyString t) t w of
                  (Some err, w1) \<Rightarrow> (Some (internal (''submit: publish build-from-tree: '' @ err)), w1)
                | (None, w1) \<Rightarrow> (None, w1)))))"

definition ingestDefinition :: "'st ext \<Rightarrow> bytes \<Rightarrow> 'st \<Rightarrow> (schedErr + key) \<times> 'st" where
  "ingestDefinition x def w =
     (case xIngestFile x def w of
        (Inl err, w1) \<Rightarrow> (Inl (internal (''submit: ingest definition: '' @ err)), w1)
      | (Inr k, w1) \<Rightarrow>
          if xFileKey x def \<noteq> Inr k
          then (Inl (internal (''submit: ingested key '' @ keyString k @ '' does not match definition key'')), w1)
          else (case xPutRef x (''build:'' @ keyString k) k w1 of
                  (Some err, w2) \<Rightarrow> (Inl (internal (''submit: bookkeeping ref: '' @ err)), w2)
                | (None, w2) \<Rightarrow> (Inr k, w2)))"

definition prepareSubmit :: "'st ext \<Rightarrow> SubmitRequest \<Rightarrow> 'st \<Rightarrow> (schedErr + key \<times> Definition \<times> Resources) \<times> 'st" where
  "prepareSubmit x req w =
     (if sqDef req = [] then (Inl (badRequest ''submit: empty definition''), w)
      else (case xDecDef x (sqDef req) of
        Inl err \<Rightarrow> (Inl (badRequest (''submit: decode definition: '' @ err)), w)
      | Inr d \<Rightarrow>
          (case xEncDef x d of
             Inl err \<Rightarrow> (Inl (badRequest (''submit: canonicalize definition: '' @ err)), w)
           | Inr canon \<Rightarrow>
               if canon \<noteq> sqDef req then (Inl (badRequest ''submit: definition is not canonical CBOR''), w)
               else if dfPlatform d = [] then (Inl (badRequest ''submit: definition has no platform''), w)
               else if inKind (dfSource d) \<notin> {''import'', ''build'', ''tree''}
                 then (Inl (badRequest (''submit: unknown source kind '' @ inKind (dfSource d))), w)
               else (case parseResources (xParseMilli x) (sqResources req) of
                 None \<Rightarrow> (Inl (badRequest ''submit: resources''), w)
               | Some res \<Rightarrow>
                   (case publishTree x d w of
                      (Some err, w1) \<Rightarrow> (Inl err, w1)
                    | (None, w1) \<Rightarrow>
                        (case ingestDefinition x (sqDef req) w1 of
                           (Inl err, w2) \<Rightarrow> (Inl err, w2)
                         | (Inr k, w2) \<Rightarrow> (Inr (k, d, res), w2)))))))"

definition newRequest :: "string \<Rightarrow> key \<Rightarrow> string \<Rightarrow> Resources \<Rightarrow> int \<Rightarrow> request" where
  "newRequest rid k platform res t = \<lparr>rqId = rid, rqK = k, rqPlatform = platform, rqRes = res, rqCreatedNs = t,
     rqCancelled = False, rqTarget = None, rqFailReason = [], rqNoRunnersSince = 0\<rparr>"

definition submitJoin :: "'st ext \<Rightarrow> nat \<Rightarrow> string \<Rightarrow> key \<Rightarrow> bytes \<Rightarrow> string \<Rightarrow> Resources \<Rightarrow> string \<Rightarrow> 'st sched
    \<Rightarrow> (schedErr option \<times> 'st sched) option" where
  "submitJoin x fuel rid k def platform res label s =
     (if sClosed s then Some (Some (CodeUnavailable, ''scheduler closed''), s)
      else
        (let (t, s0) = timeNow x s;
             s1 = s0\<lparr>sRequests := AList.update rid (newRequest rid k platform res t) (sRequests s0)\<rparr>
         in do {
           (r, s2) \<leftarrow> require x fuel KindBuildValue k def platform None (Some {rid}) label s1;
           let s3 = setRequest rid (\<lambda>rq. rq\<lparr>rqTarget := Some r\<rparr>) s2;
           let rq = (newRequest rid k platform res t)\<lparr>rqTarget := Some r\<rparr>;
           let (snap, s4) = assembleLocked x rq s3;
           let (now, s5) = timeNow x s4;
           if \<not> ssTerminal snap \<and> \<not> livePlatformLocked s5 platform now then
             (let s6 = dropInterestLocked x rid (Some r) s5
              in Some (Some (CodeUnavailable, ''no live runners for platform '' @ platform @ '' - build rejected (attach a runner and resubmit)''),
                       s6\<lparr>sRequests := AList.delete rid (sRequests s6)\<rparr>))
           else Some (None, bumpLocked (putRequestStatusLocked rq snap s5)) }))"

definition deleteClientScratch :: "'st ext \<Rightarrow> string \<Rightarrow> 'st sched \<Rightarrow> 'st sched" where
  "deleteClientScratch x ref s =
     (if ref = [] \<or> \<not> HasPrefix ref ''client-push/'' then s else s\<lparr>sW := xDeleteRef x ref (sW s)\<rparr>)"

definition Submit :: "'st ext \<Rightarrow> nat \<Rightarrow> string \<Rightarrow> SubmitRequest \<Rightarrow> 'st sched \<Rightarrow> ((schedErr + string \<times> key) \<times> 'st sched) option" where
  "Submit x fuel rid req s =
     (case prepareSubmit x req (sW s) of
        (Inl err, w) \<Rightarrow> Some (Inl err, s\<lparr>sW := w\<rparr>)
      | (Inr (k, d, res), w) \<Rightarrow>
          do { (err, s1) \<leftarrow> submitJoin x fuel rid k (sqDef req) (dfPlatform d) res (sqLabel req) (s\<lparr>sW := w\<rparr>);
               case err of
                 Some e \<Rightarrow> Some (Inl e, s1)
               | None \<Rightarrow> Some (Inr (rid, k), deleteClientScratch x (sqScratchRef req) s1) })"

section \<open>Cancel and Delete\<close>

definition Cancel :: "'st ext \<Rightarrow> string \<Rightarrow> 'st sched \<Rightarrow> schedErr option \<times> 'st sched" where
  "Cancel x rid s =
     (case map_of (sRequests s) rid of
        None \<Rightarrow> (Some (notFound (''request '' @ rid @ '' not found'')), s)
      | Some rq \<Rightarrow>
          if rqCancelled rq then (None, s)
          else
            (let s1 = dropInterestLocked x rid (rqTarget rq) (setRequest rid (\<lambda>rq. rq\<lparr>rqCancelled := True\<rparr>) s);
                 rq1 = rq\<lparr>rqCancelled := True\<rparr>;
                 (snap, s2) = assembleLocked x rq1 s1
             in (None, bumpLocked (putRequestStatusLocked rq1 snap s2))))"

definition Delete :: "'st ext \<Rightarrow> string \<Rightarrow> 'st sched \<Rightarrow> schedErr option \<times> 'st sched" where
  "Delete x rid s =
     (case map_of (sRequests s) rid of
        None \<Rightarrow> (Some (notFound (''request '' @ rid @ '' not found'')), s)
      | Some rq \<Rightarrow>
          (let s1 = dropInterestLocked x rid (rqTarget rq) (setRequest rid (\<lambda>rq. rq\<lparr>rqCancelled := True\<rparr>) s);
               (snap, s2) = assembleLocked x (rq\<lparr>rqCancelled := True\<rparr>) s1;
               final = snap\<lparr>ssTerminal := True\<rparr>;
               s3 = s2\<lparr>sRequests := AList.delete rid (sRequests s2),
                       sWatchers := map (\<lambda>w. if wReqID w = rid then w\<lparr>wFinal := Some final\<rparr> else w) (sWatchers s2)\<rparr>
           in (None, emit (RequestPurge (requestKVKey rid)) (bumpLocked s3))))"

section \<open>The no-runners watchdog\<close>

text \<open>A duration rounded to seconds, as \<open>time.Duration\<close> prints it.\<close>

definition durationString :: "int \<Rightarrow> string" where
  "durationString d =
     (let secs = nat ((d + 500000000) div 1000000000); h = secs div 3600; m = secs div 60 mod 60; sec = secs mod 60 in
      (if h > 0 then FormatNat h @ ''h'' else []) @ (if h > 0 \<or> m > 0 then FormatNat m @ ''m'' else []) @ FormatNat sec @ ''s'')"

definition checkNoRunner :: "'st ext \<Rightarrow> int \<Rightarrow> string \<Rightarrow> 'st sched \<Rightarrow> 'st sched" where
  "checkNoRunner x now rid s =
     (case map_of (sRequests s) rid of
        None \<Rightarrow> s
      | Some rq \<Rightarrow>
          if rqCancelled rq \<or> rqFailReason rq \<noteq> [] then setRequest rid (\<lambda>rq. rq\<lparr>rqNoRunnersSince := 0\<rparr>) s
          else
            (let (snap, s1) = assembleLocked x rq s in
             if ssTerminal snap then setRequest rid (\<lambda>rq. rq\<lparr>rqNoRunnersSince := 0\<rparr>) s1
             else if livePlatformLocked s1 (rqPlatform rq) now then setRequest rid (\<lambda>rq. rq\<lparr>rqNoRunnersSince := 0\<rparr>) s1
             else if rqNoRunnersSince rq = 0 then setRequest rid (\<lambda>rq. rq\<lparr>rqNoRunnersSince := now\<rparr>) s1
             else if now - rqNoRunnersSince rq < sNoRunnerAfter s1 then s1
             else
               bumpLocked (dropInterestLocked x rid (rqTarget rq)
                 (setRequest rid (\<lambda>rq. rq\<lparr>rqFailReason := ''no live runners for platform '' @ rqPlatform rq @ '' for ''
                     @ durationString (now - rqNoRunnersSince rq) @ '' - build failed (attach a runner and resubmit)''\<rparr>) s1))))"

definition checkNoRunnersLocked :: "'st ext \<Rightarrow> int \<Rightarrow> 'st sched \<Rightarrow> 'st sched" where
  "checkNoRunnersLocked x now s = fold (checkNoRunner x now) (map fst (sRequests s)) s"

section \<open>Watching\<close>

definition chanCap :: nat where "chanCap = 8"

definition emptyChan :: chan where
  "emptyChan = \<lparr>chSent = [], chRead = 0, chClosed = False\<rparr>"

text \<open>A non-blocking send: the buffer has room or nothing is sent.  Sending on a closed
  channel would panic; it is \<open>None\<close>.\<close>

definition trySend :: "nat \<Rightarrow> Snapshot \<Rightarrow> 'st sched \<Rightarrow> (bool \<times> 'st sched) option" where
  "trySend c snap s =
     (let ch = sChans s ! c in
      if chClosed ch then None
      else if length (chSent ch) - chRead ch < chanCap
      then Some (True, s\<lparr>sChans := (sChans s)[c := ch\<lparr>chSent := chSent ch @ [snap]\<rparr>]\<rparr>)
      else Some (False, s))"

text \<open>Closing a closed channel would panic as well.\<close>

definition closeChan :: "nat \<Rightarrow> 'st sched \<Rightarrow> 'st sched option" where
  "closeChan c s =
     (let ch = sChans s ! c in
      if chClosed ch then None else Some (s\<lparr>sChans := (sChans s)[c := ch\<lparr>chClosed := True\<rparr>]\<rparr>))"

definition recvSnap :: "nat \<Rightarrow> 'st sched \<Rightarrow> Snapshot option \<times> 'st sched" where
  "recvSnap c s =
     (let ch = sChans s ! c in
      if chRead ch < length (chSent ch)
      then (Some (chSent ch ! chRead ch), s\<lparr>sChans := (sChans s)[c := ch\<lparr>chRead := Suc (chRead ch)\<rparr>]\<rparr>)
      else (None, s))"

definition Watch :: "'st ext \<Rightarrow> string \<Rightarrow> 'st sched \<Rightarrow> ((schedErr + nat) \<times> 'st sched) option" where
  "Watch x rid s =
     (case map_of (sRequests s) rid of
        None \<Rightarrow> Some (Inl (notFound (''request '' @ rid @ '' not found'')), s)
      | Some rq \<Rightarrow>
          (let c = length (sChans s);
               (snap, s1) = assembleLocked x rq (s\<lparr>sChans := sChans s @ [emptyChan]\<rparr>)
           in do {
             (_, s2) \<leftarrow> trySend c snap s1;
             if ssTerminal snap then do { s3 \<leftarrow> closeChan c s2; Some (Inr c, s3) }
             else Some (Inr c, s2\<lparr>sWatchers := sWatchers s2
               @ [\<lparr>wReqID = rid, wCh = c, wLastVer = sVersion s2, wClosed = False, wFinal = None\<rparr>]\<rparr>) }))"

definition stopWatch :: "nat \<Rightarrow> 'st sched \<Rightarrow> 'st sched option" where
  "stopWatch c s =
     (case find (\<lambda>w. wCh w = c) (sWatchers s) of
        None \<Rightarrow> Some s
      | Some w \<Rightarrow>
          if wClosed w then Some s
          else closeChan c (s\<lparr>sWatchers := filter (\<lambda>w. wCh w \<noteq> c) (sWatchers s)\<rparr>))"

text \<open>One watcher in one tick: the snapshot to send and whether to skip it, and its
  delivery.  The cache of snapshots within a tick does not show: nothing changes the
  graph between two assemblies of a tick.\<close>

definition tickSnap :: "'st ext \<Rightarrow> 64 word \<Rightarrow> watcher \<Rightarrow> 'st sched \<Rightarrow> Snapshot \<times> bool \<times> 'st sched" where
  "tickSnap x version w s =
     (case wFinal w of
        Some snap \<Rightarrow> (snap, False, s)
      | None \<Rightarrow>
          (let (snap, s1) = (case map_of (sRequests s) (wReqID w) of
               Some rq \<Rightarrow> assembleLocked x rq s
             | None \<Rightarrow> (\<lparr>ssRequestID = wReqID w, ssPhase = ''cancelled'', ssCounts = zeroCounts, ssNodes = [], ssTerminal = True, ssError = []\<rparr>, s))
           in (snap, wLastVer w = version \<and> \<not> ssTerminal snap, s1)))"

definition deliver :: "64 word \<Rightarrow> watcher \<Rightarrow> Snapshot \<Rightarrow> 'st sched \<Rightarrow> 'st sched option" where
  "deliver version w snap s =
     do { (ok, s1) \<leftarrow> trySend (wCh w) snap s;
          if \<not> ok then Some s1
          else if ssTerminal snap then
            closeChan (wCh w) (s1\<lparr>sWatchers := filter (\<lambda>v. wCh v \<noteq> wCh w) (sWatchers s1)\<rparr>)
          else Some (s1\<lparr>sWatchers := map (\<lambda>v. if wCh v = wCh w then v\<lparr>wLastVer := version\<rparr> else v) (sWatchers s1)\<rparr>) }"

definition tickWatcher :: "'st ext \<Rightarrow> 64 word \<Rightarrow> watcher \<Rightarrow> 'st sched \<Rightarrow> 'st sched option" where
  "tickWatcher x version w s =
     (let (snap, skip, s1) = tickSnap x version w s in if skip then Some s1 else deliver version w snap s1)"

definition mirrorRequest :: "'st ext \<Rightarrow> string \<Rightarrow> 'st sched \<Rightarrow> 'st sched" where
  "mirrorRequest x rid s =
     (case map_of (sRequests s) rid of
        None \<Rightarrow> s
      | Some rq \<Rightarrow>
          (let (snap, s1) = assembleLocked x rq s in
           if map_of (sLastReqKV s1) rid = Some (ssPhase snap, ssCounts snap) then s1
           else putRequestStatusLocked rq snap s1))"

definition runTick :: "'st ext \<Rightarrow> 'st sched \<Rightarrow> 'st sched option" where
  "runTick x s =
     (let (now, s0) = timeNow x s;
          s1 = (if now - sLastNoRunnerCheck s0 \<ge> sNoRunnerCheck s0
                then checkNoRunnersLocked x now (s0\<lparr>sLastNoRunnerCheck := now\<rparr>) else s0);
          version = sVersion s1
      in do {
        s2 \<leftarrow> foldOpt (tickWatcher x version) (sWatchers s1) s1;
        if version \<noteq> sLastKVVersion s2 then
          (let s3 = fold (mirrorRequest x) (map fst (sRequests s2)) (s2\<lparr>sLastKVVersion := version\<rparr>)
           in Some (s3\<lparr>sLastReqKV := filter (\<lambda>(i, v). map_of (sRequests s3) i \<noteq> None) (sLastReqKV s3)\<rparr>))
        else Some s2 })"

definition Close :: "'st sched \<Rightarrow> 'st sched option" where
  "Close s =
     (if sClosed s then Some s
      else map_option (\<lambda>s1. s1\<lparr>sWatchers := []\<rparr>)
        (foldOpt (\<lambda>w s. if wClosed w then Some s else closeChan (wCh w) s) (sWatchers s) (s\<lparr>sClosed := True\<rparr>)))"

section \<open>Listing\<close>

record RequestInfo =
  rnRequestID :: string
  rnK :: key
  rnPlatform :: string
  rnPhase :: string
  rnCounts :: Counts
  rnCreatedNs :: int

fun requestInfos :: "'st ext \<Rightarrow> (string \<times> request) list \<Rightarrow> 'st sched \<Rightarrow> RequestInfo list \<times> 'st sched" where
  "requestInfos x [] s = ([], s)"
| "requestInfos x ((i, rq) # rs) s =
     (let (snap, s1) = assembleLocked x rq s; (infos, s2) = requestInfos x rs s1
      in (\<lparr>rnRequestID = rqId rq, rnK = rqK rq, rnPlatform = rqPlatform rq, rnPhase = ssPhase snap, rnCounts = ssCounts snap,
           rnCreatedNs = rqCreatedNs rq\<rparr> # infos, s2))"

definition Requests :: "'st ext \<Rightarrow> 'st sched \<Rightarrow> RequestInfo list \<times> 'st sched" where
  "Requests x s =
     (let (infos, s1) = requestInfos x (sRequests s) s
      in (sort_key (\<lambda>i. - rnCreatedNs i) (sort_key rnRequestID infos), s1))"

end
