(* ===== verification/SchedSystem.thy ===== *)
theory SchedSystem
  imports SchedSubmit
begin

text \<open>
  The scheduler as a transition system and its invariant.

  A state is the scheduler and what the results loop still has to do.  Steps are the
  locked operations in any order, the unlocked commit between its two locked halves,
  timers, the ticker, reads of watch channels, and arbitrary changes of the world
  outside.  Operations that recurse through the graph appear with any depth bound for
  which they return; \<open>submit_returns\<close> and \<open>endResult_returns\<close> show that there always is one.
\<close>

section \<open>Operations that keep the graph\<close>

definition keeps :: "'st sched \<Rightarrow> 'st sched \<Rightarrow> bool" where
  "keeps s s' \<longleftrightarrow> sRequests s' = sRequests s \<and> sNext s \<le> sNext s' \<and> watching s' = watching s \<and> (\<forall>T. sOK T s \<longrightarrow> sOK T s')"

lemma sOK_cong:
  assumes "sNext s' = sNext s" "sNodes s' = sNodes s" "sHeap s' = sHeap s"
  shows "sOK T s' = sOK T s"
proof -
  have l: "live s' = live s" by (rule ext) (simp add: live_def assms)
  have e: "edges s' = edges s" by (simp add: edges_def assms)
  show ?thesis
    unfolding sOK_def tableOK_def linksOK_def wantedOK_def closedOK_def rootedOK_def targetsOK_def keysOK_def l e assms ..
qed

lemma keeps_refl: "keeps s s"
  by (simp add: keeps_def)

lemma keeps_trans: "keeps s s' \<Longrightarrow> keeps s' s'' \<Longrightarrow> keeps s s''"
  by (auto simp: keeps_def)

lemma keeps_same: "sameGraph s s' \<Longrightarrow> keeps s s'"
  unfolding keeps_def using sameGraph_sOK by (auto simp: sameGraph_def)

lemma keeps_fields:
  "sNext s' = sNext s \<Longrightarrow> sNodes s' = sNodes s \<Longrightarrow> sHeap s' = sHeap s \<Longrightarrow> sRequests s' = sRequests s \<Longrightarrow> watching s' = watching s
   \<Longrightarrow> keeps s s'"
  unfolding keeps_def using sOK_cong [of s' s] by simp

text \<open>Any change of fields other than the links, the interest and the derived keys.\<close>

lemma keeps_heap:
  assumes h: "\<And>r. nId (h r) = nId (sHeap s r) \<and> nDeps (h r) = nDeps (sHeap s r) \<and> nDependents (h r) = nDependents (sHeap s r)
      \<and> nInterest (h r) = nInterest (sHeap s r) \<and> nF (h r) = nF (sHeap s r) \<and> nKP (h r) = nKP (sHeap s r)"
  shows "keeps s (s\<lparr>sHeap := h\<rparr>)"
proof -
  let ?s = "s\<lparr>sHeap := h\<rparr>"
  have hs: "nId (h r) = nId (sHeap s r)" "nDeps (h r) = nDeps (sHeap s r)" "nDependents (h r) = nDependents (sHeap s r)"
    "nInterest (h r) = nInterest (sHeap s r)" "nF (h r) = nF (sHeap s r)" "nKP (h r) = nKP (sHeap s r)" for r
    using h by simp_all
  have l: "live ?s = live s" by (rule ext) (simp add: live_def hs)
  have e: "edges ?s = edges s" by (simp add: edges_def hs)
  have f: "sNext ?s = sNext s" "sNodes ?s = sNodes s" "sRequests ?s = sRequests s" "sHeap ?s = h" by simp_all
  have "sOK T ?s = sOK T s" for T
    unfolding sOK_def tableOK_def linksOK_def wantedOK_def closedOK_def rootedOK_def targetsOK_def keysOK_def l e f hs ..
  then show ?thesis by (simp add: keeps_def)
qed

lemma keeps_upd:
  assumes "\<And>n. nId (f n) = nId n \<and> nDeps (f n) = nDeps n \<and> nDependents (f n) = nDependents n
      \<and> nInterest (f n) = nInterest n \<and> nF (f n) = nF n \<and> nKP (f n) = nKP n"
  shows "keeps s (upd r f s)"
  unfolding upd_def by (rule keeps_heap) (simp add: assms)

lemmas keeps_ops = keeps_same [OF sameGraph_emit] keeps_same [OF sameGraph_bump] keeps_same [OF sameGraph_putNodeStatus]
  keeps_same [OF sameGraph_W] keeps_same [OF sameGraph_record] keeps_same [OF sameGraph_failAttr] keeps_same [OF sameGraph_arm]

lemma keeps_scratch: "keeps s (deleteScratch x ref s)" "keeps s (deleteClientScratch x ref s)"
  by (simp_all add: deleteScratch_def deleteClientScratch_def keeps_refl keeps_ops(4))

lemma keeps_label: "keeps s (applyRecipeLabelLocked r refs s)"
proof -
  have "keeps s (s\<lparr>sHeap := (\<lambda>d. if P d then (sHeap s d)\<lparr>nLabel := l\<rparr> else sHeap s d)\<rparr>)" for P l
    by (rule keeps_heap) simp
  then show ?thesis by (simp add: applyRecipeLabelLocked_def keeps_refl split: option.split)
qed

section \<open>Results keep the graph\<close>

lemma retry_start:
  "keeps s (upd r (\<lambda>n. n\<lparr>nConsecControl := Suc (nConsecControl n)\<rparr>) s)"
  "keeps s (upd r (\<lambda>n. n\<lparr>nConsecRetry := Suc (nConsecRetry n), nConsecControl := 0\<rparr>) s)"
  "keeps s (upd r (\<lambda>n. n\<lparr>nConsecRetry := 0, nConsecControl := 0\<rparr>) s)"
  "keeps s (upd r (\<lambda>n. n\<lparr>nPhase := p, nErrSummary := e\<rparr>) s)"
  "keeps s (upd r (\<lambda>n. n\<lparr>nPhase := p\<rparr>) s)"
  "keeps s (upd r (\<lambda>n. n\<lparr>nPhase := p, nStartedAt := t\<rparr>) s)"
  by (rule keeps_upd; simp)+

lemma recordFailure_heap: "sHeap (recordFailureLocked x r res origin disp e b s) = sHeap s"
  by (auto simp: recordFailureLocked_def emit_def timeNow_eq Let_def split: prod.splits option.splits if_splits)

lemma retry_keeps: "keeps s (retryLocked x r res origin summary control s)"
proof (cases control)
  case True
  define s1 where "s1 = upd r (\<lambda>n. n\<lparr>nConsecControl := Suc (nConsecControl n)\<rparr>) s"
  define s2 where "s2 = upd r (\<lambda>n. n\<lparr>nPhase := PhaseWaiting, nErrSummary := summary\<rparr>) s1"
  define s3 where "s3 = recordFailureLocked x r res origin FailDispositionRetry summary 0 s2"
  have k1: "keeps s s1" and k2: "keeps s1 s2" and k3: "keeps s2 s3"
    unfolding s1_def s2_def s3_def by (rule retry_start keeps_ops)+
  have "nPhase (sHeap s3 r) \<noteq> PhaseDone" by (simp add: s3_def recordFailure_heap s2_def upd_def)
  from keeps_same [OF sameGraph_enqueue [OF this]] have "keeps s (enqueueLocked x r s3)"
    using k1 k2 k3 keeps_trans by blast
  moreover have "keeps s (failNodeAttrLocked x r res origin e s1)" for e by (rule keeps_trans [OF k1 keeps_ops(6)])
  ultimately show ?thesis using True by (simp add: retryLocked_def s1_def s2_def s3_def Let_def)
next
  case False
  define s1 where "s1 = upd r (\<lambda>n. n\<lparr>nConsecRetry := Suc (nConsecRetry n), nConsecControl := 0\<rparr>) s"
  define s2 where "s2 = upd r (\<lambda>n. n\<lparr>nPhase := PhaseWaiting, nErrSummary := summary\<rparr>) s1"
  have k1: "keeps s s1" and k2: "keeps s1 s2"
    unfolding s1_def s2_def by (rule retry_start)+
  have "keeps s (armReenqueueLocked r d (bumpLocked (putNodeStatusLocked r
      (recordFailureLocked x r res origin FailDispositionRetry summary d s2))))" for d
    by (rule keeps_trans [OF keeps_trans [OF keeps_trans [OF keeps_trans [OF keeps_trans [OF k1 k2] keeps_ops(5)] keeps_ops(3)] keeps_ops(2)] keeps_ops(7)])
  moreover have "keeps s (failNodeAttrLocked x r res origin e s1)" for e by (rule keeps_trans [OF k1 keeps_ops(6)])
  ultimately show ?thesis using False by (simp add: retryLocked_def s1_def s2_def Let_def)
qed

lemma verdict_keeps: "keeps s (applyVerdict x r res s)"
  by (simp add: applyVerdict_def retry_keeps keeps_ops keeps_refl)

lemma claim_keeps: "keeps s (claimResult r res s)"
  unfolding claimResult_def by (rule keeps_upd) simp

lemma touch_keeps: "keeps s (touchReads res s)"
  by (simp add: touchReads_def keeps_refl keeps_ops)

lemma beginResult_keeps:
  assumes "beginResult x res s = (p, s')"
  shows "keeps s s'"
proof -
  have "keeps s (deleteScratch x (rScratchRef res) (touchReads res s))"
    by (rule keeps_trans [OF touch_keeps keeps_scratch(1)])
  moreover have "keeps s (deleteScratch x (rScratchRef res) (applyVerdict x r res (claimResult r res (touchReads res s))))" for r
    by (rule keeps_trans [OF keeps_trans [OF keeps_trans [OF touch_keeps claim_keeps] verdict_keeps] keeps_scratch(1)])
  moreover have "keeps s (bumpLocked (putNodeStatusLocked r (upd r (\<lambda>n. n\<lparr>nPhase := PhasePublishing\<rparr>) (claimResult r res (touchReads res s)))))" for r
    by (rule keeps_trans [OF keeps_trans [OF keeps_trans [OF keeps_trans [OF touch_keeps claim_keeps] retry_start(5)] keeps_ops(3)] keeps_ops(2)])
  ultimately show ?thesis
    using assms by (auto simp: beginResult_def Let_def split: option.splits if_splits)
qed

lemma fireTimer_keeps: "keeps s (fireTimer x tm s)"
  by (auto simp: fireTimer_def Let_def keeps_refl intro!: keeps_same sameGraph_enqueue)

lemma runCommit_keeps: "runCommit x r res sp s = (p, s') \<Longrightarrow> keeps s s'"
  by (auto simp: runCommit_def keeps_ops(4) split: prod.splits)

lemma keeps_grow: "grow s s' \<Longrightarrow> (\<And>T. sOK T s \<Longrightarrow> sOK T s') \<Longrightarrow> keeps s s'"
  by (simp add: keeps_def grow_def)

section \<open>The invariant of the requests\<close>

definition targets :: "'st sched \<Rightarrow> string \<Rightarrow> nref option" where
  "targets s rid = (case map_of (sRequests s) rid of
      None \<Rightarrow> None
    | Some rq \<Rightarrow> if rqCancelled rq \<or> rqFailReason rq \<noteq> [] then None else rqTarget rq)"

definition reqsOK :: "'st sched \<Rightarrow> bool" where
  "reqsOK s \<longleftrightarrow> distinct (map fst (sRequests s))
     \<and> (\<forall>rid rq. map_of (sRequests s) rid = Some rq \<longrightarrow> rqId rq = rid \<and> (\<exists>t. rqTarget rq = Some t \<and> t < sNext s))"

definition sysInv :: "'st sched \<Rightarrow> bool" where
  "sysInv s \<longleftrightarrow> sOK (targets s) s \<and> reqsOK s"

lemma sysInv_new: "sysInv (newSched w)"
proof -
  have "targets (newSched w) = (\<lambda>_. None)" by (simp add: targets_def newSched_def fun_eq_iff)
  then show ?thesis using tableOK_newSched [of w] by (simp add: sysInv_def reqsOK_def newSched_def)
qed

lemma sysInv_keeps:
  assumes "keeps s s'" "sysInv s"
  shows "sysInv s'"
proof -
  have r: "sRequests s' = sRequests s" and n: "sNext s \<le> sNext s'" and ok: "sOK (targets s) s'"
    using assms by (simp_all add: keeps_def sysInv_def)
  have "targets s' = targets s" by (simp add: targets_def r fun_eq_iff)
  moreover have "reqsOK s'"
    using assms(2) n unfolding sysInv_def reqsOK_def r by (meson less_le_trans)
  ultimately show ?thesis using ok by (simp add: sysInv_def)
qed

lemma sysInv_fields:
  assumes "sNext s' = sNext s" "sNodes s' = sNodes s" "sHeap s' = sHeap s" "sRequests s' = sRequests s" "sysInv s"
  shows "sysInv s'"
proof -
  have "targets s' = targets s" by (simp add: targets_def assms fun_eq_iff)
  then show ?thesis using assms(5) sOK_cong [OF assms(1,2,3)] by (simp add: sysInv_def reqsOK_def assms)
qed

lemma assemble_snd: "snd (assembleLocked x rq s) = s\<lparr>sW := snd (xNow x (sW s))\<rparr>"
  by (simp add: assembleLocked_def timeNow_eq Let_def)

lemma assemble_keeps: "keeps s (snd (assembleLocked x rq s))"
  by (simp add: assemble_snd keeps_ops(4))

lemma putRequest_keeps: "keeps s (putRequestStatusLocked rq snap s)"
  by (rule keeps_fields) (simp_all add: putRequestStatusLocked_def emit_def)

lemma map_of_setRequest:
  "map_of (sRequests (setRequest rid f s)) i = (if i = rid then map_option f (map_of (sRequests s) rid) else map_of (sRequests s) i)"
  by (simp add: setRequest_def map_of_map_entry split: option.splits)

lemma setRequest_graph: "sOK T (setRequest rid f s) = sOK T s" "sNext (setRequest rid f s) = sNext s"
  by (rule sOK_cong; simp add: setRequest_def) (simp add: setRequest_def)

lemma setRequest_reqsOK:
  assumes "reqsOK s" "\<And>rq. rqId (f rq) = rqId rq \<and> rqTarget (f rq) = rqTarget rq"
  shows "reqsOK (setRequest rid f s)"
  using assms unfolding reqsOK_def map_of_setRequest setRequest_graph(2)
  by (auto simp: setRequest_def distinct_map_entry split: if_splits)

lemma clock_sysInv:
  assumes "sysInv s"
  shows "sysInv (setRequest rid (\<lambda>rq. rq\<lparr>rqNoRunnersSince := t\<rparr>) s)"
proof -
  have "targets (setRequest rid (\<lambda>rq. rq\<lparr>rqNoRunnersSince := t\<rparr>) s) = targets s"
    by (rule ext) (simp add: targets_def map_of_setRequest split: option.splits)
  then show ?thesis using assms setRequest_reqsOK [of s "\<lambda>rq. rq\<lparr>rqNoRunnersSince := t\<rparr>"]
    by (simp add: sysInv_def setRequest_graph)
qed

text \<open>Retiring a request and withdrawing its interest: cancellation, deletion and the
  watchdog all do this.\<close>

lemma retire_sysInv:
  assumes x: "envOK x" and inv: "sysInv s" and rq: "map_of (sRequests s) rid = Some rq"
    and f: "\<And>rq. rqId (f rq) = rqId rq \<and> rqTarget (f rq) = rqTarget rq \<and> (rqCancelled (f rq) \<or> rqFailReason (f rq) \<noteq> [])"
  shows "sysInv (dropInterestLocked x rid (rqTarget rq) (setRequest rid f s))"
proof -
  let ?s1 = "setRequest rid f s"
  have ok: "sOK (targets s) s" and q: "reqsOK s" using inv by (simp_all add: sysInv_def)
  obtain t where t: "rqTarget rq = Some t" "t < sNext s" using q rq unfolding reqsOK_def by blast
  have T: "targets s rid = Some t \<or> targets s rid = None" using rq t by (simp add: targets_def)
  have ok1: "sOK (targets s) ?s1" "t < sNext ?s1" using ok t by (simp_all add: setRequest_graph)
  note d = dropInterest_sOK [OF x ok1 T]
  note st = dropInterest_state(1,2) [OF x sOK_D(2) [OF ok1(1)] ok1(2), of rid]
  have "targets (dropInterestLocked x rid (Some t) ?s1) = (targets s)(rid := None)"
    using f by (intro ext) (simp add: targets_def st map_of_setRequest rq)
  moreover have "reqsOK (dropInterestLocked x rid (Some t) ?s1)"
    using setRequest_reqsOK [OF q, of f rid] f unfolding reqsOK_def st by simp
  ultimately show ?thesis using d t(1) by (simp add: sysInv_def)
qed

lemma forget_sysInv:
  assumes inv: "sysInv s" and rid: "targets s rid = None"
  shows "sysInv (s\<lparr>sRequests := AList.delete rid (sRequests s)\<rparr>)"
proof -
  let ?s = "s\<lparr>sRequests := AList.delete rid (sRequests s)\<rparr>"
  have "targets ?s = targets s"
    using rid by (intro ext) (auto simp: targets_def delete_conv split: option.splits)
  moreover have "reqsOK ?s"
    using inv unfolding sysInv_def reqsOK_def by (auto simp: distinct_delete delete_conv split: if_splits)
  moreover have "sOK T ?s = sOK T s" for T by (rule sOK_cong) simp_all
  ultimately show ?thesis using inv by (simp add: sysInv_def)
qed

section \<open>Operations on requests\<close>

lemma retire_targets:
  assumes x: "envOK x" and inv: "sysInv s" and rq: "map_of (sRequests s) rid = Some rq"
    and f: "\<And>rq. rqId (f rq) = rqId rq \<and> rqTarget (f rq) = rqTarget rq \<and> (rqCancelled (f rq) \<or> rqFailReason (f rq) \<noteq> [])"
  shows "targets (dropInterestLocked x rid (rqTarget rq) (setRequest rid f s)) rid = None"
proof -
  have ok: "sOK (targets s) s" and q: "reqsOK s" using inv by (simp_all add: sysInv_def)
  obtain t where t: "rqTarget rq = Some t" "t < sNext s" using q rq unfolding reqsOK_def by blast
  have ok1: "sOK (targets s) (setRequest rid f s)" "t < sNext (setRequest rid f s)" using ok t by (simp_all add: setRequest_graph)
  note st = dropInterest_state(2) [OF x sOK_D(2) [OF ok1(1)] ok1(2), of rid]
  show ?thesis using f by (simp add: t(1) targets_def st map_of_setRequest rq)
qed

lemma Cancel_sysInv:
  assumes x: "envOK x" and inv: "sysInv s"
  shows "sysInv (snd (Cancel x rid s))"
proof (cases "map_of (sRequests s) rid")
  case (Some rq)
  let ?s1 = "dropInterestLocked x rid (rqTarget rq) (setRequest rid (\<lambda>rq. rq\<lparr>rqCancelled := True\<rparr>) s)"
  have 1: "sysInv ?s1" by (rule retire_sysInv [OF x inv Some]) simp
  have "keeps ?s1 (bumpLocked (putRequestStatusLocked rq' snap (snd (assembleLocked x rq'' ?s1))))" for rq' rq'' snap
    by (rule keeps_trans [OF keeps_trans [OF assemble_keeps putRequest_keeps] keeps_ops(2)])
  from sysInv_keeps [OF this 1] show ?thesis
    using Some inv by (simp add: Cancel_def Let_def case_prod_beta)
qed (use inv in \<open>simp add: Cancel_def\<close>)

lemma Delete_sysInv:
  assumes x: "envOK x" and inv: "sysInv s"
  shows "sysInv (snd (Delete x rid s))"
proof (cases "map_of (sRequests s) rid")
  case (Some rq)
  let ?s1 = "dropInterestLocked x rid (rqTarget rq) (setRequest rid (\<lambda>rq. rq\<lparr>rqCancelled := True\<rparr>) s)"
  let ?s2 = "snd (assembleLocked x (rq\<lparr>rqCancelled := True\<rparr>) ?s1)"
  have 1: "sysInv ?s1" by (rule retire_sysInv [OF x inv Some]) simp
  have 2: "sysInv ?s2" by (rule sysInv_keeps [OF assemble_keeps 1])
  have "targets ?s1 rid = None" by (rule retire_targets [OF x inv Some]) simp
  then have "targets ?s2 rid = None" by (simp add: targets_def assemble_snd)
  note 3 = forget_sysInv [OF 2 this]
  have "sysInv (emit ev (bumpLocked (?s2\<lparr>sRequests := AList.delete rid (sRequests ?s2), sWatchers := ws\<rparr>)))" for ev ws
    by (rule sysInv_fields [OF _ _ _ _ 3]) (simp_all add: emit_def bumpLocked_def)
  then show ?thesis
    using Some by (simp add: Delete_def Let_def case_prod_beta)
qed (use inv in \<open>simp add: Delete_def\<close>)

lemma checkNoRunner_sysInv:
  assumes x: "envOK x" and inv: "sysInv s"
  shows "sysInv (checkNoRunner x now rid s)"
proof (cases "map_of (sRequests s) rid")
  case (Some rq)
  let ?s1 = "snd (assembleLocked x rq s)"
  have 1: "sysInv ?s1" by (rule sysInv_keeps [OF assemble_keeps inv])
  have rq1: "map_of (sRequests ?s1) rid = Some rq" using Some by (simp add: assemble_snd)
  have "sysInv (dropInterestLocked x rid (rqTarget rq) (setRequest rid (\<lambda>rq. rq\<lparr>rqFailReason := ''no live runners for platform '' @ g rq\<rparr>) ?s1))" for g
    by (rule retire_sysInv [OF x 1 rq1]) simp
  from sysInv_keeps [OF keeps_ops(2) this] clock_sysInv [OF inv] clock_sysInv [OF 1] 1 show ?thesis
    using Some by (simp add: checkNoRunner_def Let_def case_prod_beta)
qed (use inv in \<open>simp add: checkNoRunner_def\<close>)

lemma fold_sysInv: "(\<And>a s. sysInv s \<Longrightarrow> sysInv (f a s)) \<Longrightarrow> sysInv s \<Longrightarrow> sysInv (fold f as s)"
  by (induction as arbitrary: s) auto

lemma foldOpt_sysInv:
  "(\<And>a s s'. sysInv s \<Longrightarrow> f a s = Some s' \<Longrightarrow> sysInv s') \<Longrightarrow> sysInv s \<Longrightarrow> foldOpt f as s = Some s' \<Longrightarrow> sysInv s'"
  by (induction as arbitrary: s) (auto split: Option.bind_splits)


section \<open>Submitting returns\<close>

lemma requireRoot_total:
  assumes x: "envOK x" and ok: "sOK T s" and k: "length k = 32" and rid: "T rid = None" and m: "mu s < n"
  obtains r s' where "require x n kd k def platform None (Some {rid}) label s = Some (r, s')" "sOK (T(rid \<mapsto> r)) s'"
    "grow s s'" "live s' r" "nId (sHeap s' r) = (kd, k)"
proof -
  obtain n' where n: "n = Suc n'" using m by (cases n) auto
  have mn: "mu s \<le> n'" using m n by simp
  have e: "require x n = requireBody x (require x n') (advance x n')" by (simp add: n require_def advance_def)
  obtain u s1 where j: "joinNode x kd k def platform None (Some {rid}) label s = (u, s1)" by fastforce
  note J = joinRoot_ok [OF ok k rid j]
  obtain s' where s': "requireBody x (require x n') (advance x n') kd k def platform None (Some {rid}) label s = Some (u, s')"
    "sOK (T(rid \<mapsto> u)) s'" "grow s1 s'"
    using requireBody_ok [OF x engine_total [OF x, of n'] mn j J(1,3,2)] J(5) by blast
  note l = grow_live [OF s'(3) sOK_D(1) [OF J(1)] J(3)]
  show ?thesis
    using that [of u s'] s' l J(4) grow_trans [OF J(2) s'(3)] by (simp add: e)
qed

lemma mu_cong:
  "sNodes s' = sNodes s \<Longrightarrow> sNext s' = sNext s \<Longrightarrow> (\<And>r. nPhase (sHeap s' r) = nPhase (sHeap s r)) \<Longrightarrow> mu s' = mu s"
  by (simp add: mu_def unfinished_def)

text \<open>Registering a request, joining its target and recording the target.\<close>

lemma register_sysInv:
  assumes x: "envOK x" and inv: "sysInv s" and k: "length k = 32" and new: "map_of (sRequests s) rid = None"
    and m: "mu s < n" and req: "rq = newRequest rid k platform res t"
  obtains r s' where
    "require x n KindBuildValue k def platform None (Some {rid}) label (s\<lparr>sRequests := AList.update rid rq (sRequests s)\<rparr>) = Some (r, s')"
    "sysInv (setRequest rid (\<lambda>rq. rq\<lparr>rqTarget := Some r\<rparr>) s')"
    "map_of (sRequests (setRequest rid (\<lambda>rq. rq\<lparr>rqTarget := Some r\<rparr>) s')) rid = Some (rq\<lparr>rqTarget := Some r\<rparr>)"
    "nId (sHeap s' r) = (KindBuildValue, k)" "watching s' = watching s"
proof -
  let ?s = "s\<lparr>sRequests := AList.update rid rq (sRequests s)\<rparr>"
  have ok: "sOK (targets s) s" and q: "reqsOK s" using inv by (simp_all add: sysInv_def)
  have "sOK (targets s) ?s" using ok sOK_cong [of ?s s] by simp
  moreover have "targets s rid = None" using new by (simp add: targets_def)
  moreover have "mu ?s < n" using m mu_cong [of ?s s] by simp
  ultimately obtain r s' where s': "require x n KindBuildValue k def platform None (Some {rid}) label ?s = Some (r, s')"
    "sOK ((targets s)(rid \<mapsto> r)) s'" "grow ?s s'" "live s' r" "nId (sHeap s' r) = (KindBuildValue, k)"
    using requireRoot_total [OF x _ k] by metis
  let ?s' = "setRequest rid (\<lambda>rq. rq\<lparr>rqTarget := Some r\<rparr>) s'"
  have r: "sRequests s' = AList.update rid rq (sRequests s)" and nx: "sNext s \<le> sNext s'" and wt: "watching s' = watching s"
    using s'(3) by (simp_all add: grow_def)
  have mo: "map_of (sRequests ?s') i = (if i = rid then Some (rq\<lparr>rqTarget := Some r\<rparr>) else map_of (sRequests s) i)" for i
    by (simp add: map_of_setRequest r update_conv')
  have "targets ?s' = (targets s)(rid \<mapsto> r)"
    by (rule ext) (simp add: targets_def mo req newRequest_def)
  moreover have "reqsOK ?s'"
    unfolding reqsOK_def mo setRequest_graph(2)
  proof (intro conjI allI impI)
    show "distinct (map fst (sRequests ?s'))"
      using q by (simp add: setRequest_def r distinct_map_entry distinct_update reqsOK_def)
    fix i v assume i: "(if i = rid then Some (rq\<lparr>rqTarget := Some r\<rparr>) else map_of (sRequests s) i) = Some v"
    have old: "rqId v = i \<and> (\<exists>t. rqTarget v = Some t \<and> t < sNext s)" if "map_of (sRequests s) i = Some v"
      using q that unfolding reqsOK_def by blast
    show "rqId v = i" using i old by (auto simp: req newRequest_def split: if_splits)
    show "\<exists>t. rqTarget v = Some t \<and> t < sNext s'"
    proof (cases "i = rid")
      case True
      then show ?thesis using i live_less [OF sOK_D(1) [OF s'(2)] s'(4)] by auto
    qed (use i old nx less_le_trans in fastforce)
  qed
  ultimately have "sysInv ?s'" using s'(2) by (simp add: sysInv_def setRequest_graph)
  then show ?thesis using that s'(1,5) wt mo by auto
qed

lemma reject_sysInv:
  assumes x: "envOK x" and inv: "sysInv s" and t: "map_of (sRequests s) rid = Some rq" "rqTarget rq = Some t"
  shows "sysInv ((dropInterestLocked x rid (Some t) s)\<lparr>sRequests := AList.delete rid (sRequests (dropInterestLocked x rid (Some t) s))\<rparr>)"
proof -
  let ?s = "dropInterestLocked x rid (Some t) s"
  let ?s' = "?s\<lparr>sRequests := AList.delete rid (sRequests ?s)\<rparr>"
  have ok: "sOK (targets s) s" and q: "reqsOK s" using inv by (simp_all add: sysInv_def)
  have tl: "t < sNext s" using q t unfolding reqsOK_def by fastforce
  have T: "targets s rid = Some t \<or> targets s rid = None" using t by (simp add: targets_def)
  note d = dropInterest_sOK [OF x ok tl T]
  note st = dropInterest_state(1,2) [OF x sOK_D(2) [OF ok] tl, of rid]
  have "targets ?s' = (targets s)(rid := None)"
    by (rule ext) (simp add: targets_def st delete_conv)
  moreover have "reqsOK ?s'"
    using q unfolding reqsOK_def by (auto simp: st distinct_delete delete_conv split: if_splits)
  moreover have "sOK T ?s' = sOK T ?s" for T by (rule sOK_cong) simp_all
  ultimately show ?thesis using d by (simp add: sysInv_def)
qed

lemma submit_returns:
  assumes x: "envOK x" and inv: "sysInv s" and k: "length k = 32" and new: "map_of (sRequests s) rid = None" and m: "mu s < n"
  shows "\<exists>err s'. submitJoin x n rid k def platform res label s = Some (err, s') \<and> sysInv s' \<and> watching s' = watching s"
proof (cases "sClosed s")
  case False
  define rq where "rq = newRequest rid k platform res (fst (xNow x (sW s)))"
  let ?s0 = "s\<lparr>sW := snd (xNow x (sW s))\<rparr>"
  have i0: "sysInv ?s0" by (rule sysInv_keeps [OF keeps_ops(4) inv])
  have n0: "map_of (sRequests ?s0) rid = None" "mu ?s0 < n" using new m mu_cong [of ?s0 s] by simp_all
  obtain r s2 where s2:
    "require x n KindBuildValue k def platform None (Some {rid}) label (?s0\<lparr>sRequests := AList.update rid rq (sRequests ?s0)\<rparr>) = Some (r, s2)"
    "sysInv (setRequest rid (\<lambda>rq. rq\<lparr>rqTarget := Some r\<rparr>) s2)"
    "map_of (sRequests (setRequest rid (\<lambda>rq. rq\<lparr>rqTarget := Some r\<rparr>) s2)) rid = Some (rq\<lparr>rqTarget := Some r\<rparr>)"
    "watching s2 = watching ?s0"
    using register_sysInv [OF x i0 k n0 rq_def] by metis
  define s3 where "s3 = setRequest rid (\<lambda>rq. rq\<lparr>rqTarget := Some r\<rparr>) s2"
  obtain snap s4 where a: "assembleLocked x (rq\<lparr>rqTarget := Some r\<rparr>) s3 = (snap, s4)" by fastforce
  have s4: "s4 = s3\<lparr>sW := snd (xNow x (sW s3))\<rparr>" using assemble_snd [of x "rq\<lparr>rqTarget := Some r\<rparr>" s3] a by simp
  let ?s5 = "s4\<lparr>sW := snd (xNow x (sW s4))\<rparr>"
  have i5: "sysInv ?s5" unfolding s4 s3_def by (rule sysInv_keeps [OF keeps_ops(4) sysInv_keeps [OF keeps_ops(4) s2(2)]])
  have "map_of (sRequests ?s5) rid = Some (rq\<lparr>rqTarget := Some r\<rparr>)" using s2(3) by (simp add: s4 s3_def)
  note rej = reject_sysInv [OF x i5 this, of r]
  have acc: "sysInv (bumpLocked (putRequestStatusLocked v snap ?s5))" for v
    by (rule sysInv_keeps [OF keeps_trans [OF putRequest_keeps keeps_ops(2)] i5])
  have "submitJoin x n rid k def platform res label s =
      (if \<not> ssTerminal snap \<and> \<not> livePlatformLocked ?s5 platform (fst (xNow x (sW s4)))
       then Some (Some (CodeUnavailable, ''no live runners for platform '' @ platform @ '' - build rejected (attach a runner and resubmit)''),
              (dropInterestLocked x rid (Some r) ?s5)\<lparr>sRequests := AList.delete rid (sRequests (dropInterestLocked x rid (Some r) ?s5))\<rparr>)
       else Some (None, bumpLocked (putRequestStatusLocked (rq\<lparr>rqTarget := Some r\<rparr>) snap ?s5)))"
    using False s2(1) a unfolding submitJoin_def rq_def s3_def by (simp add: timeNow_eq Let_def)
  moreover have "watching ?s5 = watching s" using s2(4) by (simp add: s4 s3_def setRequest_def)
  moreover have "watching (bumpLocked (putRequestStatusLocked v snap ?s5)) = watching ?s5" for v
    by (simp add: bumpLocked_def putRequestStatusLocked_def emit_def)
  ultimately show ?thesis
    using rej acc dropInterest_watching [of x rid "Some r" ?s5] by simp
qed (use inv in \<open>simp add: submitJoin_def\<close>)

section \<open>Applying a result returns\<close>

lemma good_sysInv: "good (targets s) s m \<Longrightarrow> sysInv s \<Longrightarrow> \<exists>s'. m = Some s' \<and> sysInv s' \<and> watching s' = watching s"
proof -
  assume g: "good (targets s) s m" and inv: "sysInv s"
  then obtain s' where s': "m = Some s'" "sOK (targets s) s'" "grow s s'" unfolding good_def by blast
  have "targets s' = targets s" using s'(3) by (simp add: targets_def grow_def fun_eq_iff)
  moreover have "reqsOK s'" using inv s'(3) unfolding sysInv_def reqsOK_def grow_def by (metis less_le_trans)
  moreover have "watching s' = watching s" using s'(3) by (simp add: grow_def)
  ultimately show ?thesis using s'(1,2) by (simp add: sysInv_def)
qed

lemma applyLabel_fields:
  "sNodes (applyRecipeLabelLocked r refs s) = sNodes s" "sNext (applyRecipeLabelLocked r refs s) = sNext s"
  "nPhase (sHeap (applyRecipeLabelLocked r refs s) u) = nPhase (sHeap s u)"
  "nId (sHeap (applyRecipeLabelLocked r refs s) u) = nId (sHeap s u)"
  by (simp_all add: applyRecipeLabelLocked_def split: option.split)

lemma endResult_returns:
  assumes x: "envOK x" and inv: "sysInv s" and m: "mu s < n"
  shows "\<exists>s'. endResult x n r res err s = Some s' \<and> sysInv s' \<and> watching s' = watching s"
proof -
  let ?P = "\<lambda>s'. sysInv s' \<and> watching s' = watching s"
  define s1 where "s1 = applyRecipeLabelLocked r (rRefs res) (upd r (\<lambda>n. n\<lparr>nConsecRetry := 0, nConsecControl := 0\<rparr>) s)"
  have k: "?P s'" if "keeps s0 s'" "?P s0" for s0 s'
    using sysInv_keeps [OF that(1)] that by (simp add: keeps_def)
  have p: "?P s" using inv by simp
  have i1: "?P s1" unfolding s1_def by (rule k [OF keeps_trans [OF retry_start(3) keeps_label] p])
  have m1: "mu s1 = mu s" unfolding s1_def by (rule mu_cong) (simp_all add: applyLabel_fields, simp_all add: upd_def)
  have l1: "live s1 r \<longleftrightarrow> live s r" by (simp add: live_def s1_def applyLabel_fields, simp add: upd_def)
  have fin: "\<exists>s'. nodeDoneLocked x (advance x n) r s1 = Some s' \<and> ?P s'" if "live s r"
    using good_sysInv [OF nodeDone_good [OF x engine_total(2) [OF x] _ _ _], of s1 r n] i1 l1 m1 that m by (simp add: sysInv_def)
  have fail: "?P (failNodeAttrLocked x r v org e s)" for v org e by (rule k [OF keeps_ops(6) p])
  have retry: "?P (retryLocked x r v org e c s)" for v org e c by (rule k [OF retry_keeps p])
  have scr: "?P s' \<Longrightarrow> ?P (deleteScratch x ref s')" for s' ref by (rule k [OF keeps_scratch(1)])
  show ?thesis
    using fin fail retry scr p unfolding endResult_def s1_def
    by (auto simp: Let_def live_def simp del: watching_def split: option.split)
qed

end
