(* ===== verification/SchedWatch.thy ===== *)
theory SchedWatch
  imports SchedSystem
begin

text \<open>
  Watchers (\<open>Watch\<close>, the watcher loop of \<open>runTicker\<close> and \<open>Close\<close> of \<open>src/sched/submit.go\<close> and
  \<open>src/sched/sched.go\<close>): the invariant of the snapshot channels.

  A channel never holds more than its capacity of unread snapshots, and a terminal
  snapshot is the last one and comes with the close.  A registered watcher owns an open
  channel of its own, on which only snapshots of its request have been sent.  So no step
  sends on a closed channel or closes one twice, either of which would be a panic.
\<close>

definition chanOK :: "chan \<Rightarrow> bool" where
  "chanOK ch \<longleftrightarrow> chRead ch \<le> length (chSent ch) \<and> length (chSent ch) \<le> chRead ch + chanCap
     \<and> list_all (\<lambda>snap. \<not> ssTerminal snap) (butlast (chSent ch))
     \<and> (chClosed ch \<or> list_all (\<lambda>snap. \<not> ssTerminal snap) (chSent ch))"

definition watcherOK :: "chan list \<Rightarrow> watcher \<Rightarrow> bool" where
  "watcherOK chs w \<longleftrightarrow> wCh w < length chs \<and> \<not> chClosed (chs ! wCh w) \<and> \<not> wClosed w
     \<and> list_all (\<lambda>snap. ssRequestID snap = wReqID w) (chSent (chs ! wCh w))
     \<and> (case wFinal w of None \<Rightarrow> True | Some snap \<Rightarrow> ssTerminal snap \<and> ssRequestID snap = wReqID w)"

definition watchOK :: "'st sched \<Rightarrow> bool" where
  "watchOK s \<longleftrightarrow> list_all chanOK (sChans s) \<and> distinct (map wCh (sWatchers s)) \<and> list_all (watcherOK (sChans s)) (sWatchers s)"

lemma watchOK_cong: "watching s' = watching s \<Longrightarrow> watchOK s' = watchOK s"
  by (simp add: watchOK_def)

lemma watchOK_I:
  "list_all chanOK chs \<Longrightarrow> distinct (map wCh ws) \<Longrightarrow> list_all (watcherOK chs) ws \<Longrightarrow> watchOK (s\<lparr>sChans := chs, sWatchers := ws\<rparr>)"
  by (simp add: watchOK_def)

lemma watchOK_new: "watchOK (newSched w)"
  by (simp add: watchOK_def newSched_def)

lemma watchOK_chan: "watchOK s \<Longrightarrow> c < length (sChans s) \<Longrightarrow> chanOK (sChans s ! c)"
  by (simp add: watchOK_def list_all_length)

lemma watchOK_watcher: "watchOK s \<Longrightarrow> w \<in> set (sWatchers s) \<Longrightarrow> watcherOK (sChans s) w"
  by (simp add: watchOK_def list_all_iff)

section \<open>Sending and closing\<close>

text \<open>The channel after a snapshot has been sent on it and, if it is terminal, closed.\<close>

definition push :: "Snapshot \<Rightarrow> chan \<Rightarrow> chan" where
  "push snap ch = ch\<lparr>chSent := chSent ch @ [snap], chClosed := ssTerminal snap\<rparr>"

lemma push_open: "\<not> chClosed ch \<Longrightarrow> \<not> ssTerminal snap \<Longrightarrow> push snap ch = ch\<lparr>chSent := chSent ch @ [snap]\<rparr>"
  by (cases ch) (simp add: push_def)

definition room :: "chan \<Rightarrow> bool" where
  "room ch \<longleftrightarrow> length (chSent ch) - chRead ch < chanCap"

lemma push_ok: "chanOK ch \<Longrightarrow> \<not> chClosed ch \<Longrightarrow> room ch \<Longrightarrow> chanOK (push snap ch)"
  by (auto simp: chanOK_def push_def room_def)

lemma list_all_update: "list_all P xs \<Longrightarrow> P v \<Longrightarrow> list_all P (xs[i := v])"
  by (auto simp: list_all_iff dest!: set_update_subset_insert [THEN subsetD])

text \<open>A watcher other than the owner of channel \<open>c\<close> does not notice a change of \<open>c\<close>.\<close>

lemma watcherOK_other: "watcherOK chs w \<Longrightarrow> wCh w \<noteq> c \<Longrightarrow> watcherOK (chs[c := ch]) w"
  by (simp add: watcherOK_def)

lemma watcherOK_push:
  "watcherOK chs w \<Longrightarrow> ssRequestID snap = wReqID w \<Longrightarrow> \<not> ssTerminal snap \<Longrightarrow> watcherOK (chs[wCh w := push snap (chs ! wCh w)]) w"
  by (simp add: watcherOK_def push_def)

lemma watcherOK_version: "watcherOK chs (w\<lparr>wLastVer := v\<rparr>) = watcherOK chs w"
  by (cases "wFinal w") (simp_all add: watcherOK_def)

lemma deliver_eq:
  assumes "watcherOK (sChans s) w"
  shows "deliver version w snap s =
     (let c = wCh w; s1 = s\<lparr>sChans := (sChans s)[c := push snap (sChans s ! c)]\<rparr> in
      if \<not> room (sChans s ! c) then Some s
      else if ssTerminal snap then Some (s1\<lparr>sWatchers := filter (\<lambda>v. wCh v \<noteq> c) (sWatchers s)\<rparr>)
      else Some (s1\<lparr>sWatchers := map (\<lambda>v. if wCh v = c then v\<lparr>wLastVer := version\<rparr> else v) (sWatchers s)\<rparr>))"
proof -
  have "wCh w < length (sChans s)" "\<not> chClosed (sChans s ! wCh w)" using assms by (simp_all add: watcherOK_def)
  moreover have "ssTerminal snap \<Longrightarrow> (sChans s ! wCh w)\<lparr>chSent := chSent (sChans s ! wCh w) @ [snap], chClosed := True\<rparr> = push snap (sChans s ! wCh w)"
    by (simp add: push_def)
  ultimately show ?thesis
    using push_open [of "sChans s ! wCh w" snap]
    by (cases "ssTerminal snap") (simp_all add: deliver_def trySend_def closeChan_def room_def Let_def)
qed

lemma deliver_watchOK:
  assumes ok: "watchOK s" and w: "w \<in> set (sWatchers s)" and snap: "ssRequestID snap = wReqID w"
  obtains s' where "deliver version w snap s = Some s'" "watchOK s'"
    "\<And>u. u \<in> set (sWatchers s) \<Longrightarrow> wCh u \<noteq> wCh w \<Longrightarrow> u \<in> set (sWatchers s')"
    "s' = s\<lparr>sChans := sChans s', sWatchers := sWatchers s'\<rparr>"
proof -
  let ?c = "wCh w" and ?chs = "sChans s"
  let ?chs' = "?chs[?c := push snap (?chs ! ?c)]"
  have wok: "watcherOK ?chs w" by (rule watchOK_watcher [OF ok w])
  have c: "?c < length ?chs" "\<not> chClosed (?chs ! ?c)" using wok by (simp_all add: watcherOK_def)
  have uniq: "v = w" if "v \<in> set (sWatchers s)" "wCh v = ?c" for v
    using ok w that unfolding watchOK_def by (auto simp: distinct_map dest: inj_onD)
  have chans: "list_all chanOK ?chs'" if "room (?chs ! ?c)"
    using ok push_ok [OF watchOK_chan [OF ok c(1)] c(2) that, of snap] unfolding watchOK_def by (simp add: list_all_update)
  have others: "watcherOK ?chs' v" if "v \<in> set (sWatchers s)" "wCh v \<noteq> ?c" for v
    by (rule watcherOK_other [OF watchOK_watcher [OF ok that(1)] that(2)])
  have own: "watcherOK ?chs' (w\<lparr>wLastVer := version\<rparr>)" if "\<not> ssTerminal snap"
    using watcherOK_push [OF wok snap that] by (simp add: watcherOK_version)
  note d = deliver_eq [OF wok, of version snap, unfolded Let_def]
  show ?thesis
  proof (cases "room (?chs ! ?c)")
    case False
    then show ?thesis using that [of s] d ok by simp
  next
    case room: True
    show ?thesis
    proof (cases "ssTerminal snap")
      case True
      show ?thesis
        by (rule that [of "s\<lparr>sChans := ?chs', sWatchers := filter (\<lambda>v. wCh v \<noteq> ?c) (sWatchers s)\<rparr>"])
          (use room True d ok chans others in \<open>auto simp: watchOK_def list_all_iff distinct_map_filter\<close>)
    next
      case False
      let ?ws = "map (\<lambda>v. if wCh v = ?c then v\<lparr>wLastVer := version\<rparr> else v) (sWatchers s)"
      have e: "map wCh ?ws = map wCh (sWatchers s)" by simp
      have "distinct (map wCh ?ws)" unfolding e using ok by (simp add: watchOK_def)
      moreover have "list_all (watcherOK ?chs') ?ws"
        using others own [OF False] uniq by (auto simp: list_all_iff)
      ultimately have "watchOK (s\<lparr>sChans := ?chs', sWatchers := ?ws\<rparr>)"
        by (intro watchOK_I chans [OF room])
      then show ?thesis
        using that [of "s\<lparr>sChans := ?chs', sWatchers := ?ws\<rparr>"] room False d by force
    qed
  qed
qed

section \<open>One tick\<close>

lemma tickSnap_ok:
  assumes inv: "sysInv s" and w: "watcherOK (sChans s) w" and t: "tickSnap x version w s = (snap, skip, s1)"
  shows "ssRequestID snap = wReqID w" "keeps s s1"
proof -
  have id: "rqId rq = wReqID w" if "map_of (sRequests s) (wReqID w) = Some rq" for rq
    using inv that unfolding sysInv_def reqsOK_def by blast
  have as: "ssRequestID (fst (assembleLocked x rq s)) = rqId rq" for rq
    by (simp add: assembleLocked_def timeNow_eq Let_def)
  show "ssRequestID snap = wReqID w"
    using t w id as by (auto simp: tickSnap_def watcherOK_def case_prod_beta split: option.splits)
  show "keeps s s1"
    using t assemble_keeps by (auto simp: tickSnap_def case_prod_beta keeps_refl split: option.splits)
qed

lemma watching_keeps: "keeps s s' \<Longrightarrow> watching s' = watching s"
  by (simp add: keeps_def)

definition ticked :: "'st sched \<Rightarrow> bool" where
  "ticked s \<longleftrightarrow> sysInv s \<and> watchOK s"

lemma ticked_keeps: "keeps s s' \<Longrightarrow> ticked s \<Longrightarrow> ticked s'"
  unfolding ticked_def using sysInv_keeps watchOK_cong [OF watching_keeps] by blast

lemma ticked_new: "ticked (newSched w)"
  by (simp add: ticked_def sysInv_new watchOK_new)

lemma tickWatcher_step:
  assumes inv: "ticked s" and w: "w \<in> set (sWatchers s)"
  obtains s' where "tickWatcher x version w s = Some s'" "ticked s'"
    "\<And>u. u \<in> set (sWatchers s) \<Longrightarrow> wCh u \<noteq> wCh w \<Longrightarrow> u \<in> set (sWatchers s')" "sRequests s' = sRequests s"
proof -
  obtain snap skip s1 where t: "tickSnap x version w s = (snap, skip, s1)" by (metis prod_cases3)
  have wok: "watcherOK (sChans s) w" using inv w watchOK_watcher by (auto simp: ticked_def)
  note k = tickSnap_ok [OF _ wok t]
  have sys: "sysInv s" using inv by (simp add: ticked_def)
  have s1: "ticked s1" "watching s1 = watching s" "sRequests s1 = sRequests s"
    using ticked_keeps [OF k(2) [OF sys] inv] k(2) [OF sys] by (simp_all add: keeps_def)
  show ?thesis
  proof (cases skip)
    case True
    then show ?thesis using that [of s1] t s1 by (simp add: tickWatcher_def)
  next
    case False
    have w1: "w \<in> set (sWatchers s1)" using w s1(2) by simp
    obtain s' where s': "deliver version w snap s1 = Some s'" "watchOK s'"
      "\<And>u. u \<in> set (sWatchers s1) \<Longrightarrow> wCh u \<noteq> wCh w \<Longrightarrow> u \<in> set (sWatchers s')"
      "s' = s1\<lparr>sChans := sChans s', sWatchers := sWatchers s'\<rparr>"
      by (rule deliver_watchOK [OF _ w1 k(1) [OF sys], of version]) (use s1(1) in \<open>simp_all add: ticked_def\<close>)
    have f: "sNext s' = sNext s1" "sNodes s' = sNodes s1" "sHeap s' = sHeap s1" "sRequests s' = sRequests s1"
      using arg_cong [where f = sNext, OF s'(4)] arg_cong [where f = sNodes, OF s'(4)] arg_cong [where f = sHeap, OF s'(4)]
        arg_cong [where f = sRequests, OF s'(4)] by simp_all
    have "sysInv s'" by (rule sysInv_fields [OF f]) (use s1(1) in \<open>simp add: ticked_def\<close>)
    then show ?thesis using that [of s'] s' s1 f(4) t False by (simp add: tickWatcher_def ticked_def)
  qed
qed

lemma tickWatchers:
  assumes "ticked s" "set ws \<subseteq> set (sWatchers s)" "distinct (map wCh ws)"
  shows "\<exists>s'. foldOpt (tickWatcher x version) ws s = Some s' \<and> ticked s' \<and> sRequests s' = sRequests s"
  using assms
proof (induction ws arbitrary: s)
  case (Cons w ws)
  have w: "w \<in> set (sWatchers s)" using Cons.prems(2) by simp
  obtain s1 where s1: "tickWatcher x version w s = Some s1" "ticked s1"
    "\<And>u. u \<in> set (sWatchers s) \<Longrightarrow> wCh u \<noteq> wCh w \<Longrightarrow> u \<in> set (sWatchers s1)" "sRequests s1 = sRequests s"
    using tickWatcher_step [OF Cons.prems(1) w, of x version] by blast
  have "wCh u \<noteq> wCh w" if "u \<in> set ws" for u using Cons.prems(3) that by (auto simp: image_iff)
  then have "set ws \<subseteq> set (sWatchers s1)" using s1(3) Cons.prems(2) by auto
  then obtain s' where "foldOpt (tickWatcher x version) ws s1 = Some s'" "ticked s'" "sRequests s' = sRequests s1"
    using Cons.IH [OF s1(2)] Cons.prems(3) by auto
  with s1(1,4) show ?case by simp
qed simp

lemma mirror_keeps: "keeps s (mirrorRequest x rid s)"
proof -
  have "keeps s (putRequestStatusLocked rq snap (snd (assembleLocked x rq s)))" for rq snap
    by (rule keeps_trans [OF assemble_keeps putRequest_keeps])
  then show ?thesis by (simp add: mirrorRequest_def case_prod_beta assemble_keeps keeps_refl split: option.split)
qed

lemma fold_keeps: "(\<And>a s. keeps s (f a s)) \<Longrightarrow> keeps s (fold f as s)"
  by (induction as arbitrary: s) (auto intro: keeps_refl keeps_trans)

lemma setRequest_watching [simp]: "sChans (setRequest rid f s) = sChans s" "sWatchers (setRequest rid f s) = sWatchers s"
  by (simp_all add: setRequest_def)

lemma drop_watching [simp]:
  "sChans (dropInterestLocked x rid t s) = sChans s" "sWatchers (dropInterestLocked x rid t s) = sWatchers s"
  using dropInterest_watching [of x rid t s] by simp_all

lemma assemble_watching [simp]:
  "sChans (snd (assembleLocked x rq s)) = sChans s" "sWatchers (snd (assembleLocked x rq s)) = sWatchers s"
  by (simp_all add: assemble_snd)

lemma checkNoRunner_ticked:
  assumes "envOK x" "ticked s"
  shows "ticked (checkNoRunner x now rid s)"
proof -
  have "watching (checkNoRunner x now rid s) = watching s"
    by (simp add: checkNoRunner_def case_prod_beta Let_def bumpLocked_def split: option.split)
  from watchOK_cong [OF this] assms show ?thesis using checkNoRunner_sysInv [of x s] by (simp add: ticked_def)
qed

lemma checkNoRunners_ticked: "envOK x \<Longrightarrow> ticked s \<Longrightarrow> ticked (checkNoRunnersLocked x now s)"
proof -
  assume x: "envOK x" and s: "ticked s"
  have "ticked (fold (checkNoRunner x now) rids s)" for rids
    using s by (induction rids arbitrary: s) (auto simp: checkNoRunner_ticked [OF x])
  then show ?thesis by (simp add: checkNoRunnersLocked_def)
qed

lemma ticked_fields:
  "sNext s' = sNext s \<Longrightarrow> sNodes s' = sNodes s \<Longrightarrow> sHeap s' = sHeap s \<Longrightarrow> sRequests s' = sRequests s \<Longrightarrow> watching s' = watching s
   \<Longrightarrow> ticked s \<Longrightarrow> ticked s'"
  unfolding ticked_def using sysInv_fields watchOK_cong by blast

text \<open>The state in which a tick serves the watchers.\<close>

definition tickStart :: "'st ext \<Rightarrow> 'st sched \<Rightarrow> 'st sched" where
  "tickStart x s =
     (let (now, s0) = timeNow x s in
      if now - sLastNoRunnerCheck s0 \<ge> sNoRunnerCheck s0
      then checkNoRunnersLocked x now (s0\<lparr>sLastNoRunnerCheck := now\<rparr>) else s0)"

lemma tickStart_ticked: "envOK x \<Longrightarrow> ticked s \<Longrightarrow> ticked (tickStart x s)"
proof -
  assume x: "envOK x" and s: "ticked s"
  have "ticked (s\<lparr>sW := v, sLastNoRunnerCheck := t\<rparr>)" "ticked (s\<lparr>sW := v\<rparr>)" for v t
    by (rule ticked_fields [OF _ _ _ _ _ s]; simp)+
  then show ?thesis using checkNoRunners_ticked [OF x] by (simp add: tickStart_def timeNow_eq)
qed

lemma runTick_eq:
  "runTick x s = (let s1 = tickStart x s; version = sVersion s1 in do {
     s2 \<leftarrow> foldOpt (tickWatcher x version) (sWatchers s1) s1;
     if version \<noteq> sLastKVVersion s2 then
       (let s3 = fold (mirrorRequest x) (map fst (sRequests s2)) (s2\<lparr>sLastKVVersion := version\<rparr>)
        in Some (s3\<lparr>sLastReqKV := filter (\<lambda>(i, v). map_of (sRequests s3) i \<noteq> None) (sLastReqKV s3)\<rparr>))
     else Some s2 })"
  by (simp add: runTick_def tickStart_def case_prod_beta Let_def)

lemma runTick_ticked:
  assumes x: "envOK x" and s: "ticked s"
  shows "\<exists>s'. runTick x s = Some s' \<and> ticked s'"
proof -
  let ?s1 = "tickStart x s"
  have t1: "ticked ?s1" by (rule tickStart_ticked [OF x s])
  have "distinct (map wCh (sWatchers ?s1))" using t1 by (simp add: ticked_def watchOK_def)
  then obtain s2 where s2: "foldOpt (tickWatcher x (sVersion ?s1)) (sWatchers ?s1) ?s1 = Some s2" "ticked s2"
    using tickWatchers [OF t1 subset_refl] by blast
  have "ticked (s2\<lparr>sLastKVVersion := v\<rparr>)" for v by (rule ticked_fields [OF _ _ _ _ _ s2(2)]) simp_all
  then have "ticked (fold (mirrorRequest x) ids (s2\<lparr>sLastKVVersion := v\<rparr>))" for ids v
    by (rule ticked_keeps [OF fold_keeps [OF mirror_keeps]])
  then have "ticked ((fold (mirrorRequest x) ids (s2\<lparr>sLastKVVersion := v\<rparr>))\<lparr>sLastReqKV := kv\<rparr>)" for ids v kv
    by (rule ticked_fields [rotated 5]) simp_all
  then show ?thesis using s2 by (simp add: runTick_eq Let_def)
qed

section \<open>Subscribing, reading, stopping\<close>

lemma watcherOK_append: "watcherOK chs w \<Longrightarrow> watcherOK (chs @ [ch]) w"
  by (auto simp: watcherOK_def nth_append)

lemma assemble_id: "ssRequestID (fst (assembleLocked x rq s)) = rqId rq"
  by (simp add: assembleLocked_def timeNow_eq Let_def)

lemma watch_order: "s\<lparr>sWatchers := ws, sChans := chs\<rparr> = s\<lparr>sChans := chs, sWatchers := ws\<rparr>"
  by (cases s) simp

lemma ticked_watching:
  "ticked s \<Longrightarrow> watchOK (s\<lparr>sChans := chs, sWatchers := ws\<rparr>) \<Longrightarrow> ticked (s\<lparr>sChans := chs, sWatchers := ws\<rparr>)"
  unfolding ticked_def using sysInv_fields [of "s\<lparr>sChans := chs, sWatchers := ws\<rparr>" s] by simp

lemma Watch_ticked:
  assumes s: "ticked s"
  shows "\<exists>v s'. Watch x rid s = Some (v, s') \<and> ticked s'"
proof (cases "map_of (sRequests s) rid")
  case None
  then show ?thesis using s by (simp add: Watch_def)
next
  case (Some rq)
  let ?c = "length (sChans s)"
  let ?s0 = "s\<lparr>sChans := sChans s @ [emptyChan]\<rparr>"
  obtain snap s1 where a: "assembleLocked x rq ?s0 = (snap, s1)" by fastforce
  have s1: "s1 = ?s0\<lparr>sW := snd (xNow x (sW s))\<rparr>" using assemble_snd [of x rq ?s0] a by simp
  have "rqId rq = rid" using s Some unfolding ticked_def sysInv_def reqsOK_def by blast
  then have id: "ssRequestID snap = rid" using assemble_id [of x rq ?s0] a by simp
  let ?w = "\<lparr>wReqID = rid, wCh = ?c, wLastVer = sVersion s, wClosed = False, wFinal = None\<rparr>"
  let ?ws = "if ssTerminal snap then sWatchers s else sWatchers s @ [?w]"
  let ?t = "s\<lparr>sW := snd (xNow x (sW s))\<rparr>"
  have old: "list_all chanOK (sChans s)" "distinct (map wCh (sWatchers s))" "list_all (watcherOK (sChans s)) (sWatchers s)"
    using s by (simp_all add: ticked_def watchOK_def)
  have c0: "chanOK emptyChan" "room emptyChan" "\<not> chClosed emptyChan" by (simp_all add: chanOK_def room_def emptyChan_def chanCap_def)
  have "?c \<notin> wCh ` set (sWatchers s)" using old(3) by (auto simp: list_all_iff watcherOK_def)
  moreover have "\<not> ssTerminal snap \<Longrightarrow> watcherOK (sChans s @ [push snap emptyChan]) ?w"
    using id by (simp add: watcherOK_def push_def emptyChan_def)
  moreover have "list_all (watcherOK (sChans s @ [push snap emptyChan])) (sWatchers s)"
    using old(3) watcherOK_append by (auto simp: list_all_iff)
  ultimately have "watchOK (?t\<lparr>sChans := sChans s @ [push snap emptyChan], sWatchers := ?ws\<rparr>)"
    using old push_ok [OF c0(1,3,2), of snap] by (intro watchOK_I) auto
  moreover have "ticked ?t" by (rule ticked_fields [OF _ _ _ _ _ s]) simp_all
  ultimately have "ticked (?t\<lparr>sChans := sChans s @ [push snap emptyChan], sWatchers := ?ws\<rparr>)" by (rule ticked_watching [rotated])
  moreover have "Watch x rid s = Some (Inr ?c, ?t\<lparr>sChans := sChans s @ [push snap emptyChan], sWatchers := ?ws\<rparr>)"
    using Some a c0 push_open [OF c0(3), of snap]
    by (cases "ssTerminal snap") (simp_all add: Watch_def Let_def s1 trySend_def closeChan_def room_def push_def)
  ultimately show ?thesis by blast
qed

lemma watchers_without:
  "list_all (watcherOK chs) ws \<Longrightarrow> list_all (watcherOK (chs[c := ch])) (filter (\<lambda>v. wCh v \<noteq> c) ws)"
  by (auto simp: list_all_iff intro: watcherOK_other)

lemma closed_ok: "chanOK ch \<Longrightarrow> chanOK (ch\<lparr>chClosed := True\<rparr>)"
  by (simp add: chanOK_def)

lemma stopWatch_ticked:
  assumes s: "ticked s"
  shows "\<exists>s'. stopWatch c s = Some s' \<and> ticked s'"
proof (cases "find (\<lambda>w. wCh w = c) (sWatchers s)")
  case None
  then show ?thesis using s by (simp add: stopWatch_def)
next
  case (Some w)
  then have w: "w \<in> set (sWatchers s)" "wCh w = c" by (auto simp: find_Some_iff in_set_conv_nth)
  have ok: "watchOK s" using s by (simp add: ticked_def)
  note wok = watchOK_watcher [OF ok w(1)]
  have c: "c < length (sChans s)" "\<not> chClosed (sChans s ! c)" "\<not> wClosed w" using wok w(2) by (simp_all add: watcherOK_def)
  have "watchOK (s\<lparr>sChans := (sChans s)[c := (sChans s ! c)\<lparr>chClosed := True\<rparr>], sWatchers := filter (\<lambda>w. wCh w \<noteq> c) (sWatchers s)\<rparr>)"
    using ok closed_ok [OF watchOK_chan [OF ok c(1)]] unfolding watchOK_def
    by (simp add: list_all_update watchers_without distinct_map_filter)
  from ticked_watching [OF s this] show ?thesis
    using Some c by (simp add: stopWatch_def closeChan_def Let_def watch_order)
qed

lemma recv_ticked:
  assumes s: "ticked s" and c: "c < length (sChans s)"
  shows "ticked (snd (recvSnap c s))"
proof (cases "chRead (sChans s ! c) < length (chSent (sChans s ! c))")
  case True
  have ok: "watchOK s" using s by (simp add: ticked_def)
  let ?ch = "(sChans s ! c)\<lparr>chRead := Suc (chRead (sChans s ! c))\<rparr>"
  have "chanOK ?ch" using watchOK_chan [OF ok c] True by (auto simp: chanOK_def)
  moreover have "watcherOK ((sChans s)[c := ?ch]) w" if "watcherOK (sChans s) w" for w
    using that by (cases "wCh w = c") (simp_all add: watcherOK_def)
  ultimately have "watchOK (s\<lparr>sChans := (sChans s)[c := ?ch], sWatchers := sWatchers s\<rparr>)"
    using ok unfolding watchOK_def by (simp add: list_all_update) (simp add: list_all_iff)
  from ticked_watching [OF s this] show ?thesis using True by (simp add: recvSnap_def Let_def)
qed (use s in \<open>simp add: recvSnap_def Let_def\<close>)

lemma closeAll:
  assumes "distinct (map wCh ws)" "list_all (\<lambda>w. wCh w < length chs \<and> \<not> chClosed (chs ! wCh w) \<and> \<not> wClosed w) ws" "list_all chanOK chs"
  shows "\<exists>chs'. foldOpt (\<lambda>w s. if wClosed w then Some s else closeChan (wCh w) s) ws (s\<lparr>sChans := chs\<rparr>) = Some (s\<lparr>sChans := chs'\<rparr>)
     \<and> list_all chanOK chs'"
  using assms
proof (induction ws arbitrary: chs)
  case (Cons w ws)
  let ?chs = "chs[wCh w := (chs ! wCh w)\<lparr>chClosed := True\<rparr>]"
  have "list_all (\<lambda>w. wCh w < length ?chs \<and> \<not> chClosed (?chs ! wCh w) \<and> \<not> wClosed w) ws"
    using Cons.prems(1,2) by (auto simp: list_all_iff image_iff nth_list_update)
  moreover have "list_all chanOK ?chs"
    using Cons.prems(2,3) by (intro list_all_update closed_ok) (auto simp: list_all_iff)
  ultimately obtain chs' where
    "foldOpt (\<lambda>w s. if wClosed w then Some s else closeChan (wCh w) s) ws (s\<lparr>sChans := ?chs\<rparr>) = Some (s\<lparr>sChans := chs'\<rparr>)"
    "list_all chanOK chs'"
    using Cons.IH [of ?chs] Cons.prems(1) by auto
  then show ?case using Cons.prems(2) by (intro exI [of _ chs']) (simp add: closeChan_def Let_def)
qed (rule exI, rule conjI, rule foldOpt.simps(1))

lemma Close_ticked:
  assumes s: "ticked s"
  shows "\<exists>s'. Close s = Some s' \<and> ticked s'"
proof (cases "sClosed s")
  case False
  let ?s = "s\<lparr>sClosed := True\<rparr>"
  have ok: "list_all chanOK (sChans s)" "distinct (map wCh (sWatchers s))" "list_all (watcherOK (sChans s)) (sWatchers s)"
    using s by (simp_all add: ticked_def watchOK_def)
  have "list_all (\<lambda>w. wCh w < length (sChans s) \<and> \<not> chClosed (sChans s ! wCh w) \<and> \<not> wClosed w) (sWatchers s)"
    using ok(3) by (simp add: list_all_iff watcherOK_def)
  from closeAll [OF ok(2) this ok(1), of ?s] obtain chs where chs:
    "foldOpt (\<lambda>w s. if wClosed w then Some s else closeChan (wCh w) s) (sWatchers s) ?s = Some (?s\<lparr>sChans := chs\<rparr>)"
    "list_all chanOK chs" by auto
  have "ticked ?s" by (rule ticked_fields [OF _ _ _ _ _ s]) simp_all
  then have "ticked (?s\<lparr>sChans := chs, sWatchers := []\<rparr>)" by (rule ticked_watching) (simp add: watchOK_def chs(2))
  then show ?thesis using False chs(1) by (simp add: Close_def)
qed (use s in \<open>simp add: Close_def\<close>)

section \<open>Cancelling and deleting\<close>

lemma Cancel_ticked: "envOK x \<Longrightarrow> ticked s \<Longrightarrow> ticked (snd (Cancel x rid s))"
proof -
  assume x: "envOK x" and s: "ticked s"
  have "watching (snd (Cancel x rid s)) = watching s"
    by (simp add: Cancel_def case_prod_beta Let_def bumpLocked_def putRequestStatusLocked_def emit_def split: option.split)
  from watchOK_cong [OF this] show ?thesis using s Cancel_sysInv [OF x] by (simp add: ticked_def)
qed

lemma Delete_ticked:
  assumes x: "envOK x" and s: "ticked s"
  shows "ticked (snd (Delete x rid s))"
proof (cases "map_of (sRequests s) rid")
  case None
  then show ?thesis using s by (simp add: Delete_def)
next
  case (Some rq)
  let ?s1 = "dropInterestLocked x rid (rqTarget rq) (setRequest rid (\<lambda>rq. rq\<lparr>rqCancelled := True\<rparr>) s)"
  let ?rq = "rq\<lparr>rqCancelled := True\<rparr>"
  define final where "final = (fst (assembleLocked x ?rq ?s1))\<lparr>ssTerminal := True\<rparr>"
  define ws where "ws = map (\<lambda>w. if wReqID w = rid then w\<lparr>wFinal := Some final\<rparr> else w) (sWatchers s)"
  have "rqId rq = rid" using s Some unfolding ticked_def sysInv_def reqsOK_def by blast
  then have id: "ssRequestID final = rid" "ssTerminal final" using assemble_id [of x ?rq ?s1] by (simp_all add: final_def)
  have ok: "list_all chanOK (sChans s)" "distinct (map wCh (sWatchers s))" "list_all (watcherOK (sChans s)) (sWatchers s)"
    using s by (simp_all add: ticked_def watchOK_def)
  have e: "map wCh ws = map wCh (sWatchers s)" by (simp add: ws_def)
  have "list_all (watcherOK (sChans s)) ws" using ok(3) id by (auto simp: ws_def list_all_iff watcherOK_def)
  moreover have "distinct (map wCh ws)" unfolding e by (rule ok(2))
  moreover have "sChans (snd (Delete x rid s)) = sChans s" "sWatchers (snd (Delete x rid s)) = ws"
    using Some by (simp_all add: Delete_def case_prod_beta Let_def bumpLocked_def emit_def final_def ws_def)
  ultimately show ?thesis using Delete_sysInv [OF x, of s rid] s ok(1) by (simp add: ticked_def watchOK_def)
qed

section \<open>Terminal requests\<close>

definition anyFailed :: "'st sched \<Rightarrow> request \<Rightarrow> bool" where
  "anyFailed s rq \<longleftrightarrow> cnFailed (fold countPhase (map snd (snapPhases (Suc (sNext s)) (sHeap s) (\<lambda>r. nDeps (sHeap s r))
     (closureOf s (rqTarget rq)) (\<lambda>_. None))) zeroCounts) > 0"

definition terminalReq :: "'st sched \<Rightarrow> request \<Rightarrow> bool" where
  "terminalReq s rq \<longleftrightarrow> requestPhase rq s (anyFailed s rq) \<noteq> ''running''"

definition terminalNow :: "'st sched \<Rightarrow> string \<Rightarrow> bool" where
  "terminalNow s rid \<longleftrightarrow> (case map_of (sRequests s) rid of None \<Rightarrow> True | Some rq \<Rightarrow> terminalReq s rq)"

lemma assemble_terminal: "ssTerminal (fst (assembleLocked x rq s)) \<longleftrightarrow> terminalReq s rq"
  by (simp add: assembleLocked_def timeNow_eq Let_def terminalReq_def anyFailed_def)

lemma upstreamAny_cong:
  assumes "\<And>r. nPhase (h' r) = nPhase (h r)" "\<And>r memo. upstreamFailed b h' deps r memo = upstreamFailed b h deps r memo"
  shows "upstreamAny b h' deps ds memo = upstreamAny b h deps ds memo"
  by (induction ds arbitrary: memo) (simp_all add: assms case_prod_beta)

lemma upstream_cong:
  assumes "\<And>r. nPhase (h' r) = nPhase (h r)"
  shows "upstreamFailed b h' deps r memo = upstreamFailed b h deps r memo"
proof (induction b arbitrary: r memo)
  case (Suc b)
  then show ?case using upstreamAny_cong [of h' h b deps, OF assms] by (simp split: option.split)
qed simp

lemma snapPhases_cong:
  assumes "\<And>r. nPhase (h' r) = nPhase (h r)"
  shows "snapPhases b h' deps rs memo = snapPhases b h deps rs memo"
  by (induction rs arbitrary: memo) (simp_all add: snapPhase_def assms upstream_cong [of h' h] case_prod_beta)

text \<open>Whether a request is terminal depends on the phases and the links of the nodes and on
  its own cancellation, failure and target.\<close>

lemma terminalReq_cong:
  assumes n: "sNext s' = sNext s" and h: "\<And>r. nPhase (sHeap s' r) = nPhase (sHeap s r) \<and> nDeps (sHeap s' r) = nDeps (sHeap s r)"
    and q: "rqCancelled rq' = rqCancelled rq" "rqFailReason rq' = rqFailReason rq" "rqTarget rq' = rqTarget rq"
  shows "terminalReq s' rq' = terminalReq s rq"
proof -
  have d: "(\<lambda>r. nDeps (sHeap s' r)) = (\<lambda>r. nDeps (sHeap s r))" using h by auto
  have "closureOf s' t = closureOf s t" for t unfolding closureOf_def n d ..
  then have "anyFailed s' rq' = anyFailed s rq"
    using h by (simp add: anyFailed_def n d q snapPhases_cong [of "sHeap s'" "sHeap s"])
  then show ?thesis using h by (simp add: terminalReq_def requestPhase_def q split: option.split)
qed

lemma terminalNow_fields:
  "sNext s' = sNext s \<Longrightarrow> sHeap s' = sHeap s \<Longrightarrow> sRequests s' = sRequests s \<Longrightarrow> terminalNow s' rid = terminalNow s rid"
  by (simp add: terminalNow_def terminalReq_cong [of s' s] split: option.split)

lemma clock_terminal: "terminalNow (setRequest r (\<lambda>rq. rq\<lparr>rqNoRunnersSince := t\<rparr>) s) rid = terminalNow s rid"
proof -
  have "terminalReq (setRequest r (\<lambda>rq. rq\<lparr>rqNoRunnersSince := t\<rparr>) s) rq' = terminalReq s rq"
    if "rqCancelled rq' = rqCancelled rq" "rqFailReason rq' = rqFailReason rq" "rqTarget rq' = rqTarget rq" for rq rq'
    by (rule terminalReq_cong) (simp_all add: setRequest_def that)
  then show ?thesis by (simp add: terminalNow_def map_of_setRequest split: option.split)
qed

lemma checkNoRunner_terminal:
  assumes x: "envOK x" and inv: "sysInv s" and t: "terminalNow s rid"
  shows "terminalNow (checkNoRunner x now r s) rid"
proof (cases "map_of (sRequests s) r")
  case None
  then show ?thesis using t by (simp add: checkNoRunner_def)
next
  case (Some rq)
  let ?s1 = "snd (assembleLocked x rq s)"
  have t1: "terminalNow ?s1 rid" using t terminalNow_fields [of ?s1 s] by (simp add: assemble_snd)
  have "terminalNow (bumpLocked (dropInterestLocked x r (rqTarget rq) (setRequest r f ?s1))) rid"
    if open': "\<not> terminalReq s rq" and f: "\<And>q. rqId (f q) = rqId q \<and> rqTarget (f q) = rqTarget q \<and> rqCancelled (f q) = rqCancelled q" for f
  proof -
    let ?s2 = "setRequest r f ?s1"
    have ne: "rid \<noteq> r" using t Some open' by (auto simp: terminalNow_def)
    obtain u where u: "rqTarget rq = Some u" "u < sNext s" using inv Some unfolding sysInv_def reqsOK_def by blast
    have "sOK (targets s) ?s2" using inv sOK_cong [of ?s2 s] by (simp add: sysInv_def setRequest_def assemble_snd)
    note d = dropInterest_state [OF x sOK_D(2) [OF this], of u r]
    have "terminalReq (bumpLocked (dropInterestLocked x r (Some u) ?s2)) q = terminalReq s q" for q
      by (rule terminalReq_cong) (use u(2) d in \<open>simp_all add: bumpLocked_def setRequest_def assemble_snd\<close>)
    moreover have "map_of (sRequests (bumpLocked (dropInterestLocked x r (Some u) ?s2))) rid = map_of (sRequests s) rid"
      using ne u(2) d by (simp add: bumpLocked_def map_of_setRequest setRequest_graph) (simp add: setRequest_def map_of_map_entry assemble_snd)
    ultimately show ?thesis using t unfolding u(1) terminalNow_def by (simp split: option.splits)
  qed
  then show ?thesis
    using Some t t1 by (simp add: checkNoRunner_def case_prod_beta Let_def assemble_terminal clock_terminal)
qed

lemma tickStart_terminal:
  assumes x: "envOK x" and inv: "sysInv s" and t: "terminalNow s rid"
  shows "terminalNow (tickStart x s) rid"
proof -
  have f: "sysInv (fold (checkNoRunner x now) rids s') \<and> terminalNow (fold (checkNoRunner x now) rids s') rid"
    if "sysInv s'" "terminalNow s' rid" for now rids s'
    using that by (induction rids arbitrary: s') (auto simp: checkNoRunner_sysInv [OF x] checkNoRunner_terminal [OF x])
  have "sysInv (s\<lparr>sW := v, sLastNoRunnerCheck := c\<rparr>)" "terminalNow (s\<lparr>sW := v, sLastNoRunnerCheck := c\<rparr>) rid"
    "terminalNow (s\<lparr>sW := v\<rparr>) rid" for v c
    using t terminalNow_fields [of "s\<lparr>sW := v, sLastNoRunnerCheck := c\<rparr>" s] terminalNow_fields [of "s\<lparr>sW := v\<rparr>" s]
      sysInv_fields [of "s\<lparr>sW := v, sLastNoRunnerCheck := c\<rparr>" s] inv by simp_all
  then show ?thesis using f by (simp add: tickStart_def timeNow_eq checkNoRunnersLocked_def)
qed

lemma tickStart_watching: "watching (tickStart x s) = watching s"
proof -
  have "watching (checkNoRunner x now rid s) = watching s" for now rid and s :: "'a sched"
    by (simp add: checkNoRunner_def case_prod_beta Let_def bumpLocked_def split: option.split)
  then have "watching (fold (checkNoRunner x now) rids s) = watching s" for now rids and s :: "'a sched"
    by (induction rids arbitrary: s) (simp_all del: watching_def)
  then show ?thesis by (simp add: tickStart_def timeNow_eq checkNoRunnersLocked_def)
qed

text \<open>A watcher whose snapshot is terminal gets it in this tick if its channel has room.\<close>

definition dueTerminal :: "'st sched \<Rightarrow> watcher \<Rightarrow> bool" where
  "dueTerminal s w \<longleftrightarrow> wFinal w \<noteq> None \<or> terminalNow s (wReqID w)"

lemma tickSnap_terminal:
  assumes w: "watcherOK (sChans s) w" and due: "dueTerminal s w" and t: "tickSnap x version w s = (snap, skip, s1)"
  shows "ssTerminal snap" "\<not> skip"
proof -
  have "ssTerminal snap \<and> \<not> skip"
    using t w due assemble_terminal [of x _ s]
    by (auto simp: tickSnap_def dueTerminal_def terminalNow_def watcherOK_def case_prod_beta split: option.splits)
  then show "ssTerminal snap" "\<not> skip" by simp_all
qed

text \<open>A watcher's turn touches its own channel only.\<close>

lemma tickWatcher_frame:
  assumes inv: "ticked s" and w: "w \<in> set (sWatchers s)" and t: "tickWatcher x version w s = Some s'"
  shows "c \<noteq> wCh w \<Longrightarrow> sChans s' ! c = sChans s ! c" "sRequests s' = sRequests s" "sHeap s' = sHeap s" "sNext s' = sNext s"
proof -
  obtain snap skip s1 where k: "tickSnap x version w s = (snap, skip, s1)" by (metis prod_cases3)
  then have s1: "\<exists>v. s1 = s\<lparr>sW := v\<rparr>"
    using assemble_snd [of x _ s] by (auto simp: tickSnap_def case_prod_beta split: option.splits intro: exI [of _ "sW s"])
  then obtain v where v: "s1 = s\<lparr>sW := v\<rparr>" by blast
  have wok: "watcherOK (sChans s1) w" using inv w watchOK_watcher by (auto simp: ticked_def v)
  have "s' = s1 \<or> deliver version w snap s1 = Some s'" using t k by (auto simp: tickWatcher_def split: if_splits)
  then show "c \<noteq> wCh w \<Longrightarrow> sChans s' ! c = sChans s ! c" "sRequests s' = sRequests s" "sHeap s' = sHeap s" "sNext s' = sNext s"
    using deliver_eq [OF wok, of version snap] by (auto simp: Let_def v split: if_splits)
qed

lemma tickWatcher_delivers:
  assumes inv: "ticked s" and w: "w \<in> set (sWatchers s)" and due: "dueTerminal s w" and room: "room (sChans s ! wCh w)"
    and t: "tickWatcher x version w s = Some s'"
  shows "\<exists>snap. sChans s' ! wCh w = push snap (sChans s ! wCh w) \<and> ssTerminal snap \<and> ssRequestID snap = wReqID w"
proof -
  obtain snap skip s1 where k: "tickSnap x version w s = (snap, skip, s1)" by (metis prod_cases3)
  have wok: "watcherOK (sChans s) w" and sys: "sysInv s" using inv w watchOK_watcher by (auto simp: ticked_def)
  note trm = tickSnap_terminal [OF wok due k] and id = tickSnap_ok [OF sys wok k]
  have ch: "sChans s1 = sChans s" using watching_keeps [OF id(2)] by simp
  then have wok1: "watcherOK (sChans s1) w" using wok by simp
  have "deliver version w snap s1 = Some s'" using t k trm(2) by (simp add: tickWatcher_def)
  moreover have "wCh w < length (sChans s)" using wok by (simp add: watcherOK_def)
  ultimately have "sChans s' ! wCh w = push snap (sChans s ! wCh w)"
    using deliver_eq [OF wok1, of version snap] room trm(1) ch by (simp add: Let_def) auto
  then show ?thesis using trm(1) id(1) by blast
qed

lemma tickWatcher_next:
  assumes "ticked s" "set (w # ws) \<subseteq> set (sWatchers s)" "distinct (map wCh (w # ws))" "tickWatcher x version w s = Some s1"
  shows "ticked s1" "set ws \<subseteq> set (sWatchers s1)"
proof -
  have w: "w \<in> set (sWatchers s)" using assms(2) by simp
  obtain s2 where s2: "tickWatcher x version w s = Some s2" "ticked s2"
    "\<And>u. u \<in> set (sWatchers s) \<Longrightarrow> wCh u \<noteq> wCh w \<Longrightarrow> u \<in> set (sWatchers s2)"
    using tickWatcher_step [OF assms(1) w, of x version] by blast
  have "wCh u \<noteq> wCh w" if "u \<in> set ws" for u using assms(3) that by (auto simp: image_iff)
  then show "ticked s1" "set ws \<subseteq> set (sWatchers s1)" using s2 assms(2,4) by auto
qed

lemma ticks_frame:
  assumes "ticked s" "set ws \<subseteq> set (sWatchers s)" "distinct (map wCh ws)" "foldOpt (tickWatcher x version) ws s = Some s'"
    "c \<notin> wCh ` set ws"
  shows "sChans s' ! c = sChans s ! c"
  using assms
proof (induction ws arbitrary: s)
  case (Cons w ws)
  then obtain s1 where s1: "tickWatcher x version w s = Some s1" "foldOpt (tickWatcher x version) ws s1 = Some s'"
    by (auto split: Option.bind_splits)
  note n = tickWatcher_next [OF Cons.prems(1,2,3) s1(1)]
  have w: "w \<in> set (sWatchers s)" using Cons.prems(2) by simp
  show ?case using Cons.IH [OF n _ s1(2)] Cons.prems(3,5) tickWatcher_frame(1) [OF Cons.prems(1) w s1(1), of c] by auto
qed simp

lemma ticks_deliver:
  assumes "ticked s" "set ws \<subseteq> set (sWatchers s)" "distinct (map wCh ws)" "foldOpt (tickWatcher x version) ws s = Some s'"
    "w \<in> set ws" "dueTerminal s w" "room (sChans s ! wCh w)"
  shows "\<exists>snap. sChans s' ! wCh w = push snap (sChans s ! wCh w) \<and> ssTerminal snap \<and> ssRequestID snap = wReqID w"
  using assms
proof (induction ws arbitrary: s)
  case (Cons v ws)
  then obtain s1 where s1: "tickWatcher x version v s = Some s1" "foldOpt (tickWatcher x version) ws s1 = Some s'"
    by (auto split: Option.bind_splits)
  note n = tickWatcher_next [OF Cons.prems(1,2,3) s1(1)]
  have v: "v \<in> set (sWatchers s)" and d: "distinct (map wCh ws)" using Cons.prems(2,3) by simp_all
  note f = tickWatcher_frame [OF Cons.prems(1) v s1(1)]
  show ?case
  proof (cases "v = w")
    case True
    then have "wCh w \<notin> wCh ` set ws" using Cons.prems(3) by auto
    then show ?thesis
      using tickWatcher_delivers [OF Cons.prems(1) v _ _ s1(1)] ticks_frame [OF n d s1(2)] Cons.prems(6,7) True by auto
  next
    case False
    then have "w \<in> set ws" using Cons.prems(5) by simp
    moreover from this have "wCh w \<noteq> wCh v" using Cons.prems(3) by (auto simp: image_iff)
    moreover have "dueTerminal s1 w"
      using Cons.prems(6) terminalNow_fields [OF f(4,3,2)] by (simp add: dueTerminal_def)
    ultimately show ?thesis using Cons.IH [OF n d s1(2)] f(1) Cons.prems(7) by simp
  qed
qed simp

lemma runTick_watching:
  assumes "runTick x s = Some s'"
  obtains s2 where "foldOpt (tickWatcher x (sVersion (tickStart x s))) (sWatchers (tickStart x s)) (tickStart x s) = Some s2"
    "watching s' = watching s2"
proof -
  obtain s2 where s2: "foldOpt (tickWatcher x (sVersion (tickStart x s))) (sWatchers (tickStart x s)) (tickStart x s) = Some s2"
    using assms by (auto simp: runTick_eq Let_def split: Option.bind_splits)
  have "watching (fold (mirrorRequest x) ids (s2\<lparr>sLastKVVersion := v\<rparr>)) = watching (s2\<lparr>sLastKVVersion := v\<rparr>)" for ids v
    by (rule watching_keeps [OF fold_keeps [OF mirror_keeps]])
  then have "watching s' = watching s2" using assms s2 by (auto simp: runTick_eq Let_def split: if_splits)
  with s2 show ?thesis by (rule that)
qed

lemma runTick_delivers:
  assumes x: "envOK x" and inv: "ticked s" and w: "w \<in> set (sWatchers s)" and due: "dueTerminal s w"
    and room: "room (sChans s ! wCh w)" and t: "runTick x s = Some s'"
  shows "\<exists>snap. sChans s' ! wCh w = push snap (sChans s ! wCh w) \<and> ssTerminal snap \<and> ssRequestID snap = wReqID w"
proof -
  let ?s1 = "tickStart x s"
  have ws: "sWatchers ?s1 = sWatchers s" "sChans ?s1 = sChans s" using tickStart_watching [of x s] by simp_all
  have t1: "ticked ?s1" by (rule tickStart_ticked [OF x inv])
  have d: "distinct (map wCh (sWatchers ?s1))" using t1 by (simp add: ticked_def watchOK_def)
  have "dueTerminal ?s1 w" using due tickStart_terminal [OF x] inv by (auto simp: dueTerminal_def ticked_def)
  moreover obtain s2 where s2: "foldOpt (tickWatcher x (sVersion ?s1)) (sWatchers ?s1) ?s1 = Some s2" "watching s' = watching s2"
    by (rule runTick_watching [OF t])
  ultimately show ?thesis using ticks_deliver [OF t1 subset_refl d s2(1), of w] w room s2(2) ws by simp
qed

end
