(* ===== verification/SchedDepth.thy ===== *)
theory SchedDepth
  imports SchedSubmit
begin

text \<open>
  The depth bound of the engine only bounds: once an operation returns, every larger
  bound gives the same result.  So the result of an operation does not depend on the
  bound it was run with.
\<close>

definition fle :: "'a option \<Rightarrow> 'a option \<Rightarrow> bool" where
  "fle m m' \<longleftrightarrow> m = None \<or> m' = m"

lemma fle_refl: "fle m m"
  by (simp add: fle_def)

lemma fle_None: "fle None m"
  by (simp add: fle_def)

lemma fle_bind: "fle m m' \<Longrightarrow> (\<And>v. fle (f v) (f' v)) \<Longrightarrow> fle (m \<bind> f) (m' \<bind> f')"
  by (cases m) (auto simp: fle_def)

lemma fle_map: "fle m m' \<Longrightarrow> fle (map_option f m) (map_option f m')"
  by (auto simp: fle_def)

lemma foldOpt_mono: "(\<And>a s. fle (f a s) (f' a s)) \<Longrightarrow> fle (foldOpt f as s) (foldOpt f' as s)"
  by (induction as arbitrary: s) (auto intro: fle_bind fle_refl)

definition rle :: "'st requireFn \<Rightarrow> 'st requireFn \<Rightarrow> bool" where
  "rle R R' \<longleftrightarrow> (\<forall>kd k def platform parent extra label s.
     fle (R kd k def platform parent extra label s) (R' kd k def platform parent extra label s))"

definition ale :: "'st advanceFn \<Rightarrow> 'st advanceFn \<Rightarrow> bool" where
  "ale A A' \<longleftrightarrow> (\<forall>r s. fle (A r s) (A' r s))"

lemma rleD: "rle R R' \<Longrightarrow> fle (R kd k def platform parent extra label s) (R' kd k def platform parent extra label s)"
  by (simp add: rle_def)

lemma aleD: "ale A A' \<Longrightarrow> fle (A r s) (A' r s)"
  by (simp add: ale_def)

lemma requireDep_mono: "rle R R' \<Longrightarrow> fle (requireDep R kd k def platform p label s) (requireDep R' kd k def platform p label s)"
  unfolding requireDep_def by (intro fle_map rleD)

lemma nodeDone_mono: "ale A A' \<Longrightarrow> fle (nodeDoneLocked x A r s) (nodeDoneLocked x A' r s)"
  unfolding nodeDoneLocked_def Let_def
  by (auto intro!: foldOpt_mono simp: onDepDoneLocked_def aleD fle_refl split: prod.split)

lemma requireInput_mono: "rle R R' \<Longrightarrow> fle (requireInputLocked x R p inp label s) (requireInputLocked x R' p inp label s)"
  unfolding requireInputLocked_def
  by (auto intro: requireDep_mono fle_refl simp: Let_def split: sum.split option.split)

lemma unfold_mono: "rle R R' \<Longrightarrow> ale A A' \<Longrightarrow> fle (unfoldLocked x R A r s) (unfoldLocked x R' A' r s)"
  unfolding unfoldLocked_def unfoldImport_def unfoldBuildFrom_def unfoldPin_def unfoldBuildRun_def
  by (cases "fst (nId (sHeap s r))")
    (auto intro!: requireDep_mono requireInput_mono foldOpt_mono fle_refl simp: aleD Let_def split: sum.split)

lemma stage_mono:
  "rle R R' \<Longrightarrow> (\<And>s. fle (c s) (c' s)) \<Longrightarrow> fle (stage R kd k def bv c s) (stage R' kd k def bv c' s)"
  unfolding stage_def by (rule fle_bind [OF rleD]) (auto simp: fle_refl)

lemma resolve_mono:
  "(\<And>s. fle (c s) (c' s)) \<Longrightarrow> fle (resolveF x bv c s) (resolveF x bv c' s)"
  "(\<And>s. fle (c s) (c' s)) \<Longrightarrow> fle (resolveKP x bv c s) (resolveKP x bv c' s)"
  unfolding resolveF_def resolveKP_def by (auto simp: fle_refl split: sum.split option.split prod.split)

lemma finish_mono: "ale A A' \<Longrightarrow> fle (finishBuildValue x A bv s) (finishBuildValue x A' bv s)"
  unfolding finishBuildValue_def by (auto simp: fle_refl nodeDone_mono split: prod.split option.split)

lemma advance_mono:
  assumes "rle R R'" "ale A A'"
  shows "fle (advanceBuildValueLocked x R A bv s) (advanceBuildValueLocked x R' A' bv s)"
  unfolding advanceBuildValueLocked_def
  by (simp add: fle_refl, intro impI stage_mono [OF assms(1)] resolve_mono finish_mono [OF assms(2)])

lemma require_mono:
  assumes "rle R R'" "ale A A'"
  shows "fle (requireBody x R A kd k def platform parent extra label s) (requireBody x R' A' kd k def platform parent extra label s)"
  unfolding requireBody_def Let_def
  by (auto simp: fle_refl split: prod.split sum.split bool.split intro!: fle_bind [OF unfold_mono [OF assms]])

lemma engine_step: "rle (fst (engine x n)) (fst (engine x (Suc n))) \<and> ale (snd (engine x n)) (snd (engine x (Suc n)))"
proof (induction n)
  case 0
  show ?case by (simp add: rle_def ale_def fle_None)
next
  case (Suc n)
  then have "rle (fst (engine x n)) (fst (engine x (Suc n)))" "ale (snd (engine x n)) (snd (engine x (Suc n)))" by simp_all
  note require_mono [OF this] advance_mono [OF this]
  then show ?case unfolding rle_def ale_def by (simp only: engine.simps(2) [of x "Suc n"] engine.simps(2) [of x n] fst_conv snd_conv) blast
qed

lemma engine_mono:
  assumes "n \<le> n'"
  shows "fle (require x n kd k def platform parent extra label s) (require x n' kd k def platform parent extra label s)"
    "fle (advance x n r s) (advance x n' r s)"
proof -
  have "rle (require x n) (require x (n + d)) \<and> ale (advance x n) (advance x (n + d))" for d
  proof (induction d)
    case (Suc d)
    have "rle (require x (n + d)) (require x (n + Suc d))" "ale (advance x (n + d)) (advance x (n + Suc d))"
      using engine_step [of x "n + d"] by (simp_all add: require_def advance_def)
    then show ?case using Suc unfolding rle_def ale_def fle_def by metis
  qed (simp add: rle_def ale_def fle_refl)
  from this [of "n' - n"] assms show
    "fle (require x n kd k def platform parent extra label s) (require x n' kd k def platform parent extra label s)"
    "fle (advance x n r s) (advance x n' r s)"
    by (simp_all add: rleD aleD)
qed

lemma submitJoin_mono:
  assumes "submitJoin x n rid k def platform res label s = Some v" "n \<le> n'"
  shows "submitJoin x n' rid k def platform res label s = Some v"
proof -
  have "fle (submitJoin x n rid k def platform res label s) (submitJoin x n' rid k def platform res label s)"
    unfolding submitJoin_def Let_def
    by (auto simp: fle_refl split: prod.split intro!: fle_bind [OF engine_mono(1) [OF assms(2)]])
  then show ?thesis using assms(1) by (simp add: fle_def)
qed

lemma endResult_mono:
  assumes "endResult x n r res err s = Some s'" "n \<le> n'"
  shows "endResult x n' r res err s = Some s'"
proof -
  have "ale (advance x n) (advance x n')" unfolding ale_def by (intro allI engine_mono(2) [OF assms(2)])
  from nodeDone_mono [OF this] have "fle (endResult x n r res err s) (endResult x n' r res err s)"
    unfolding endResult_def Let_def by (intro fle_map) (simp add: fle_refl split: option.split)
  then show ?thesis using assms(1) by (simp add: fle_def)
qed

end
