(* ===== verification/SchedSteps.thy ===== *)
theory SchedSteps
  imports SchedWatch SchedDepth
begin

text \<open>
  The scheduler as a transition system (the goroutines of \<open>src/sched\<close>): every locked
  operation in any order, and what holds in every reachable state.

  The results loop is one goroutine, so a state carries at most one result in flight;
  its unlocked commit may interleave with every other operation.  The outside world
  changes arbitrarily between steps.  A request id is drawn fresh and a key has 32
  bytes; both come from \<open>Submit\<close>, whose unlocked half only changes the store.
\<close>

inductive sysStep :: "'st ext \<Rightarrow> 'st sched \<times> pending \<Rightarrow> 'st sched \<times> pending \<Rightarrow> bool" for x where
  submit: "submitJoin x n rid k def platform res label s = Some (err, s') \<Longrightarrow> map_of (sRequests s) rid = None
    \<Longrightarrow> length k = 32 \<Longrightarrow> sysStep x (s, p) (s', p)"
| cancel: "Cancel x rid s = (err, s') \<Longrightarrow> sysStep x (s, p) (s', p)"
| delete: "Delete x rid s = (err, s') \<Longrightarrow> sysStep x (s, p) (s', p)"
| watch: "Watch x rid s = Some (v, s') \<Longrightarrow> sysStep x (s, p) (s', p)"
| stop: "stopWatch c s = Some s' \<Longrightarrow> sysStep x (s, p) (s', p)"
| recv: "recvSnap c s = (v, s') \<Longrightarrow> c < length (sChans s) \<Longrightarrow> sysStep x (s, p) (s', p)"
| tick: "runTick x s = Some s' \<Longrightarrow> sysStep x (s, p) (s', p)"
| result: "beginResult x res s = (p, s') \<Longrightarrow> sysStep x (s, Idle) (s', p)"
| commits: "runCommit x r res sp s = (p, s') \<Longrightarrow> sysStep x (s, Committing r res sp) (s', p)"
| finish: "endResult x n r res err s = Some s' \<Longrightarrow> sysStep x (s, Committed r res err) (s', Idle)"
| timer: "tm \<in> set (sTimers s) \<Longrightarrow> sysStep x (s, p) (fireTimer x tm (s\<lparr>sTimers := remove1 tm (sTimers s)\<rparr>), p)"
| log: "sysStep x (s, p) (onLogChunk x name chunk s, p)"
| hello: "sysStep x (s, p) (onRunnerHello x h s, p)"
| heartbeat: "sysStep x (s, p) (onRunnerHeartbeat x hb s, p)"
| close: "Close s = Some s' \<Longrightarrow> sysStep x (s, p) (s', p)"
| outside: "sysStep x (s, p) (s\<lparr>sW := w\<rparr>, p)"

inductive sysReach :: "'st ext \<Rightarrow> 'st \<Rightarrow> 'st sched \<times> pending \<Rightarrow> bool" for x w where
  start: "sysReach x w (newSched w, Idle)"
| step: "sysReach x w c \<Longrightarrow> sysStep x c c' \<Longrightarrow> sysReach x w c'"

lemma log_keeps: "keeps s (onLogChunk x name chunk s)"
proof -
  let ?s0 = "s\<lparr>sW := snd (xNow x (sW s))\<rparr>"
  define s1 where "s1 = ?s0\<lparr>sLogs := foldChunk name chunk (fst (xNow x (sW s))) (sLogs ?s0)\<rparr>"
  have k1: "keeps s s1" unfolding s1_def by (rule keeps_fields) simp_all
  have "keeps s (bumpLocked (putNodeStatusLocked r (upd r (\<lambda>n. n\<lparr>nPhase := PhaseRunning, nStartedAt := t\<rparr>) (s1\<lparr>sW := w\<rparr>))))" for r t w
    by (rule keeps_trans [OF keeps_trans [OF keeps_trans [OF keeps_trans [OF k1 keeps_ops(4)] retry_start(6)] keeps_ops(3)] keeps_ops(2)])
  then show ?thesis
    using k1 unfolding s1_def by (auto simp: onLogChunk_def timeNow_eq Let_def keeps_refl split: option.splits)
qed

lemma hello_keeps: "keeps s (onRunnerHello x h s)" "keeps s (onRunnerHeartbeat x hb s)"
  by (rule keeps_fields; simp add: onRunnerHello_def onRunnerHeartbeat_def timeNow_eq Let_def)+

lemma timer_keeps: "keeps s (fireTimer x tm (s\<lparr>sTimers := ts\<rparr>))"
proof -
  have "keeps s (s\<lparr>sTimers := ts\<rparr>)" by (rule keeps_fields) simp_all
  from keeps_trans [OF this fireTimer_keeps] show ?thesis .
qed

lemma sysStep_ticked:
  assumes x: "envOK x" and step: "sysStep x c c'" and inv: "ticked (fst c)"
  shows "ticked (fst c')"
  using step inv
proof (induction rule: sysStep.induct)
  case (submit n rid k def platform res label s err s' p)
  have t: "sysInv s" "watchOK s" using submit.prems by (simp_all add: ticked_def)
  let ?n = "n + Suc (mu s)"
  obtain err' s'' where "submitJoin x ?n rid k def platform res label s = Some (err', s'')" "sysInv s''" "watching s'' = watching s"
    using submit_returns [OF x t(1) submit.hyps(3,2), of ?n def platform res label] by auto
  then show ?case using submitJoin_mono [OF submit.hyps(1), of ?n] t(2) watchOK_cong [of s'' s] by (simp add: ticked_def)
next
  case (finish n r res err s s')
  have t: "sysInv s" "watchOK s" using finish.prems by (simp_all add: ticked_def)
  let ?n = "n + Suc (mu s)"
  obtain s'' where "endResult x ?n r res err s = Some s''" "sysInv s''" "watching s'' = watching s"
    using endResult_returns [OF x t(1), of ?n r res err] by auto
  then show ?case using endResult_mono [OF finish.hyps(1), of ?n] t(2) watchOK_cong [of s'' s] by (simp add: ticked_def)
next
  case (cancel rid s err s' p)
  then show ?case using Cancel_ticked [OF x, of s rid] by simp
next
  case (delete rid s err s' p)
  then show ?case using Delete_ticked [OF x, of s rid] by simp
next
  case (watch rid s v s' p)
  then show ?case using Watch_ticked [of s x rid] by auto
next
  case (stop c s s' p)
  then show ?case using stopWatch_ticked [of s c] by auto
next
  case (recv c s v s' p)
  then show ?case using recv_ticked [of s c] by simp
next
  case (tick s s' p)
  then show ?case using runTick_ticked [OF x, of s] by auto
next
  case (close s s' p)
  then show ?case using Close_ticked [of s] by auto
qed (auto intro: ticked_keeps [OF beginResult_keeps] ticked_keeps [OF runCommit_keeps] ticked_keeps [OF timer_keeps]
    ticked_keeps [OF log_keeps] ticked_keeps [OF hello_keeps(1)] ticked_keeps [OF hello_keeps(2)] ticked_keeps [OF keeps_ops(4)])

lemma sysReach_ticked: "sysReach x w c \<Longrightarrow> envOK x \<Longrightarrow> ticked (fst c)"
  by (induction rule: sysReach.induct) (auto simp: ticked_new sysStep_ticked)

section \<open>A concrete run\<close>

text \<open>A store with refs in memory in which every definition is a build of one source tree,
  and the state after a runner has said hello and a build has been submitted: its
  buildfrom stage is queued.\<close>

definition demoKey :: "char \<Rightarrow> key" where "demoKey c = replicate 32 c"

definition demoExt :: "(string \<Rightarrow> key option) ext" where
  "demoExt = memExt\<lparr>
     xGetKey := (\<lambda>w n. Inr (case w n of Some k \<Rightarrow> if length k = 32 then Some k else None | None \<Rightarrow> None)),
     xFileKey := (\<lambda>b. case b of [] \<Rightarrow> Inl ''empty'' | c # _ \<Rightarrow> Inr (demoKey c)),
     xDecDef := (\<lambda>b. Inr \<lparr>dfSource = \<lparr>inKind = ''tree'', inDefinition = ''t''\<rparr>, dfDir = [], dfPlatform = ''linux'', dfParams = [],
        dfBuildJobs = [], dfBuildFile = [], dfCtx = 0\<rparr>),
     xDecTree := (\<lambda>b. Inr (demoKey (CHR ''t''))),
     xKeyParse := (\<lambda>b. if length b = 32 then Some b else None)\<rparr>"

lemma demo_envOK: "envOK demoExt"
  by (auto simp: envOK_def demoExt_def memExt_def demoKey_def split: option.splits list.splits if_splits)

lemma demo_names [simp]: "keyString (demoKey c) = keyString (demoKey d) \<longleftrightarrow> c = d" "length (demoKey c) = 32"
  by (simp_all add: demoKey_def keyString_def)

lemma demo_ext:
  "xNow demoExt w = (0, w)" "xOrd demoExt s rs = rs"
  "xGetKey demoExt w n = Inr (case w n of Some k \<Rightarrow> if length k = 32 then Some k else None | None \<Rightarrow> None)"
  "xFileKey demoExt (c # cs) = Inr (demoKey c)"
  "xDecDef demoExt b = Inr \<lparr>dfSource = \<lparr>inKind = ''tree'', inDefinition = ''t''\<rparr>, dfDir = [], dfPlatform = ''linux'', dfParams = [],
        dfBuildJobs = [], dfBuildFile = [], dfCtx = 0\<rparr>"
  "xDecTree demoExt b = Inr (demoKey (CHR ''t''))"
  "xPublish demoExt su mi jb w = (Some 1, w)" "xEnsureLane demoExt p w = (True, w)"
  by (simp_all add: demoExt_def memExt_def)

lemma require_Suc:
  "require x (Suc n) kd k def platform parent extra label s =
     requireBody x (require x n) (advance x n) kd k def platform parent extra label s"
  by (simp add: require_def advance_def)
lemma advance_Suc: "advance x (Suc n) r s = advanceBuildValueLocked x (require x n) (advance x n) r s"
  by (simp add: require_def advance_def)

lemmas demo_eval = require_Suc advance_Suc requireBody_def joinNode_def newNode_eq addExtra_def linkParent_def linkDep_def fillNode_def
  upd_def propagateInterest_def outputExistsLocked_def outputRefName_def demo_ext newSched_def emptyNode_def putNodeStatusLocked_def
  bumpLocked_def emit_def Let_def timeNow_eq unfoldLocked_def advanceBuildValueLocked_def stage_def unfoldBuildFrom_def buildFields_def
  requireInputLocked_def maybeEnqueueLocked_def placeable_def enqueueLocked_def startAttempt_def computePullRefsLocked_def
  pullRefsBuildFrom_def addInputOutputs_def publishJob_def ensureLaneLocked_def attemptJob_def

definition demoStart :: "(string \<Rightarrow> key option) sched" where
  "demoStart = onRunnerHello demoExt \<lparr>hID = ''x'', hName = ''x'', hPlatform = ''linux'', hSize = [], hCPUMilli = 1, hMemBytes = 1\<rparr>
     (newSched Map.empty)"

definition demoState :: "(string \<Rightarrow> key option) sched" where
  "demoState = snd (the (submitJoin demoExt 3 ''q'' (demoKey (CHR ''b'')) ''b'' ''linux'' (Res 0 0) [] demoStart))"

definition demoRequest :: request where
  "demoRequest = \<lparr>rqId = ''q'', rqK = demoKey (CHR ''b''), rqPlatform = ''linux'', rqRes = Res 0 0, rqCreatedNs = 0,
     rqCancelled = False, rqTarget = Some 0, rqFailReason = [], rqNoRunnersSince = 0\<rparr>"

lemma demo_run:
  "\<exists>s. submitJoin demoExt 3 ''q'' (demoKey (CHR ''b'')) ''b'' ''linux'' (Res 0 0) [] demoStart = Some (None, s)
     \<and> sNext s = 2 \<and> nDeps (sHeap s 0) = [1] \<and> nPhase (sHeap s 0) = PhaseWaiting \<and> nDeps (sHeap s 1) = []
     \<and> nPhase (sHeap s 1) = PhaseQueued \<and> nInterest (sHeap s 0) = {''q''} \<and> nInterest (sHeap s 1) = {''q''} \<and> nQueueSeq (sHeap s 1) = 1
     \<and> nId (sHeap s 1) = (KindBuildFrom, demoKey (CHR ''b'')) \<and> nGen (sHeap s 1) = 1 \<and> nConsecRetry (sHeap s 1) = 0
     \<and> nLastResultGen (sHeap s 1) = 0
     \<and> sNodes s = [(KindBuildValue, demoKey (CHR ''b'')) \<mapsto> 0, (KindBuildFrom, demoKey (CHR ''b'')) \<mapsto> 1]
     \<and> sRequests s = [(''q'', demoRequest)] \<and> sChans s = [] \<and> sWatchers s = [] \<and> sClosed s = False"
  by (simp add: numeral_3_eq_3 demo_eval demoStart_def onRunnerHello_def submitJoin_def setRequest_def newRequest_def assembleLocked_def
      closureOf_def requestPhase_def putRequestStatusLocked_def demoRequest_def livePlatformLocked_def runnerLiveWindow_def snapPhase_def
      countPhase_def zeroCounts_def)

lemma demo_state:
  "submitJoin demoExt 3 ''q'' (demoKey (CHR ''b'')) ''b'' ''linux'' (Res 0 0) [] demoStart = Some (None, demoState)"
  "sNext demoState = 2" "nDeps (sHeap demoState 0) = [1]" "nPhase (sHeap demoState 0) = PhaseWaiting"
  "nDeps (sHeap demoState 1) = []" "nPhase (sHeap demoState 1) = PhaseQueued"
  "nInterest (sHeap demoState 0) = {''q''}" "nInterest (sHeap demoState 1) = {''q''}" "nQueueSeq (sHeap demoState 1) = 1"
    "nId (sHeap demoState 1) = (KindBuildFrom, demoKey (CHR ''b''))" "nGen (sHeap demoState 1) = 1" "nConsecRetry (sHeap demoState 1) = 0"
    "nLastResultGen (sHeap demoState 1) = 0"
  "sNodes demoState = [(KindBuildValue, demoKey (CHR ''b'')) \<mapsto> 0, (KindBuildFrom, demoKey (CHR ''b'')) \<mapsto> 1]"
  "sRequests demoState = [(''q'', demoRequest)]" "sChans demoState = []" "sWatchers demoState = []" "sClosed demoState = False"
proof -
  obtain s where s: "submitJoin demoExt 3 ''q'' (demoKey (CHR ''b'')) ''b'' ''linux'' (Res 0 0) [] demoStart = Some (None, s)
     \<and> sNext s = 2 \<and> nDeps (sHeap s 0) = [1] \<and> nPhase (sHeap s 0) = PhaseWaiting \<and> nDeps (sHeap s 1) = []
     \<and> nPhase (sHeap s 1) = PhaseQueued \<and> nInterest (sHeap s 0) = {''q''} \<and> nInterest (sHeap s 1) = {''q''} \<and> nQueueSeq (sHeap s 1) = 1
     \<and> nId (sHeap s 1) = (KindBuildFrom, demoKey (CHR ''b'')) \<and> nGen (sHeap s 1) = 1 \<and> nConsecRetry (sHeap s 1) = 0
     \<and> nLastResultGen (sHeap s 1) = 0
     \<and> sNodes s = [(KindBuildValue, demoKey (CHR ''b'')) \<mapsto> 0, (KindBuildFrom, demoKey (CHR ''b'')) \<mapsto> 1]
     \<and> sRequests s = [(''q'', demoRequest)] \<and> sChans s = [] \<and> sWatchers s = [] \<and> sClosed s = False"
    by (rule exE [OF demo_run])
  have d: "demoState = s" unfolding demoState_def s [THEN conjunct1] by simp
  note s' = s [folded d]
  show "submitJoin demoExt 3 ''q'' (demoKey (CHR ''b'')) ''b'' ''linux'' (Res 0 0) [] demoStart = Some (None, demoState)"
    "sNext demoState = 2" "nDeps (sHeap demoState 0) = [1]" "nPhase (sHeap demoState 0) = PhaseWaiting"
    "nDeps (sHeap demoState 1) = []" "nPhase (sHeap demoState 1) = PhaseQueued"
    "nInterest (sHeap demoState 0) = {''q''}" "nInterest (sHeap demoState 1) = {''q''}" "nQueueSeq (sHeap demoState 1) = 1"
    "nId (sHeap demoState 1) = (KindBuildFrom, demoKey (CHR ''b''))" "nGen (sHeap demoState 1) = 1" "nConsecRetry (sHeap demoState 1) = 0"
    "nLastResultGen (sHeap demoState 1) = 0"
    "sNodes demoState = [(KindBuildValue, demoKey (CHR ''b'')) \<mapsto> 0, (KindBuildFrom, demoKey (CHR ''b'')) \<mapsto> 1]"
    "sRequests demoState = [(''q'', demoRequest)]" "sChans demoState = []" "sWatchers demoState = []" "sClosed demoState = False"
    using s' by - (elim conjE, assumption)+
qed

lemma demo_reach: "sysReach demoExt Map.empty (demoState, Idle)"
proof -
  have "sysReach demoExt Map.empty (demoStart, Idle)"
    unfolding demoStart_def by (rule sysReach.step [OF sysReach.start sysStep.hello])
  then show ?thesis
    by (rule sysReach.step [OF _ sysStep.submit [OF demo_state(1)]])
      (simp_all add: demoStart_def onRunnerHello_def newSched_def timeNow_eq)
qed

lemma demo_targets: "targets demoState = [''q'' \<mapsto> 0]"
  by (rule ext) (simp add: targets_def demo_state demoRequest_def)

section \<open>Properties\<close>

text \<open>C1: In every reachable state the node table holds exactly what somebody still wants. A
  node is in the table if and only if it is in the dependency closure of the target of a
  request that is neither cancelled nor failed, and its interest set is exactly the set of
  those requests. So no interleaving of submits, cancels, deletes, results, timers and
  ticks leaks a node or loses one that is still needed.\<close>

theorem table_is_wanted_closure:
  assumes "envOK x" and "sysReach x w (s, p)"
  shows "(sNodes s i = Some r \<longleftrightarrow> nId (sHeap s r) = i \<and> (\<exists>rid t. targets s rid = Some t \<and> (t, r) \<in> (edges s)\<^sup>*))
    \<and> (sNodes s i = Some r \<longrightarrow> nInterest (sHeap s r) = {rid. \<exists>t. targets s rid = Some t \<and> (t, r) \<in> (edges s)\<^sup>*})"
proof -
  have ok: "sOK (targets s) s" using sysReach_ticked [OF assms(2,1)] by (simp add: ticked_def sysInv_def)
  have id: "sNodes s i = Some r \<longleftrightarrow> nId (sHeap s r) = i \<and> live s r"
    using sOK_D(1) [OF ok] unfolding tableOK_def live_def by blast
  have tgt: "live s t" "rid \<in> nInterest (sHeap s t)" if "targets s rid = Some t" for rid t
    using sOK_D(6) [OF ok] that unfolding targetsOK_def by blast+
  have root: "\<exists>t. targets s rid = Some t \<and> (t, r) \<in> (edges s)\<^sup>*" if "live s r" "rid \<in> nInterest (sHeap s r)" for rid
    using sOK_D(5) [OF ok] live_less [OF sOK_D(1) [OF ok] that(1)] that(2) unfolding rootedOK_def by blast
  have want: "nInterest (sHeap s r) \<noteq> {}" if "live s r"
    using sOK_D(3) [OF ok] live_less [OF sOK_D(1) [OF ok] that] that unfolding wantedOK_def by blast
  have conv: "live s r" "rid \<in> nInterest (sHeap s r)" if "targets s rid = Some t" "(t, r) \<in> (edges s)\<^sup>*" for rid t
    using reach_live [OF sOK_D(2) [OF ok] tgt(1) [OF that(1)] that(2)]
      closedOK_reach [OF sOK_D(2,4) [OF ok] tgt(1) [OF that(1)] that(2)] tgt(2) [OF that(1)] by blast+
  show ?thesis using id root want conv by blast
qed

theorem table_is_wanted_closure_witness:
  "{''q''} = {rid. \<exists>t. [''q'' \<mapsto> 0] rid = Some t \<and> (t, 1) \<in> (edges demoState)\<^sup>*}"
proof -
  have "sNodes demoState (KindBuildFrom, demoKey (CHR ''b'')) = Some 1" by (simp add: demo_state)
  from table_is_wanted_closure [OF demo_envOK demo_reach, THEN conjunct2, rule_format, OF this]
  show ?thesis by (simp only: demo_state demo_targets)
qed

text \<open>C2: The recursive operations always return. From every reachable state, submitting any
  definition under a fresh request id returns, and so does applying the commit verdict of a
  result, however many nodes the unfolding creates and however the completions cascade;
  the depth bound is enough from some point on, and the result does not depend on it.\<close>

theorem scheduler_operations_return:
  assumes "envOK x" and "sysReach x w (s, p)" and "map_of (sRequests s) rid = None" and "length k = 32"
  shows "(\<exists>N err s'. \<forall>n\<ge>N. submitJoin x n rid k def platform res label s = Some (err, s'))
    \<and> (\<exists>N s'. \<forall>n\<ge>N. endResult x n r rs cerr s = Some s')"
proof -
  have inv: "sysInv s" using sysReach_ticked [OF assms(2,1)] by (simp add: ticked_def)
  obtain err s' where 1: "submitJoin x (Suc (mu s)) rid k def platform res label s = Some (err, s')"
    using submit_returns [OF assms(1) inv assms(4,3) lessI] by blast
  obtain s'' where 2: "endResult x (Suc (mu s)) r rs cerr s = Some s''"
    using endResult_returns [OF assms(1) inv lessI] by blast
  show ?thesis using submitJoin_mono [OF 1] endResult_mono [OF 2] by blast
qed

theorem scheduler_operations_return_witness:
  "\<exists>n err s'. submitJoin demoExt n ''p'' (demoKey (CHR ''b'')) ''b'' ''linux'' (Res 0 0) [] demoState = Some (err, s')"
proof -
  have "map_of (sRequests demoState) ''p'' = None" by (simp add: demo_state)
  from scheduler_operations_return [OF demo_envOK demo_reach this demo_names(2)] show ?thesis by blast
qed



text \<open>C5: Every watcher learns how its request ended. In every reachable state, if the
  snapshot of a watched request is terminal, or the request was deleted under the watcher,
  and the receiver has left room in the channel, then the next tick delivers a terminal
  snapshot of that request and closes the channel.\<close>

theorem terminal_snapshot_delivered:
  assumes "envOK x" and "sysReach x w0 (s, p)" and "w \<in> set (sWatchers s)"
    and "wFinal w \<noteq> None \<or> terminalNow s (wReqID w)" and "length (chSent (sChans s ! wCh w)) - chRead (sChans s ! wCh w) < 8"
  shows "\<exists>s' ch. runTick x s = Some s' \<and> sChans s' ! wCh w = ch \<and> chClosed ch \<and> chSent ch \<noteq> []
    \<and> ssTerminal (last (chSent ch)) \<and> ssRequestID (last (chSent ch)) = wReqID w"
proof -
  have t: "ticked s" using sysReach_ticked [OF assms(2,1)] by simp
  obtain s' where s': "runTick x s = Some s'" using runTick_ticked [OF assms(1) t] by blast
  have "dueTerminal s w" "room (sChans s ! wCh w)" using assms(4,5) by (simp_all add: dueTerminal_def room_def chanCap_def)
  from runTick_delivers [OF assms(1) t assms(3) this s'] s' show ?thesis by (auto simp: push_def)
qed

text \<open>The demonstration state with a watcher, after its request has been cancelled.\<close>

lemma demo_running: "\<not> terminalReq (demoState\<lparr>sChans := chs\<rparr>) demoRequest"
  using demo_state
  by (simp add: terminalReq_def anyFailed_def demoRequest_def closureOf_def snapPhase_def requestPhase_def numeral_2_eq_2
      countPhase_def zeroCounts_def)

lemma demo_watch:
  "\<exists>s. Watch demoExt ''q'' demoState = Some (Inr 0, s) \<and> length (chSent (sChans s ! 0)) = 1 \<and> sRequests s = [(''q'', demoRequest)]
     \<and> sWatchers s = [\<lparr>wReqID = ''q'', wCh = 0, wLastVer = sVersion demoState, wClosed = False, wFinal = None\<rparr>]"
  using demo_running [of "[emptyChan]"]
  by (simp add: Watch_def demo_state case_prod_beta Let_def trySend_def assemble_terminal assemble_snd emptyChan_def chanCap_def)

lemma demo_watched:
  "\<exists>s w. sysReach demoExt Map.empty (s, Idle) \<and> sWatchers s = [w] \<and> wReqID w = ''q'' \<and> wCh w = 0 \<and> terminalNow s ''q''
     \<and> length (chSent (sChans s ! 0)) = 1"
proof -
  obtain s where s: "Watch demoExt ''q'' demoState = Some (Inr 0, s)" "length (chSent (sChans s ! 0)) = 1"
    "sRequests s = [(''q'', demoRequest)]"
    "sWatchers s = [\<lparr>wReqID = ''q'', wCh = 0, wLastVer = sVersion demoState, wClosed = False, wFinal = None\<rparr>]"
    using demo_watch by (elim exE conjE) (rule that)
  let ?s = "snd (Cancel demoExt ''q'' s)"
  have r: "sysReach demoExt Map.empty (s, Idle)" by (rule sysReach.step [OF demo_reach sysStep.watch [OF s(1)]])
  have "sysReach demoExt Map.empty (?s, Idle)"
    by (rule sysReach.step [OF r sysStep.cancel]) (rule surjective_pairing)
  moreover have "sWatchers ?s = sWatchers s" "sChans ?s = sChans s"
    using s(3) by (simp_all add: Cancel_def case_prod_beta Let_def bumpLocked_def putRequestStatusLocked_def emit_def demoRequest_def)
  moreover have "terminalNow ?s ''q''"
    using s(3) by (simp add: Cancel_def case_prod_beta Let_def bumpLocked_def putRequestStatusLocked_def emit_def demoRequest_def
        terminalNow_def assemble_snd dropInterest_requests setRequest_def terminalReq_def requestPhase_def)
  ultimately show ?thesis using s(2,4) by auto
qed

theorem terminal_snapshot_delivered_witness:
  "\<exists>s s' ch. sysReach demoExt Map.empty (s, Idle) \<and> runTick demoExt s = Some s' \<and> sChans s' ! 0 = ch \<and> chClosed ch
     \<and> ssTerminal (last (chSent ch))"
proof -
  obtain s w where s: "sysReach demoExt Map.empty (s, Idle)" "sWatchers s = [w]" "wReqID w = ''q''" "wCh w = 0" "terminalNow s ''q''"
    "length (chSent (sChans s ! 0)) = 1"
    using demo_watched by (elim exE conjE) (rule that)
  have "w \<in> set (sWatchers s)" "wFinal w \<noteq> None \<or> terminalNow s (wReqID w)"
    "length (chSent (sChans s ! wCh w)) - chRead (sChans s ! wCh w) < 8"
    using s by simp_all
  from terminal_snapshot_delivered [OF demo_envOK s(1) this] s(1,4) show ?thesis by auto
qed

lemma Cancel_eq:
  assumes "map_of (sRequests s) rid = Some rq" "\<not> rqCancelled rq"
  shows "\<exists>ev kv v w. snd (Cancel x rid s) = (dropInterestLocked x rid (rqTarget rq) (setRequest rid (\<lambda>rq. rq\<lparr>rqCancelled := True\<rparr>) s))
      \<lparr>sW := w, sLastReqKV := kv, sEvents := sEvents (dropInterestLocked x rid (rqTarget rq) (setRequest rid (\<lambda>rq. rq\<lparr>rqCancelled := True\<rparr>) s)) @ [ev],
       sVersion := v\<rparr>" "fst (Cancel x rid s) = None"
  using assms
  by (auto simp: Cancel_def case_prod_beta Let_def bumpLocked_def putRequestStatusLocked_def emit_def assemble_snd)



end
