(* ===== verification/SchedOutcome.thy ===== *)
theory SchedOutcome
  imports SchedSteps
begin

text \<open>
  What the results loop guarantees (\<open>src/sched/results.go\<close>): a redelivered result changes
  nothing, retries are bounded, a commit is all behind the gate, and the job that goes out
  carries the node's requirement (\<open>enqueueLocked\<close> of \<open>src/sched/node.go\<close>).
\<close>

section \<open>The fence of a handled generation\<close>

text \<open>The table and the last handled generation of every node stay as they are.\<close>

definition fenced :: "'st sched \<Rightarrow> 'st sched \<Rightarrow> bool" where
  "fenced s s' \<longleftrightarrow> sNodes s' = sNodes s \<and> (\<forall>u. nLastResultGen (sHeap s' u) = nLastResultGen (sHeap s u))"

lemma fenced_refl: "fenced s s"
  by (simp add: fenced_def)

lemma fenced_trans: "fenced s s' \<Longrightarrow> fenced s' s'' \<Longrightarrow> fenced s s''"
  by (simp add: fenced_def)

lemma fenced_upd: "(\<And>n. nLastResultGen (f n) = nLastResultGen n) \<Longrightarrow> fenced s (upd r f s)"
  by (simp add: fenced_def upd_def)

lemma fenced_fields: "sHeap s' = sHeap s \<Longrightarrow> sNodes s' = sNodes s \<Longrightarrow> fenced s s'"
  by (simp add: fenced_def)

lemma fenced_plain:
  "fenced s (emit ev s)" "fenced s (bumpLocked s)" "fenced s (putNodeStatusLocked r s)" "fenced s (armReenqueueLocked r d s)"
  "fenced s (ensureLaneLocked x p c s)" "fenced s (s\<lparr>sW := w\<rparr>)" "fenced s (deleteScratch x ref s)" "fenced s (touchReads res s)"
  "fenced s (recordFailureLocked x r v org disp e b s)"
proof -
  have "sNodes (recordFailureLocked x r v org disp e b s) = sNodes s" using sameGraph_record [of s x r v org disp e b] by (simp add: sameGraph_def)
  then show "fenced s (recordFailureLocked x r v org disp e b s)" by (intro fenced_fields recordFailure_heap)
qed (rule fenced_fields; simp add: emit_def bumpLocked_def putNodeStatusLocked_def armReenqueueLocked_def ensureLaneLocked_def
    deleteScratch_def touchReads_def Let_def case_prod_beta)+

lemma fenced_upds:
  "fenced s (upd r (\<lambda>n. n\<lparr>nPhase := p, nErrSummary := e, nDoneAt := t\<rparr>) s)"
  "fenced s (upd r (\<lambda>n. n\<lparr>nPhase := p, nErrSummary := e\<rparr>) s)"
  "fenced s (upd r (\<lambda>n. n\<lparr>nPhase := p\<rparr>) s)"
  "fenced s (upd r (\<lambda>n. n\<lparr>nQueueSeq := q, nPhase := p\<rparr>) s)"
  "fenced s (upd r (\<lambda>n. n\<lparr>nConsecControl := Suc (nConsecControl n)\<rparr>) s)"
  "fenced s (upd r (\<lambda>n. n\<lparr>nConsecRetry := Suc (nConsecRetry n), nConsecControl := 0\<rparr>) s)"
  "fenced s (upd r (\<lambda>n. n\<lparr>nGen := nGen n + 1, nRunner := [], nStartedAt := 0, nEnqueuedAt := t, nQueueSeq := 0\<rparr>) s)"
  by (rule fenced_upd; simp)+

lemma fenced_after:
  "fenced s s' \<Longrightarrow> fenced s (bumpLocked s')" "fenced s s' \<Longrightarrow> fenced s (putNodeStatusLocked r s')"
  "fenced s s' \<Longrightarrow> fenced s (armReenqueueLocked r d s')" "fenced s s' \<Longrightarrow> fenced s (recordFailureLocked x r v org disp e b s')"
  "fenced s s' \<Longrightarrow> fenced s (s'\<lparr>sW := w\<rparr>)" "fenced s s' \<Longrightarrow> fenced s (emit ev s')" "fenced s s' \<Longrightarrow> fenced s (ensureLaneLocked x p c s')"
  "fenced s s' \<Longrightarrow> fenced s (deleteScratch x ref s')"
  by (erule fenced_trans, rule fenced_plain)+

lemma fenced_failAttr: "fenced s (failNodeAttrLocked x r v org e s)"
  unfolding failNodeAttrLocked_def timeNow_eq Let_def prod.case
  by (rule if_split [THEN iffD2], intro conjI impI fenced_refl fenced_after fenced_trans [OF fenced_plain(6) fenced_upds(1)])

lemma fenced_publish: "fenced s (publishJob x r job s)"
proof -
  obtain ack w where q: "xPublish x (JobsSubject (jPlatform job) (jClass job)) (JobMsgID (jNode job) (jGen job)) job (sW s) = (ack, w)"
    by fastforce
  have "fenced s (armReenqueueLocked r d (upd r (\<lambda>n. n\<lparr>nPhase := PhaseWaiting\<rparr>) (s\<lparr>sW := w\<rparr>)))" for d
    by (intro fenced_after fenced_trans [OF fenced_plain(6) fenced_upds(3)])
  moreover have "fenced s (bumpLocked (putNodeStatusLocked r (upd r (\<lambda>n. n\<lparr>nQueueSeq := seq, nPhase := PhaseQueued\<rparr>) (emit ev (s\<lparr>sW := w\<rparr>)))))" for seq ev
    by (intro fenced_after fenced_trans [OF fenced_after(6) [OF fenced_plain(6)] fenced_upds(4)])
  ultimately show ?thesis by (simp add: publishJob_def q Let_def fenced_plain(6) split: option.split)
qed

lemma fenced_enqueue: "fenced s (enqueueLocked x r s)"
proof -
  have st: "fenced s (startAttempt x r s)"
    unfolding startAttempt_def timeNow_eq prod.case Let_def by (rule fenced_trans [OF fenced_plain(6) fenced_upds(7)])
  have "fenced s (publishJob x r job (ensureLaneLocked x p c ((startAttempt x r s)\<lparr>sW := w\<rparr>)))" for job p c w
    by (rule fenced_trans [OF fenced_after(7) [OF fenced_after(5) [OF st]] fenced_publish])
  moreover have "fenced s (failNodeLocked x r e ((startAttempt x r s)\<lparr>sW := w\<rparr>))" for e w
    unfolding failNodeLocked_def by (rule fenced_trans [OF fenced_after(5) [OF st] fenced_failAttr])
  ultimately show ?thesis by (simp add: enqueueLocked_def Let_def case_prod_beta fenced_refl split: sum.split)
qed

lemma fenced_retry: "fenced s (retryLocked x r v org e control s)"
proof -
  define a where "a = upd r (\<lambda>n. n\<lparr>nConsecControl := Suc (nConsecControl n)\<rparr>) s"
  define b where "b = upd r (\<lambda>n. n\<lparr>nConsecRetry := Suc (nConsecRetry n), nConsecControl := 0\<rparr>) s"
  have a: "fenced s a" and b: "fenced s b" unfolding a_def b_def by (rule fenced_upds)+
  have "fenced s (failNodeAttrLocked x r v org e a)" "fenced s (failNodeAttrLocked x r v org e b)" for e
    by (rule fenced_trans [OF a fenced_failAttr], rule fenced_trans [OF b fenced_failAttr])
  moreover have "fenced s (enqueueLocked x r (recordFailureLocked x r v org FailDispositionRetry e 0 (upd r (\<lambda>n. n\<lparr>nPhase := PhaseWaiting, nErrSummary := e\<rparr>) a)))"
    by (rule fenced_trans [OF fenced_after(4) [OF fenced_trans [OF a fenced_upds(2)]] fenced_enqueue])
  moreover have "fenced s (armReenqueueLocked r d (bumpLocked (putNodeStatusLocked r (recordFailureLocked x r v org FailDispositionRetry e d
      (upd r (\<lambda>n. n\<lparr>nPhase := PhaseWaiting, nErrSummary := e\<rparr>) b)))))" for d
    by (intro fenced_after fenced_trans [OF b fenced_upds(2)])
  ultimately show ?thesis by (simp add: retryLocked_def a_def b_def Let_def)
qed

lemma fenced_verdict: "fenced s (applyVerdict x r res s)"
  by (simp add: applyVerdict_def fenced_failAttr fenced_retry fenced_refl)

lemma resultNode_fields:
  assumes "sHeap s' = sHeap s" "sNodes s' = sNodes s"
  shows "resultNode x res s' = resultNode x res s"
  unfolding resultNode_def assms ..

lemma resultNode_fenced:
  assumes "ParseNodeName (xKeyParse x) (rNode res) = Some i" "sNodes s i = Some r"
    "rGen res \<le> nLastResultGen (sHeap s r) \<or> nPhase (sHeap s r) = PhaseDone"
  shows "resultNode x res s = None"
  using assms by (auto simp: resultNode_def Let_def)

lemma endResult_done:
  assumes x: "envOK x" and inv: "sysInv s" and r: "sNodes s (nId (sHeap s r)) = Some r" "nGen (sHeap s r) = rGen res"
    and e: "endResult x n r res None s = Some s'"
  shows "nPhase (sHeap s' r) = PhaseDone" "sNodes s \<subseteq>\<^sub>m sNodes s'"
proof -
  define s1 where "s1 = applyRecipeLabelLocked r (rRefs res) (upd r (\<lambda>n. n\<lparr>nConsecRetry := 0, nConsecControl := 0\<rparr>) s)"
  have i1: "sysInv s1" unfolding s1_def by (rule sysInv_keeps [OF keeps_trans [OF retry_start(3) keeps_label] inv])
  have f1: "sNodes s1 = sNodes s" "nId (sHeap s1 r) = nId (sHeap s r)"
    by (simp_all add: s1_def applyLabel_fields) (simp_all add: upd_def)
  have l1: "live s1 r" using r(1) f1 by (simp add: live_def)
  let ?n = "n + Suc (mu s1)"
  obtain t where t: "nodeDoneLocked x (advance x n) r s1 = Some t" "s' = deleteScratch x (rScratchRef res) t"
    using e r by (auto simp: endResult_def Let_def s1_def)
  have "ale (advance x n) (advance x ?n)" unfolding ale_def by (intro allI engine_mono(2)) simp
  from nodeDone_mono [OF this] t(1) have t': "nodeDoneLocked x (advance x ?n) r s1 = Some t" by (metis fle_def option.distinct(1))
  have m: "mu s1 < ?n" by simp
  have ok: "sOK (targets s1) s1" using i1 by (simp add: sysInv_def)
  have "nPhase (sHeap t r) = PhaseDone" by (rule nodeDone_done [OF x engine_total(2) [OF x] ok l1 m t'])
  moreover have "grow s1 t" using nodeDone_good [OF x engine_total(2) [OF x] ok l1 m] t' by (simp add: good_def)
  ultimately show "nPhase (sHeap s' r) = PhaseDone" "sNodes s \<subseteq>\<^sub>m sNodes s'"
    using f1(1) by (simp_all add: t(2) deleteScratch_def grow_def)
qed

lemma resultNode_Some:
  assumes "resultNode x res s = Some r"
  obtains i where "ParseNodeName (xKeyParse x) (rNode res) = Some i" "sNodes s i = Some r" "nGen (sHeap s r) = rGen res"
    "nPhase (sHeap s r) = PhaseQueued \<or> nPhase (sHeap s r) = PhaseRunning"
  using assms by (auto simp: resultNode_def Let_def split: option.splits if_splits)

lemma claim_fields:
  "nLastResultGen (sHeap (claimResult r res s) r) = rGen res" "sNodes (claimResult r res s) = sNodes s"
  "nGen (sHeap (claimResult r res s) u) = nGen (sHeap s u)" "nId (sHeap (claimResult r res s) u) = nId (sHeap s u)"
  by (simp_all add: claimResult_def upd_def)

lemma handled_is_fenced:
  assumes x: "envOK x" and inv: "sysInv s" and h: "handleResult x n res s = Some s'"
  shows "resultNode x res s' = None"
proof (cases "resultNode x res (touchReads res s)")
  case None
  then have "s' = deleteScratch x (rScratchRef res) (touchReads res s)" using h by (simp add: handleResult_def beginResult_def Let_def)
  then show ?thesis using None resultNode_fields [of s' "touchReads res s"] by (simp add: deleteScratch_def)
next
  case (Some r)
  let ?s0 = "touchReads res s"
  define s1 where "s1 = claimResult r res ?s0"
  from Some obtain i where i: "ParseNodeName (xKeyParse x) (rNode res) = Some i" "sNodes ?s0 i = Some r" "nGen (sHeap ?s0 r) = rGen res"
    by (rule resultNode_Some)
  have n1: "sNodes s1 i = Some r" "nLastResultGen (sHeap s1 r) = rGen res" using i(2) by (simp_all add: s1_def claim_fields)
  have fence: "resultNode x res t = None" if "fenced s1 t" for t
    using resultNode_fenced [OF i(1), of t r] that n1 by (simp add: fenced_def)
  show ?thesis
  proof (cases "rClass res = ClassOK")
    case False
    then have "s' = deleteScratch x (rScratchRef res) (applyVerdict x r res s1)"
      using h Some by (simp add: handleResult_def beginResult_def Let_def s1_def)
    then show ?thesis using fence [OF fenced_trans [OF fenced_verdict fenced_plain(7)]] by simp
  next
    case True
    define s2 where "s2 = bumpLocked (putNodeStatusLocked r (upd r (\<lambda>n. n\<lparr>nPhase := PhasePublishing\<rparr>) s1))"
    obtain sp where b: "beginResult x res s = (Committing r res sp, s2)"
      using Some True by (simp add: beginResult_def Let_def s1_def s2_def)
    obtain err w where c: "commit x sp (sW s2) = (err, w)" by fastforce
    let ?s3 = "s2\<lparr>sW := w\<rparr>"
    have e: "endResult x n r res err ?s3 = Some s'" using h b c by (simp add: handleResult_def runCommit_def)
    have i3: "sysInv ?s3" by (rule sysInv_keeps [OF keeps_trans [OF beginResult_keeps [OF b] keeps_ops(4)] inv])
    have f3: "fenced s1 ?s3" unfolding s2_def by (intro fenced_after fenced_upds)
    have "tableOK s" using inv by (simp add: sysInv_def sOK_def)
    moreover have "sNodes s i = Some r" using i(2) by (simp add: touchReads_def emit_def split: if_splits)
    ultimately have "nId (sHeap s r) = i" unfolding tableOK_def by blast
    then have id: "nId (sHeap ?s3 r) = i" and gen: "nGen (sHeap ?s3 r) = rGen res" and n3: "sNodes ?s3 i = Some r"
      using i(3) n1(1)
      by (simp_all add: s2_def s1_def claimResult_def upd_def bumpLocked_def putNodeStatusLocked_def emit_def touchReads_def Let_def
          split: if_splits)
    show ?thesis
    proof (cases err)
      case None
      have "sNodes ?s3 (nId (sHeap ?s3 r)) = Some r" using id n3 by simp
      note d = endResult_done [OF x i3 this gen e [unfolded None]]
      have "sNodes s' i = Some r" using d(2) n3 by (metis domI map_le_def)
      then show ?thesis using resultNode_fenced [OF i(1)] d(1) by blast
    next
      case (Some ce)
      then have "s' = deleteScratch x (rScratchRef res) (if isGateError ce then failNodeAttrLocked x r (Some res) FailOriginGate (commitErrText ce) ?s3
          else retryLocked x r (Some res) FailOriginCommit (''commit: '' @ commitErrText ce) False ?s3)"
        using e id n3 gen by (simp add: endResult_def Let_def)
      moreover have "fenced s1 (failNodeAttrLocked x r (Some res) FailOriginGate t ?s3)" "fenced s1 (retryLocked x r (Some res) FailOriginCommit t False ?s3)" for t
        by (rule fenced_trans [OF f3 fenced_failAttr], rule fenced_trans [OF f3 fenced_retry])
      ultimately have "fenced s1 s'" by (cases "isGateError ce") (simp_all add: fenced_after(8))
      then show ?thesis by (rule fence)
    qed
  qed
qed

section \<open>Properties\<close>

text \<open>C6: Handling a result is idempotent. Once a result has been handled in a reachable state,
  whatever its class and whatever became of its commit, a redelivery of the same message is
  not matched to any attempt: it leaves the node table, all nodes, the requests and the
  timers as they are.\<close>

theorem redelivered_result_dropped:
  assumes "envOK x" and "sysReach x w (s, Idle)" and "handleResult x n res s = Some s'"
  shows "\<exists>s''. handleResult x n' res s' = Some s'' \<and> sNodes s'' = sNodes s' \<and> sHeap s'' = sHeap s' \<and> sRequests s'' = sRequests s'
    \<and> sTimers s'' = sTimers s'"
proof -
  have inv: "sysInv s" using sysReach_ticked [OF assms(2,1)] by (simp add: ticked_def)
  have "resultNode x res (touchReads res s') = None"
    using handled_is_fenced [OF assms(1) inv assms(3)] resultNode_fields [of "touchReads res s'" s'] by (simp add: touchReads_def emit_def)
  then show ?thesis by (simp add: handleResult_def beginResult_def Let_def deleteScratch_def touchReads_def emit_def)
qed

lemma handle_failure: "rClass res \<noteq> ClassOK \<Longrightarrow> \<exists>s'. handleResult x n res s = Some s'"
  by (cases "resultNode x res (touchReads res s)") (simp_all add: handleResult_def beginResult_def Let_def)

lemma demo_parse: "ParseNodeName (xKeyParse demoExt) (NodeName kd (demoKey c)) = Some (kd, demoKey c)"
  by (simp add: ParseNodeName_def keyString_def demoExt_def)

definition demoResult :: Result where
  "demoResult = \<lparr>rNode = NodeName KindBuildFrom (demoKey (CHR ''b'')), rGen = 1, rRunner = ''x'', rClass = ClassHard, rExit = 1,
     rErrSummary = ''boom'', rRefs = [], rRusage = \<lparr>WallNs = 0, CPUNs = 0, MaxRSS = 0, Stored = 0, Deduped = 0\<rparr>, rScratchRef = [], rReadRefs = []\<rparr>"

theorem redelivered_result_dropped_witness:
  "\<exists>s' s''. resultNode demoExt demoResult demoState = Some 1 \<and> handleResult demoExt 0 demoResult demoState = Some s'
     \<and> handleResult demoExt 0 demoResult s' = Some s'' \<and> sHeap s'' = sHeap s'"
proof -
  have n: "resultNode demoExt demoResult demoState = Some 1"
    unfolding resultNode_def demoResult_def by (simp add: demo_parse demo_state [unfolded One_nat_def])
  obtain s' where s': "handleResult demoExt 0 demoResult demoState = Some s'"
    using handle_failure [of demoResult demoExt 0 demoState] by (auto simp: demoResult_def)
  from redelivered_result_dropped [OF demo_envOK demo_reach s', of 0] n s' show ?thesis by blast
qed

end
