(* ===== verification/SchedAttempt.thy ===== *)
theory SchedAttempt
  imports SchedOutcome
begin

text \<open>
  Single operations of the node engine seen from the reachable states: the types of the
  nodes, cycle detection, the job an attempt publishes, the retry budget and the
  no-runner watchdog (\<open>src/sched/node.go\<close>, \<open>src/sched/results.go\<close>, \<open>src/sched/submit.go\<close>).
\<close>

lemma table_node:
  assumes "sOK T s" "sNodes s i = Some r"
  shows "r < sNext s" "nId (sHeap s r) = i" "length (snd i) = 32" "live s r"
  using sOK_D(1) [OF assms(1), unfolded tableOK_def, rule_format, OF assms(2)] assms(2) by (simp_all add: live_def)

section \<open>Cycle detection\<close>

text \<open>A stack entry of the walk carries the names on the way from the start to it.\<close>

definition backPath :: "(nref \<Rightarrow> nref list) \<Rightarrow> nref \<Rightarrow> nref list \<Rightarrow> bool" where
  "backPath succ start rs \<longleftrightarrow> rs \<noteq> [] \<and> last rs = start \<and> successively (\<lambda>a b. a \<in> set (succ b)) rs"

lemma backPath_ext: "backPath succ start (r # ps) \<Longrightarrow> d \<in> set (succ r) \<Longrightarrow> backPath succ start (d # r # ps)"
  by (simp add: backPath_def)

lemma cycleWalk_sound:
  assumes "cycleWalk b succ h target st seen = Some c"
    and "\<And>r path. (r, path) \<in> set st \<Longrightarrow> \<exists>ps. path = map (\<lambda>r. nName (h r)) ps \<and> backPath succ start (r # ps)"
  shows "\<exists>r ps. r < b \<and> nId (h r) = target \<and> c = map (\<lambda>r. nName (h r)) (r # ps) \<and> backPath succ start (r # ps)"
  using assms
proof (induction b succ h target st seen rule: cycleWalk.induct)
  case (2 b succ h target r path st seen)
  consider "\<not> r < b \<or> r \<in> seen" | "r < b" "r \<notin> seen" "nId (h r) = target" | "r < b" "r \<notin> seen" "nId (h r) \<noteq> target" by blast
  then show ?case
  proof cases
    case 1
    with 2 show ?thesis by simp
  next
    case 2
    with "2.prems" show ?thesis by force
  next
    case 3
    have "\<exists>ps. path' = map (\<lambda>r. nName (h r)) ps \<and> backPath succ start (u # ps)"
      if m: "(u, path') \<in> set (map (\<lambda>d. (d, nName (h r) # path)) (succ r) @ st)" for u path'
    proof (cases "(u, path') \<in> set st")
      case True
      with "2.prems"(2) show ?thesis by simp
    next
      case False
      with m have u: "u \<in> set (succ r)" "path' = nName (h r) # path" by auto
      from "2.prems"(2) [of r path] obtain ps where "path = map (\<lambda>r. nName (h r)) ps" "backPath succ start (r # ps)" by auto
      with u backPath_ext [of succ start r ps u] show ?thesis by (intro exI [of _ "r # ps"]) simp
    qed
    with "2.IH"(2) [OF _ 3(3)] 3 "2.prems"(1) show ?thesis by simp
  qed
qed simp

lemma cycleWalk_None:
  assumes "cycleWalk b succ h target st seen = None" and "\<And>u. u \<in> seen \<Longrightarrow> nId (h u) \<noteq> target"
    and "\<And>u v. u \<in> seen \<Longrightarrow> v \<in> set (succ u) \<Longrightarrow> v < b \<Longrightarrow> v \<in> seen \<union> fst ` set st"
  shows "\<exists>S. seen \<subseteq> S \<and> fst ` set st \<inter> {..<b} \<subseteq> S \<and> (\<forall>u \<in> S. nId (h u) \<noteq> target)
    \<and> (\<forall>u \<in> S. \<forall>v \<in> set (succ u). v < b \<longrightarrow> v \<in> S)"
  using assms
proof (induction b succ h target st seen rule: cycleWalk.induct)
  case (1 b succ h target seen)
  then show ?case by (intro exI [of _ seen]) auto
next
  case (2 b succ h target r path st seen)
  show ?case
  proof (cases "\<not> r < b \<or> r \<in> seen")
    case True
    have "v \<in> seen \<union> fst ` set st" if "u \<in> seen" "v \<in> set (succ u)" "v < b" for u v
      using "2.prems"(3) [OF that] True that(3) by auto
    with "2.IH"(1) [OF True] True "2.prems"(1,2) obtain S where S: "seen \<subseteq> S" "fst ` set st \<inter> {..<b} \<subseteq> S"
      "\<forall>u \<in> S. nId (h u) \<noteq> target" "\<forall>u \<in> S. \<forall>v \<in> set (succ u). v < b \<longrightarrow> v \<in> S" by auto
    with True show ?thesis by (intro exI [of _ S]) auto
  next
    case False
    with "2.prems"(1) have t: "nId (h r) \<noteq> target" by (auto split: if_splits)
    let ?st = "map (\<lambda>d. (d, nName (h r) # path)) (succ r) @ st"
    have fs: "fst ` set ?st = set (succ r) \<union> fst ` set st" by force
    have ih: "v \<in> insert r seen \<union> fst ` set ?st" if "u \<in> insert r seen" "v \<in> set (succ u)" "v < b" for u v
      using "2.prems"(3) [of u v] that unfolding fs by (cases "u = r") auto
    have "\<exists>S. insert r seen \<subseteq> S \<and> fst ` set ?st \<inter> {..<b} \<subseteq> S \<and> (\<forall>u \<in> S. nId (h u) \<noteq> target)
        \<and> (\<forall>u \<in> S. \<forall>v \<in> set (succ u). v < b \<longrightarrow> v \<in> S)"
    proof (rule "2.IH"(2) [OF False t])
      show "cycleWalk b succ h target ?st (insert r seen) = None" using "2.prems"(1) False t by simp
      show "nId (h u) \<noteq> target" if "u \<in> insert r seen" for u using that "2.prems"(2) t by auto
    qed (rule ih)
    then obtain S where S: "insert r seen \<subseteq> S" "fst ` set ?st \<inter> {..<b} \<subseteq> S" "\<forall>u \<in> S. nId (h u) \<noteq> target"
      "\<forall>u \<in> S. \<forall>v \<in> set (succ u). v < b \<longrightarrow> v \<in> S" by blast
    then show ?thesis unfolding fs by (intro exI [of _ S]) auto
  qed
qed

text \<open>In a well-formed state the way back over dependents is the way down over deps.\<close>

lemma backPath_down:
  assumes links: "linksOK s" and ord: "\<And>r. set (succ r) = set (nDependents (sHeap s r))"
    and "live s start" "backPath succ start (r # ps)"
  shows "live s r \<and> (r, start) \<in> (edges s)\<^sup>*"
  using assms(4)
proof (induction ps arbitrary: r)
  case Nil
  then show ?case using assms(3) by (simp add: backPath_def)
next
  case (Cons q ps)
  then have bp: "backPath succ start (q # ps)" and m: "r \<in> set (nDependents (sHeap s q))" by (simp_all add: backPath_def ord)
  from Cons.IH [OF bp] have q: "live s q" "(q, start) \<in> (edges s)\<^sup>*" by simp_all
  from linksOK_D(3,4) [OF links q(1) m] have "live s r" "(r, q) \<in> edges s" by (simp_all add: edges_def)
  with q(2) show ?case by (meson converse_rtrancl_into_rtrancl)
qed

lemma backPath_edges:
  assumes "linksOK s" "\<And>r. set (succ r) = set (nDependents (sHeap s r))" "live s start" "backPath succ start qs"
  shows "successively (\<lambda>a b. (a, b) \<in> edges s) qs"
  using assms(4)
proof (induction qs rule: induct_list012)
  case (3 u v qs)
  then have bp: "backPath succ start (v # qs)" "u \<in> set (nDependents (sHeap s v))" by (simp_all add: backPath_def assms(2))
  then have "live s v" using backPath_down [OF assms(1-3)] by blast
  with bp(2) 3(2) [OF bp(1)] linksOK_D(4) [OF assms(1)] show ?case by (simp add: edges_def)
qed simp_all

lemma cycleChain_sound:
  assumes x: "envOK x" and ok: "sOK T s" and r: "live s r" and c: "cycleChainLocked x r i s = Some c"
  shows "\<exists>a ps. c = map (\<lambda>r. nName (sHeap s r)) (a # ps) \<and> last (a # ps) = r \<and> sNodes s i = Some a
    \<and> successively (\<lambda>a b. (a, b) \<in> edges s) (a # ps) \<and> (a, r) \<in> (edges s)\<^sup>*"
proof -
  define succ where "succ = (\<lambda>r. xOrd x s (nDependents (sHeap s r)))"
  have ord: "set (succ u) = set (nDependents (sHeap s u))" for u unfolding succ_def by (rule envOK_ord [OF x])
  have cw: "cycleWalk (sNext s) succ (sHeap s) i [(r, [])] {} = Some c"
    using c by (simp add: cycleChainLocked_def succ_def)
  have "\<exists>ps. path = map (\<lambda>r. nName (sHeap s r)) ps \<and> backPath succ r (u # ps)" if "(u, path) \<in> set [(r, [])]" for u path
    using that by (auto simp: backPath_def)
  from cycleWalk_sound [OF cw this] obtain a ps where a: "nId (sHeap s a) = i" "c = map (\<lambda>r. nName (sHeap s r)) (a # ps)"
    "backPath succ r (a # ps)" by blast
  note links = sOK_D(2) [OF ok]
  have d: "live s a" "(a, r) \<in> (edges s)\<^sup>*" using backPath_down [OF links ord r a(3)] by simp_all
  then have "sNodes s i = Some a" using a(1) by (simp add: live_def)
  with a(2) d(2) backPath_edges [OF links ord r a(3)] a(3) show ?thesis unfolding backPath_def by blast
qed

lemma cycleChain_complete:
  assumes x: "envOK x" and ok: "sOK T s" and a: "sNodes s i = Some a" "(a, r) \<in> (edges s)\<^sup>*"
  shows "cycleChainLocked x r i s \<noteq> None"
proof
  define succ where "succ = (\<lambda>r. xOrd x s (nDependents (sHeap s r)))"
  have ord: "set (succ u) = set (nDependents (sHeap s u))" for u unfolding succ_def by (rule envOK_ord [OF x])
  note tab = sOK_D(1) [OF ok] and links = sOK_D(2) [OF ok]
  note ia = table_node(2,4) [OF ok a(1)]
  assume "cycleChainLocked x r i s = None"
  then have "cycleWalk (sNext s) succ (sHeap s) i [(r, [])] {} = None" by (simp add: cycleChainLocked_def succ_def)
  from cycleWalk_None [OF this] obtain S where S: "{r} \<inter> {..<sNext s} \<subseteq> S" "\<forall>u \<in> S. nId (sHeap s u) \<noteq> i"
    "\<forall>u \<in> S. \<forall>v \<in> set (succ u). v < sNext s \<longrightarrow> v \<in> S" by auto
  from a(2) ia(2) have "a \<in> S"
  proof (induction rule: converse_rtrancl_induct)
    case base
    then show ?case using S(1) live_less [OF tab] by auto
  next
    case (step u v)
    then have d: "v \<in> set (nDeps (sHeap s u))" by (simp add: edges_def)
    from linksOK_D(1,2) [OF links step.prems d] have "live s v" "u \<in> set (succ v)" by (simp_all add: ord)
    with step.IH S(3) live_less [OF tab step.prems] show ?case by blast
  qed
  with S(2) ia(1) show False by blast
qed

section \<open>Properties of the node graph\<close>

text \<open>C10: The sub-build check finds exactly the edges that would close a cycle. For a node in
  the table, \<open>cycleChainLocked\<close> reports a chain for a target if and only if the target is in
  the table and already depends on the node, directly or not; and the chain it reports is
  a real path of dependencies from the target down to the node.\<close>

theorem cycle_check_exact:
  assumes "envOK x" and "sysReach x w (s, p)" and "sNodes s j = Some r"
  shows "(cycleChainLocked x r i s \<noteq> None \<longleftrightarrow> (\<exists>a. sNodes s i = Some a \<and> (a, r) \<in> (edges s)\<^sup>*))
    \<and> (\<forall>c. cycleChainLocked x r i s = Some c \<longrightarrow> (\<exists>a ps. c = map (\<lambda>r. nName (sHeap s r)) (a # ps) \<and> last (a # ps) = r
        \<and> sNodes s i = Some a \<and> successively (\<lambda>a b. (a, b) \<in> edges s) (a # ps)))"
proof -
  have ok: "sOK (targets s) s" using sysReach_ticked [OF assms(2,1)] by (simp add: ticked_def sysInv_def)
  note snd = cycleChain_sound [OF assms(1) ok table_node(4) [OF ok assms(3)], of i]
  show ?thesis
  proof (intro conjI iffI allI impI)
    assume "cycleChainLocked x r i s \<noteq> None"
    then obtain c where "cycleChainLocked x r i s = Some c" by blast
    from snd [OF this] show "\<exists>a. sNodes s i = Some a \<and> (a, r) \<in> (edges s)\<^sup>*" by blast
  next
    assume "\<exists>a. sNodes s i = Some a \<and> (a, r) \<in> (edges s)\<^sup>*"
    then show "cycleChainLocked x r i s \<noteq> None" using cycleChain_complete [OF assms(1) ok] by blast
  next
    fix c assume "cycleChainLocked x r i s = Some c"
    from snd [OF this] show "\<exists>a ps. c = map (\<lambda>r. nName (sHeap s r)) (a # ps) \<and> last (a # ps) = r
        \<and> sNodes s i = Some a \<and> successively (\<lambda>a b. (a, b) \<in> edges s) (a # ps)" by blast
  qed
qed

theorem cycle_check_exact_witness:
  "\<exists>c. cycleChainLocked demoExt 1 (KindBuildValue, demoKey (CHR ''b'')) demoState = Some c"
proof -
  have n: "sNodes demoState (KindBuildFrom, demoKey (CHR ''b'')) = Some 1" by (simp add: demo_state)
  have "sNodes demoState (KindBuildValue, demoKey (CHR ''b'')) = Some 0" "(0, 1) \<in> edges demoState"
    by (simp_all add: edges_def demo_state [unfolded One_nat_def])
  with cycle_check_exact [OF demo_envOK demo_reach n, of "(KindBuildValue, demoKey (CHR ''b''))"] show ?thesis by blast
qed



section \<open>Failure and retry\<close>

lemma record_frame:
  "sHeap (recordFailureLocked x r res origin disp summary backoff s) = sHeap s"
  "sTimers (recordFailureLocked x r res origin disp summary backoff s) = sTimers s"
  "sClosed (recordFailureLocked x r res origin disp summary backoff s) = sClosed s"
  "sRetryBase (recordFailureLocked x r res origin disp summary backoff s) = sRetryBase s"
  by (simp_all add: recordFailureLocked_def timeNow_eq Let_def emit_def case_prod_beta split: option.split)

lemma fail_frame:
  assumes "nPhase (sHeap s r) \<noteq> PhaseFailed" "nPhase (sHeap s r) \<noteq> PhaseDone"
  shows "nPhase (sHeap (failNodeAttrLocked x r res origin summary s) r) = PhaseFailed"
    "nErrSummary (sHeap (failNodeAttrLocked x r res origin summary s) r) = summary"
    "sTimers (failNodeAttrLocked x r res origin summary s) = sTimers s"
  using assms
  by (simp_all add: failNodeAttrLocked_def timeNow_eq Let_def bumpLocked_def putNodeStatusLocked_def emit_def record_frame upd_def)

lemma backoff_exact: "0 \<le> base \<Longrightarrow> c < 3 \<Longrightarrow> backoffFor base (Suc c) = base * 2 ^ c \<and> base * 2 ^ c \<le> 4 * base"
  by (cases c; cases "c - 1") (auto simp: backoffFor_def numeral_3_eq_3 less_Suc_eq)

lemma retry_backoff:
  assumes "nConsecRetry (sHeap s r) < 3"
  shows "nPhase (sHeap (retryLocked x r res origin summary False s) r) = PhaseWaiting"
    "nConsecRetry (sHeap (retryLocked x r res origin summary False s) r) = Suc (nConsecRetry (sHeap s r))"
    "nGen (sHeap (retryLocked x r res origin summary False s) r) = nGen (sHeap s r)"
    "sTimers (retryLocked x r res origin summary False s) = sTimers s @
       [\<lparr>tmNode = r, tmId = nId (sHeap s r), tmGen = nGen (sHeap s r), tmDelay = backoffFor (sRetryBase s) (Suc (nConsecRetry (sHeap s r)))\<rparr>]"
  using assms
  by (simp_all add: retryLocked_def Let_def maxConsecRetryable_def armReenqueueLocked_def bumpLocked_def putNodeStatusLocked_def emit_def
      record_frame upd_def)

lemma retry_exhausted:
  assumes "\<not> nConsecRetry (sHeap s r) < 3" "nPhase (sHeap s r) \<noteq> PhaseFailed" "nPhase (sHeap s r) \<noteq> PhaseDone"
  shows "nPhase (sHeap (retryLocked x r res origin summary False s) r) = PhaseFailed"
    "sTimers (retryLocked x r res origin summary False s) = sTimers s"
  using assms by (simp_all add: retryLocked_def Let_def maxConsecRetryable_def fail_frame) (simp_all add: upd_def fail_frame)

lemma control_exhausted:
  assumes "\<not> nConsecControl (sHeap s r) < 20" "nPhase (sHeap s r) \<noteq> PhaseFailed" "nPhase (sHeap s r) \<noteq> PhaseDone"
  shows "nPhase (sHeap (retryLocked x r res origin summary True s) r) = PhaseFailed"
    "sTimers (retryLocked x r res origin summary True s) = sTimers s"
  using assms by (simp_all add: retryLocked_def Let_def maxConsecControl_def fail_frame) (simp_all add: upd_def fail_frame)

section \<open>Attempts\<close>

lemma pullRefs_distinct:
  assumes "computePullRefsLocked x n w = (Inr names, w')"
  shows "distinct names"
proof -
  have one: "addIfPresent x w name out = Inr out' \<Longrightarrow> distinct out \<Longrightarrow> distinct out'" for w name out out'
    using addIfPresent_Inr(1) [of x w name out out'] by blast
  have inp: "addEach (\<lambda>inp. addInputOutputs x w inp b) is out = Inr out' \<Longrightarrow> distinct out \<Longrightarrow> distinct out'" for w b "is" out out'
    by (rule addEach_distinct) (rule addInputOutputs_distinct)
  have cs: "addEach (\<lambda>c. addIfPresent x w (f c)) is out = Inr out' \<Longrightarrow> distinct out \<Longrightarrow> distinct out'"
    for w and f :: "'c \<Rightarrow> string" and "is" out out'
    by (rule addEach_distinct) (rule one)
  have "pullRefsImport x n w = Inr names \<Longrightarrow> distinct names" for w
    by (auto simp: pullRefsImport_def Let_def addNames_distinct split: sum.splits option.splits if_splits dest!: one)
  moreover have "pullRefsBuildFrom x n w = Inr names \<Longrightarrow> distinct names" for w
    by (auto simp: pullRefsBuildFrom_def split: sum.splits if_splits dest: addInputOutputs_distinct)
  moreover have "pullRefsPin x n w = Inr names \<Longrightarrow> distinct names" for w
    by (auto simp: pullRefsPin_def addNames_distinct split: sum.splits dest!: one inp)
  moreover have "pullRefsBuildRun x n w = Inr names \<Longrightarrow> distinct names" for w
    by (auto simp: pullRefsBuildRun_def addNames_distinct split: sum.splits dest!: one inp cs)
  ultimately show ?thesis
    using assms by (auto simp: computePullRefsLocked_def Let_def addNames_distinct split: kind.splits prod.splits option.splits)
qed

text \<open>What the requirement covers: the default of the kind, the pinned resources, and the
  override of every live request for the build itself.\<close>

lemma requests_fold:
  "Fits req (fold (\<lambda>(rid, rq) req. if P rid rq then ResMax req (rqRes rq) else req) qs req)"
  "(rid, rq) \<in> set qs \<Longrightarrow> P rid rq \<Longrightarrow> Fits (rqRes rq) (fold (\<lambda>(rid, rq) req. if P rid rq then ResMax req (rqRes rq) else req) qs req)"
proof (induction qs arbitrary: req)
  case (Cons q qs)
  have up: "Fits a (ResMax a b)" "Fits b (ResMax a b)" for a b by (simp_all add: Fits_def)
  {
    case 1
    show ?case using Cons(1) [of req] Fits_trans [OF up(1) Cons(1)] by (auto simp: case_prod_beta)
  next
    case 2
    then show ?case using Fits_trans [OF up(2) Cons(1)] Cons(2) by (auto simp: case_prod_beta)
  }
qed simp_all

lemma dependents_fold:
  assumes "\<And>d req. Fits req (f d req)"
  shows "Fits req (fold f ds req)" and "d \<in> set ds \<Longrightarrow> (\<And>req. Fits a (f d req)) \<Longrightarrow> Fits a (fold f ds req)"
proof (induction ds arbitrary: req)
  case (Cons e ds)
  {
    case 1
    show ?case using Fits_trans [OF assms Cons(1)] by simp
  next
    case 2
    then show ?case using Fits_trans [OF 2(2) Cons(1)] Cons(2) by (cases "d = e") auto
  }
qed simp_all

lemma requirement_covers:
  "Fits (DefaultFor (resKind (fst (nId (sHeap s r))))) (requirementLocked s r)" "Fits (nPinnedRes (sHeap s r)) (requirementLocked s r)"
  "d \<in> set (nDependents (sHeap s r)) \<Longrightarrow> fst (nId (sHeap s d)) = KindBuildValue \<Longrightarrow> (rid, rq) \<in> set (sRequests s) \<Longrightarrow>
     rid \<in> nInterest (sHeap s d) \<Longrightarrow> \<not> rqCancelled rq \<Longrightarrow> rqK rq = snd (nId (sHeap s d)) \<Longrightarrow> Fits (rqRes rq) (requirementLocked s r)"
proof -
  let ?f = "\<lambda>d req. if fst (nId (sHeap s d)) \<noteq> KindBuildValue then req
      else fold (\<lambda>(rid, rq) req. if rid \<in> nInterest (sHeap s d) \<and> \<not> rqCancelled rq \<and> rqK rq = snd (nId (sHeap s d))
        then ResMax req (rqRes rq) else req) (sRequests s) req"
  have eq: "requirementLocked s r = fold ?f (nDependents (sHeap s r))
      (ResMax (DefaultFor (resKind (fst (nId (sHeap s r))))) (nPinnedRes (sHeap s r)))"
    by (simp add: requirementLocked_def Let_def)
  have up: "Fits req (?f d req)" for d req by (simp add: requests_fold(1))
  have b: "Fits a (ResMax a c)" "Fits c (ResMax a c)" for a c by (simp_all add: Fits_def)
  show "Fits (DefaultFor (resKind (fst (nId (sHeap s r))))) (requirementLocked s r)" "Fits (nPinnedRes (sHeap s r)) (requirementLocked s r)"
    unfolding eq by (rule Fits_trans [OF b(1) dependents_fold(1) [OF up]], rule Fits_trans [OF b(2) dependents_fold(1) [OF up]])
  assume d: "d \<in> set (nDependents (sHeap s r))" "fst (nId (sHeap s d)) = KindBuildValue" "(rid, rq) \<in> set (sRequests s)"
    "rid \<in> nInterest (sHeap s d)" "\<not> rqCancelled rq" "rqK rq = snd (nId (sHeap s d))"
  have "Fits (rqRes rq) (?f d req)" for req
    using requests_fold(2) [OF d(3), of "\<lambda>rid rq. rid \<in> nInterest (sHeap s d) \<and> \<not> rqCancelled rq \<and> rqK rq = snd (nId (sHeap s d))" req] d
    by simp
  then show "Fits (rqRes rq) (requirementLocked s r)" unfolding eq by (intro dependents_fold(2) [OF up d(1)])
qed

lemma start_frame:
  "nId (sHeap (startAttempt x r s) u) = nId (sHeap s u)" "nDependents (sHeap (startAttempt x r s) u) = nDependents (sHeap s u)"
  "nInterest (sHeap (startAttempt x r s) u) = nInterest (sHeap s u)" "nPinnedRes (sHeap (startAttempt x r s) u) = nPinnedRes (sHeap s u)"
  "nPhase (sHeap (startAttempt x r s) u) = nPhase (sHeap s u)" "nPlatform (sHeap (startAttempt x r s) u) = nPlatform (sHeap s u)"
  "nDef (sHeap (startAttempt x r s) u) = nDef (sHeap s u)" "nConsecControl (sHeap (startAttempt x r s) u) = nConsecControl (sHeap s u)"
  "nGen (sHeap (startAttempt x r s) r) = nGen (sHeap s r) + 1" "sRequests (startAttempt x r s) = sRequests s"
  "sClosed (startAttempt x r s) = sClosed s"
  by (simp_all add: startAttempt_def timeNow_eq upd_def)

lemma requirement_start: "requirementLocked (startAttempt x r s) r = requirementLocked s r"
  unfolding requirementLocked_def Let_def start_frame ..

lemma lane_frame: "sHeap (ensureLaneLocked x p c s) = sHeap s" "sClosed (ensureLaneLocked x p c s) = sClosed s"
  by (simp_all add: ensureLaneLocked_def Let_def case_prod_beta)

lemma publish_frame:
  "nGen (sHeap (publishJob x r job s) r) = nGen (sHeap s r)" "nConsecControl (sHeap (publishJob x r job s) r) = nConsecControl (sHeap s r)"
  by (simp_all add: publishJob_def Let_def case_prod_beta armReenqueueLocked_def bumpLocked_def putNodeStatusLocked_def emit_def upd_def
      split: option.split)

lemma publish_queued:
  assumes "nPhase (sHeap (publishJob x r job s) r) = PhaseQueued" "nPhase (sHeap s r) \<noteq> PhaseQueued"
  shows "JobPublished (JobsSubject (jPlatform job) (jClass job)) (JobMsgID (jNode job) (jGen job)) job \<in> set (sEvents (publishJob x r job s))"
  using assms
  by (auto simp: publishJob_def Let_def case_prod_beta armReenqueueLocked_def bumpLocked_def putNodeStatusLocked_def emit_def upd_def
      split: option.splits if_splits)

lemma fail_keeps:
  "nGen (sHeap (failNodeLocked x r e s) u) = nGen (sHeap s u)" "nConsecControl (sHeap (failNodeLocked x r e s) u) = nConsecControl (sHeap s u)"
  "nPhase (sHeap (failNodeLocked x r e s) r) = PhaseQueued \<Longrightarrow> nPhase (sHeap s r) = PhaseQueued"
  by (auto simp: failNodeLocked_def failNodeAttrLocked_def timeNow_eq Let_def bumpLocked_def putNodeStatusLocked_def emit_def record_frame upd_def
      split: if_splits)

lemma enqueue_next:
  assumes "\<not> sClosed s"
  shows "nGen (sHeap (enqueueLocked x r s) r) = nGen (sHeap s r) + 1"
    "nConsecControl (sHeap (enqueueLocked x r s) r) = nConsecControl (sHeap s r)"
  using assms
  by (simp_all add: enqueueLocked_def Let_def case_prod_beta fail_keeps publish_frame lane_frame start_frame split: sum.split)

lemma enqueue_queued:
  assumes "\<not> sClosed s" "nPhase (sHeap s r) \<noteq> PhaseQueued" "nPhase (sHeap (enqueueLocked x r s) r) = PhaseQueued"
  obtains names job where "distinct names" "job = attemptJob (startAttempt x r s) r names"
    "JobPublished (JobsSubject (jPlatform job) (jClass job)) (JobMsgID (jNode job) (jGen job)) job \<in> set (sEvents (enqueueLocked x r s))"
proof -
  let ?s1 = "startAttempt x r s"
  obtain pull w where c: "computePullRefsLocked x (sHeap ?s1 r) (sW ?s1) = (pull, w)" by fastforce
  show thesis
  proof (cases pull)
    case (Inl err)
    have "enqueueLocked x r s = failNodeLocked x r (''compute pull refs: '' @ err) (?s1\<lparr>sW := w\<rparr>)"
      using assms(1) c Inl by (simp add: enqueueLocked_def Let_def)
    with assms(2,3) fail_keeps(3) [of x r "''compute pull refs: '' @ err" "?s1\<lparr>sW := w\<rparr>"] show ?thesis by (simp add: start_frame)
  next
    case (Inr names)
    let ?job = "attemptJob ?s1 r names"
    let ?s2 = "ensureLaneLocked x (jPlatform ?job) (jClass ?job) (?s1\<lparr>sW := w\<rparr>)"
    have e: "enqueueLocked x r s = publishJob x r ?job ?s2" using assms(1) c Inr by (simp add: enqueueLocked_def Let_def)
    have "nPhase (sHeap ?s2 r) \<noteq> PhaseQueued" using assms(2) by (simp add: lane_frame start_frame)
    from that [OF pullRefs_distinct [OF c [unfolded Inr]] refl] publish_queued [OF assms(3) [unfolded e] this] e show ?thesis by simp
  qed
qed

lemma control_next:
  assumes "nConsecControl (sHeap s r) < 20" "\<not> sClosed s"
  shows "nConsecControl (sHeap (retryLocked x r res origin summary True s) r) = Suc (nConsecControl (sHeap s r))"
    "nGen (sHeap (retryLocked x r res origin summary True s) r) = nGen (sHeap s r) + 1"
  using assms
  by (simp_all add: retryLocked_def Let_def maxConsecControl_def enqueue_next record_frame upd_def)

section \<open>Properties of attempts\<close>

text \<open>C11: Every published attempt fits where it is placed. When enqueueing queues a node, a job
  message of the next generation was published under the id of exactly this attempt, its
  pull list has no duplicates, and its requirement covers the default of the kind, the
  pinned resources and the override of every live request for the build. Its class is a
  rung of the ladder; unless no rung holds the requirement, any runner that serves the
  class has the resources the job asks for.\<close>

theorem attempt_published:
  assumes "\<not> sClosed s" and "nPhase (sHeap s r) \<noteq> PhaseQueued" and "nPhase (sHeap (enqueueLocked x r s) r) = PhaseQueued"
  shows "\<exists>job. JobPublished (JobsSubject (jPlatform job) (jClass job)) (JobMsgID (jNode job) (jGen job)) job \<in> set (sEvents (enqueueLocked x r s))
    \<and> jNode job = nName (sHeap s r) \<and> jKey job = snd (nId (sHeap s r)) \<and> jPlatform job = nPlatform (sHeap s r)
    \<and> jGen job = nGen (sHeap s r) + 1 \<and> nGen (sHeap (enqueueLocked x r s) r) = jGen job \<and> distinct (jPullRefs job)
    \<and> jClass job \<in> set Classes
    \<and> (let req = Res (jCPUMilli job) (jMemBytes job) in
        Fits (DefaultFor (resKind (fst (nId (sHeap s r))))) req \<and> Fits (nPinnedRes (sHeap s r)) req
        \<and> (\<forall>d \<in> set (nDependents (sHeap s r)). \<forall>(rid, rq) \<in> set (sRequests s).
             fst (nId (sHeap s d)) = KindBuildValue \<and> rid \<in> nInterest (sHeap s d) \<and> \<not> rqCancelled rq \<and> rqK rq = snd (nId (sHeap s d))
             \<longrightarrow> Fits (rqRes rq) req)
        \<and> ((\<exists>c \<in> set Classes. Fits req (ClassResources c)) \<longrightarrow> (\<forall>sz. jClass job \<in> set (ClassesWithin sz) \<longrightarrow> Fits req sz)))"
proof -
  obtain names job where job: "distinct names" "job = attemptJob (startAttempt x r s) r names"
    and ev: "JobPublished (JobsSubject (jPlatform job) (jClass job)) (JobMsgID (jNode job) (jGen job)) job \<in> set (sEvents (enqueueLocked x r s))"
    by (rule enqueue_queued [OF assms])
  let ?req = "requirementLocked s r"
  have req: "Res (jCPUMilli job) (jMemBytes job) = ?req" and cl: "jClass job = fst (ClassFor ?req)"
    by (simp_all add: job(2) attemptJob_def Let_def requirement_start)
  have f: "jNode job = nName (sHeap s r)" "jKey job = snd (nId (sHeap s r))" "jPlatform job = nPlatform (sHeap s r)"
    "jGen job = nGen (sHeap s r) + 1" "jPullRefs job = names"
    unfolding job(2) attemptJob_def Let_def nName_def by (simp_all add: start_frame)
  show ?thesis unfolding Let_def
  proof (rule exI [of _ job], unfold req, intro conjI ballI impI allI)
    show "jClass job \<in> set Classes" unfolding cl by (rule ladder.classFor_rung)
    show "nGen (sHeap (enqueueLocked x r s) r) = jGen job" unfolding f by (rule enqueue_next(1) [OF assms(1)])
    show "distinct (jPullRefs job)" unfolding f by (rule job(1))
  next
    fix d q assume "d \<in> set (nDependents (sHeap s r))" "q \<in> set (sRequests s)"
    then show "case q of (rid, rq) \<Rightarrow> fst (nId (sHeap s d)) = KindBuildValue \<and> rid \<in> nInterest (sHeap s d) \<and> \<not> rqCancelled rq
        \<and> rqK rq = snd (nId (sHeap s d)) \<longrightarrow> Fits (rqRes rq) ?req"
      using requirement_covers(3) [of d s r "fst q" "snd q"] by (cases q) simp
  next
    fix sz assume "\<exists>c \<in> set Classes. Fits ?req (ClassResources c)" and "jClass job \<in> set (ClassesWithin sz)"
    then show "Fits ?req sz"
      using ladder.served_fits [of ?req sz] ladder.classFor_capped_iff [of ?req] unfolding cl by blast
  qed (rule ev f requirement_covers)+
qed

text \<open>A pluginresolve node on an empty store.\<close>

definition demoAttempt :: "(string \<Rightarrow> key option) sched" where
  "demoAttempt = upd 0 (\<lambda>n. n\<lparr>nId := (KindPluginResolve, ''a''), nPlatform := ''linux''\<rparr>) (newSched (\<lambda>_. None))"

lemma demo_enqueue:
  "\<not> sClosed demoAttempt" "nPhase (sHeap demoAttempt 0) = PhaseWaiting" "nPhase (sHeap (enqueueLocked memExt 0 demoAttempt) 0) = PhaseQueued"
  "nGen (sHeap demoAttempt 0) = 0"
  by (simp_all add: demoAttempt_def upd_def newSched_def emptyNode_def enqueueLocked_def startAttempt_def timeNow_eq Let_def
      computePullRefsLocked_def healCarrierLocked_def memExt_def publishJob_def ensureLaneLocked_def case_prod_beta bumpLocked_def
      putNodeStatusLocked_def emit_def)

theorem attempt_published_witness:
  "\<exists>job. JobPublished (JobsSubject (jPlatform job) (jClass job)) (JobMsgID (jNode job) (jGen job)) job
      \<in> set (sEvents (enqueueLocked memExt 0 demoAttempt)) \<and> jGen job = 1 \<and> jClass job \<in> set Classes"
proof -
  have "nPhase (sHeap demoAttempt 0) \<noteq> PhaseQueued" by (simp add: demo_enqueue)
  from attempt_published [OF demo_enqueue(1) this demo_enqueue(3)] demo_enqueue(4) show ?thesis by auto
qed

text \<open>C12: The retry budget bounds the attempts of a node. A retryable result of the current
  attempt sends the node back to waiting with one more consecutive failure and arms exactly
  one timer, with the exponential backoff of one, two and four times the base, as long as
  fewer than three came before; the next one fails the node and arms nothing. A control
  result starts the next generation at once, up to twenty in a row, and then fails the
  node. A hard result fails it. Everything else about the timers is unchanged.\<close>

theorem retry_budget:
  assumes "resultNode x res s = Some r" and "0 \<le> sRetryBase s" and "\<not> sClosed s"
  shows "\<exists>s'. (rClass res \<noteq> ClassOK \<longrightarrow> handleResult x n res s = Some s')
    \<and> (rClass res = ClassRetryable \<longrightarrow>
        (if nConsecRetry (sHeap s r) < 3
         then nPhase (sHeap s' r) = PhaseWaiting \<and> nConsecRetry (sHeap s' r) = nConsecRetry (sHeap s r) + 1
           \<and> (\<exists>delay. sTimers s' = sTimers s @ [\<lparr>tmNode = r, tmId = nId (sHeap s r), tmGen = nGen (sHeap s r), tmDelay = delay\<rparr>]
                \<and> delay = sRetryBase s * 2 ^ nConsecRetry (sHeap s r) \<and> delay \<le> 4 * sRetryBase s)
         else nPhase (sHeap s' r) = PhaseFailed \<and> sTimers s' = sTimers s))
    \<and> (rClass res = ClassControl \<longrightarrow>
        (if nConsecControl (sHeap s r) < 20
         then nGen (sHeap s' r) = nGen (sHeap s r) + 1 \<and> nConsecControl (sHeap s' r) = nConsecControl (sHeap s r) + 1
         else nPhase (sHeap s' r) = PhaseFailed \<and> sTimers s' = sTimers s))
    \<and> (rClass res = ClassHard \<longrightarrow> nPhase (sHeap s' r) = PhaseFailed \<and> sTimers s' = sTimers s)"
proof -
  define s1 where "s1 = claimResult r res (touchReads res s)"
  define s' where "s' = deleteScratch x (rScratchRef res) (applyVerdict x r res s1)"
  have t: "resultNode x res (touchReads res s) = Some r"
    using assms(1) resultNode_fields [of "touchReads res s" s] by (simp add: touchReads_def emit_def)
  have hr: "handleResult x n res s = Some s'" if "rClass res \<noteq> ClassOK"
    using t that by (simp add: handleResult_def beginResult_def Let_def s'_def s1_def)
  have ph: "nPhase (sHeap s r) = PhaseQueued \<or> nPhase (sHeap s r) = PhaseRunning"
    using assms(1) by (auto simp: resultNode_def Let_def split: option.splits if_splits)
  have f: "nPhase (sHeap s1 r) = nPhase (sHeap s r)" "nConsecRetry (sHeap s1 r) = nConsecRetry (sHeap s r)" "sTimers s1 = sTimers s"
    "nConsecControl (sHeap s1 r) = nConsecControl (sHeap s r)" "nGen (sHeap s1 r) = nGen (sHeap s r)" "nId (sHeap s1 r) = nId (sHeap s r)"
    "sRetryBase s1 = sRetryBase s" "sClosed s1 = sClosed s"
    by (simp_all add: s1_def claimResult_def touchReads_def emit_def upd_def)
  have d: "sHeap s' = sHeap (applyVerdict x r res s1)" "sTimers s' = sTimers (applyVerdict x r res s1)"
    by (simp_all add: s'_def deleteScratch_def)
  have nf: "nPhase (sHeap s1 r) \<noteq> PhaseFailed" "nPhase (sHeap s1 r) \<noteq> PhaseDone" using ph unfolding f by auto
  have rt: "if nConsecRetry (sHeap s r) < 3
      then nPhase (sHeap s' r) = PhaseWaiting \<and> nConsecRetry (sHeap s' r) = nConsecRetry (sHeap s r) + 1
        \<and> (\<exists>delay. sTimers s' = sTimers s @ [\<lparr>tmNode = r, tmId = nId (sHeap s r), tmGen = nGen (sHeap s r), tmDelay = delay\<rparr>]
             \<and> delay = sRetryBase s * 2 ^ nConsecRetry (sHeap s r) \<and> delay \<le> 4 * sRetryBase s)
      else nPhase (sHeap s' r) = PhaseFailed \<and> sTimers s' = sTimers s" if c: "rClass res = ClassRetryable"
  proof -
    have v: "applyVerdict x r res s1 = retryLocked x r (Some res) FailOriginResult (rErrSummary res) False s1"
      using c by (simp add: applyVerdict_def)
    note bo = backoff_exact [OF assms(2)]
    show ?thesis
      using retry_backoff [of s1 r] retry_exhausted [of s1 r] nf bo [of "nConsecRetry (sHeap s r)"] unfolding d v f by simp
  qed
  have ct: "if nConsecControl (sHeap s r) < 20
      then nGen (sHeap s' r) = nGen (sHeap s r) + 1 \<and> nConsecControl (sHeap s' r) = nConsecControl (sHeap s r) + 1
      else nPhase (sHeap s' r) = PhaseFailed \<and> sTimers s' = sTimers s" if c: "rClass res = ClassControl"
  proof -
    have v: "applyVerdict x r res s1 = retryLocked x r (Some res) FailOriginResult (rErrSummary res) True s1"
      using c by (simp add: applyVerdict_def)
    show ?thesis using control_next [of s1 r] control_exhausted [of s1 r] nf assms(3) unfolding d v f by simp
  qed
  have hf: "nPhase (sHeap s' r) = PhaseFailed \<and> sTimers s' = sTimers s" if c: "rClass res = ClassHard"
    using fail_frame(1,3) [OF nf] c unfolding d by (simp add: applyVerdict_def f)
  show ?thesis
    by (rule exI [of _ s'], rule conjI, rule impI, erule hr, rule conjI, rule impI, erule rt, rule conjI, rule impI, erule ct, rule impI, erule hf)
qed

theorem retry_budget_witness:
  "\<exists>s'. handleResult demoExt 0 (demoResult\<lparr>rClass := ClassRetryable\<rparr>) (demoState\<lparr>sRetryBase := 7\<rparr>) = Some s'
     \<and> nPhase (sHeap s' 1) = PhaseWaiting \<and> nConsecRetry (sHeap s' 1) = 1"
proof -
  let ?res = "demoResult\<lparr>rClass := ClassRetryable\<rparr>" and ?s = "demoState\<lparr>sRetryBase := 7\<rparr>"
  have n: "resultNode demoExt ?res ?s = Some 1"
    unfolding resultNode_def demoResult_def by (simp add: demo_parse demo_state [unfolded One_nat_def])
  have b: "0 \<le> sRetryBase ?s" "\<not> sClosed ?s" by (simp_all add: demo_state)
  have c: "nConsecRetry (sHeap ?s 1) = 0" by (simp add: demo_state [unfolded One_nat_def])
  from retry_budget [OF n b, of 0] obtain s' where
    s': "rClass ?res \<noteq> ClassOK \<longrightarrow> handleResult demoExt 0 ?res ?s = Some s'"
      "rClass ?res = ClassRetryable \<longrightarrow> nPhase (sHeap s' 1) = PhaseWaiting \<and> nConsecRetry (sHeap s' 1) = nConsecRetry (sHeap ?s 1) + 1"
    unfolding c by auto
  then show ?thesis unfolding c by (intro exI [of _ s']) (simp add: demoResult_def)
qed

section \<open>The no-runner watchdog\<close>

lemma checkNoRunner_eq:
  fixes x :: "'st ext"
  assumes "map_of (sRequests s) rid = Some rq" "\<not> rqCancelled rq" "rqFailReason rq = []" "\<not> terminalReq s rq"
  defines "s1 \<equiv> s\<lparr>sW := snd (xNow x (sW s))\<rparr>"
  shows "checkNoRunner x now rid s =
    (if livePlatformLocked s (rqPlatform rq) now then setRequest rid (\<lambda>rq. rq\<lparr>rqNoRunnersSince := 0\<rparr>) s1
     else if rqNoRunnersSince rq = 0 then setRequest rid (\<lambda>rq. rq\<lparr>rqNoRunnersSince := now\<rparr>) s1
     else if now - rqNoRunnersSince rq < sNoRunnerAfter s then s1
     else bumpLocked (dropInterestLocked x rid (rqTarget rq)
            (setRequest rid (\<lambda>rq. rq\<lparr>rqFailReason := ''no live runners for platform '' @ rqPlatform rq @ '' for ''
               @ durationString (now - rqNoRunnersSince rq) @ '' - build failed (attach a runner and resubmit)''\<rparr>) s1)))"
  using assms by (simp add: checkNoRunner_def case_prod_beta Let_def assemble_terminal assemble_snd livePlatformLocked_def)

lemma clock_frame:
  fixes w :: 'st
  assumes "map_of (sRequests s) rid = Some rq" "\<not> terminalReq s rq"
  defines "s1 \<equiv> s\<lparr>sW := w\<rparr>"
  shows "sNodes (setRequest rid (\<lambda>rq. rq\<lparr>rqNoRunnersSince := c\<rparr>) s1) = sNodes s"
    "targets (setRequest rid (\<lambda>rq. rq\<lparr>rqNoRunnersSince := c\<rparr>) s1) = targets s"
    "\<not> terminalNow (setRequest rid (\<lambda>rq. rq\<lparr>rqNoRunnersSince := c\<rparr>) s1) rid"
    "map_option rqNoRunnersSince (map_of (sRequests (setRequest rid (\<lambda>rq. rq\<lparr>rqNoRunnersSince := c\<rparr>) s1)) rid) = Some c"
    "\<not> terminalNow s1 rid" "targets s1 = targets s"
  using assms(1,2) unfolding s1_def
  by (simp_all add: clock_terminal terminalNow_fields [of "s\<lparr>sW := w\<rparr>" s])
    (auto simp: terminalNow_def setRequest_def targets_def map_of_map_entry fun_eq_iff split: option.splits)

lemma noRunner_retires:
  fixes w :: 'st and t :: nref and f :: "request \<Rightarrow> request"
  assumes x: "envOK x" and sys: "sysInv s" and rq: "map_of (sRequests s) rid = Some rq" and t: "targets s rid = Some t"
    and f: "\<And>q. rqFailReason (f q) \<noteq> []"
  defines "s' \<equiv> bumpLocked (dropInterestLocked x rid (Some t) (setRequest rid f (s\<lparr>sW := w\<rparr>)))"
  shows "terminalNow s' rid \<and> targets s' rid = None
    \<and> (\<forall>i r. sNodes s' i = Some r \<longleftrightarrow> sNodes s i = Some r \<and> (\<exists>rid'. rid' \<noteq> rid \<and> rid' \<in> nInterest (sHeap s r)))"
proof -
  let ?s2 = "setRequest rid f (s\<lparr>sW := w\<rparr>)"
  have h: "sHeap ?s2 = sHeap s" "sNodes ?s2 = sNodes s" "sNext ?s2 = sNext s" by (simp_all add: setRequest_def)
  have ok: "sOK (targets s) ?s2" using sys sOK_cong [OF h(3,2,1)] by (simp add: sysInv_def)
  note ex = dropInterest_exact(2) [OF x ok t, unfolded h]
  have m: "map_of (sRequests s') rid = Some (f rq)"
    unfolding s'_def bumpLocked_def using rq by (simp add: dropInterest_requests map_of_setRequest)
  have "terminalNow s' rid" "targets s' rid = None"
    unfolding terminalNow_def targets_def m by (simp_all add: f terminalReq_def requestPhase_def)
  moreover have "sNodes s' = sNodes (dropInterestLocked x rid (Some t) ?s2)" unfolding s'_def by (simp add: bumpLocked_def)
  ultimately show ?thesis using ex by simp
qed

text \<open>C13: The watchdog fails a build exactly when its platform has been without a live runner
  for the whole grace period. For a request that is still running, a live runner resets
  the clock, the first check without one starts it, and before the grace period is over
  nothing happens; in all three cases the node table is untouched and the request stays
  live. Afterwards the request is terminal, and the nodes that stay are exactly those
  another request wants.\<close>

theorem no_runner_watchdog:
  assumes "envOK x" and "sysReach x w (s, p)" and "map_of (sRequests s) rid = Some rq" and "targets s rid = Some t"
    and "\<not> terminalReq s rq"
  shows "let s' = checkNoRunner x now rid s; live_now = livePlatformLocked s (rqPlatform rq) now; since = rqNoRunnersSince rq in
    if live_now \<or> since = 0 \<or> now - since < sNoRunnerAfter s
    then sNodes s' = sNodes s \<and> targets s' = targets s \<and> \<not> terminalNow s' rid
      \<and> map_option rqNoRunnersSince (map_of (sRequests s') rid) = Some (if live_now then 0 else if since = 0 then now else since)
    else terminalNow s' rid \<and> targets s' rid = None
      \<and> (\<forall>i r. sNodes s' i = Some r \<longleftrightarrow> sNodes s i = Some r \<and> (\<exists>rid'. rid' \<noteq> rid \<and> rid' \<in> nInterest (sHeap s r)))"
proof -
  have sys: "sysInv s" using sysReach_ticked [OF assms(2,1)] by (simp add: ticked_def)
  have rq: "\<not> rqCancelled rq" "rqFailReason rq = []" "rqTarget rq = Some t"
    using assms(3,4) by (auto simp: targets_def split: if_splits)
  note eq = checkNoRunner_eq [OF assms(3) rq(1,2) assms(5), of x now, unfolded rq(3)] and clock = clock_frame [OF assms(3,5)]
  show ?thesis
  proof (cases "livePlatformLocked s (rqPlatform rq) now \<or> rqNoRunnersSince rq = 0 \<or> now - rqNoRunnersSince rq < sNoRunnerAfter s")
    case True
    then show ?thesis unfolding eq Let_def
      by (cases "livePlatformLocked s (rqPlatform rq) now"; cases "rqNoRunnersSince rq = 0")
        (simp_all add: clock assms(3) del: map_option_eq_Some)
  next
    case False
    let ?f = "\<lambda>rq. rq\<lparr>rqFailReason := ''no live runners for platform '' @ rqPlatform rq @ '' for ''
        @ durationString (now - rqNoRunnersSince rq) @ '' - build failed (attach a runner and resubmit)''\<rparr>"
    have "rqFailReason (?f q) \<noteq> []" for q by simp
    from noRunner_retires [OF assms(1) sys assms(3,4) this] False show ?thesis unfolding eq Let_def by simp
  qed
qed

theorem no_runner_watchdog_witness:
  "\<not> terminalNow (checkNoRunner demoExt 9 ''q'' demoState) ''q''
   \<and> map_option rqNoRunnersSince (map_of (sRequests (checkNoRunner demoExt 9 ''q'' demoState)) ''q'')
     = Some (if livePlatformLocked demoState ''linux'' 9 then 0 else 9)"
proof -
  have m: "map_of (sRequests demoState) ''q'' = Some demoRequest" by (simp add: demo_state)
  have t: "targets demoState ''q'' = Some 0" by (simp add: demo_targets)
  have "demoState\<lparr>sChans := sChans demoState\<rparr> = demoState" by simp
  with demo_running [of "sChans demoState"] have r: "\<not> terminalReq demoState demoRequest" by simp
  have q: "rqNoRunnersSince demoRequest = 0" "rqPlatform demoRequest = ''linux''" by (simp_all add: demoRequest_def)
  from no_runner_watchdog [OF demo_envOK demo_reach m t r, of 9] show ?thesis
    unfolding Let_def q by (simp del: map_option_eq_Some)
qed

end
