(* ===== verification/SchedCommit.thy ===== *)
theory SchedCommit
  imports SchedResults
begin

text \<open>
  What a commit does to the ref store (\<open>commit\<close> in \<open>src/sched/results.go\<close>, \<open>deriveKP\<close> in
  \<open>src/sched/kp.go\<close>).

  Three documented facts about code outside the package are hypotheses: a write never
  touches another name (\<open>put_local\<close>), a successful write is visible (\<open>ref_store\<close>), and
  \<open>cover.Derive\<close> stores objects and leaves the refs alone (\<open>derive_objects\<close>).
\<close>

definition put_local :: "'st ext \<Rightarrow> bool" where
  "put_local x \<longleftrightarrow> (\<forall>name k w m. m \<noteq> name \<longrightarrow> xGetKey x (snd (xPutRef x name k w)) m = xGetKey x w m)"

definition derive_objects :: "'st ext \<Rightarrow> bool" where
  "derive_objects x \<longleftrightarrow> (\<forall>b p pl e w m. xGetKey x (snd (xDerive x b p pl e w)) m = xGetKey x w m)"

section \<open>Runs of writes\<close>

lemma putRefs_other:
  assumes "put_local x" "m \<notin> fst ` set rs"
  shows "xGetKey x (snd (putRefs x rs w)) m = xGetKey x w m"
  using assms(2)
proof (induction rs arbitrary: w)
  case (Cons r rs)
  obtain name k where r: "r = (name, k)" by fastforce
  obtain e w1 where p: "xPutRef x name k w = (e, w1)" by fastforce
  have "xGetKey x w1 m = xGetKey x w m"
    using assms(1) Cons.prems p r unfolding put_local_def by (metis fst_conv image_insert insertI1 list.simps(15) snd_conv)
  with Cons p r show ?case by (cases e) simp_all
qed simp

lemma putRefs_ok_other:
  assumes "ref_store x" "putRefs x rs w = (None, w')" "m \<notin> fst ` set rs"
  shows "xGetKey x w' m = xGetKey x w m"
  using assms(2,3)
proof (induction rs arbitrary: w)
  case (Cons r rs)
  obtain name k where r: "r = (name, k)" by fastforce
  with Cons.prems obtain w1 where p: "xPutRef x name k w = (None, w1)" "putRefs x rs w1 = (None, w')"
    by (auto split: prod.splits option.splits)
  show ?case using Cons.IH [OF p(2)] ref_store_put(2) [OF assms(1) p(1), of m] Cons.prems(2) r by simp
qed simp

lemma putRefs_ok_written:
  assumes "ref_store x" "putRefs x rs w = (None, w')" "(name, k) \<in> set rs" "\<And>k'. (name, k') \<in> set rs \<Longrightarrow> k' = k"
  shows "xGetKey x w' name = Inr (Some k)"
  using assms(2-4)
proof (induction rs arbitrary: w)
  case (Cons r rs)
  obtain n1 k1 where r: "r = (n1, k1)" by fastforce
  with Cons.prems obtain w1 where p: "xPutRef x n1 k1 w = (None, w1)" "putRefs x rs w1 = (None, w')"
    by (auto split: prod.splits option.splits)
  show ?case
  proof (cases "(name, k) \<in> set rs")
    case True
    have "k' = k" if "(name, k') \<in> set rs" for k' using that by (intro Cons.prems(3)) simp
    with Cons.IH [OF p(2) True] show ?thesis by blast
  next
    case False
    have "k' = k" if "(name, k') \<in> set rs" for k' using that by (intro Cons.prems(3)) simp
    with False have "name \<notin> fst ` set rs" by auto
    moreover have "r = (name, k)" using False Cons.prems(2) by simp
    ultimately show ?thesis using putRefs_ok_other [OF assms(1) p(2), of name] ref_store_put(1) [OF assms(1) p(1)] r by simp
  qed
qed simp

lemma parseKeys_Inr:
  "parseKeys keyParse rs = Inr ks \<Longrightarrow> list_all2 (\<lambda>r (n, k). n = pName r \<and> keyParse (pKey r) = Some k) rs ks"
  by (induction rs arbitrary: ks) (auto split: option.splits sum.splits)

lemma parseKeys_names: "parseKeys keyParse rs = Inr ks \<Longrightarrow> map fst ks = map pName rs"
  by (induction rs arbitrary: ks) (auto split: option.splits sum.splits)

lemma parseKeys_mem:
  assumes "parseKeys keyParse rs = Inr ks" "(n, k) \<in> set ks"
  shows "\<exists>r \<in> set rs. n = pName r \<and> keyParse (pKey r) = Some k"
  using list_all2_nthD [OF parseKeys_Inr [OF assms(1)]] assms(2)
  by (fastforce simp: in_set_conv_nth list_all2_lengthD [OF parseKeys_Inr [OF assms(1)]])

lemma parseKeys_has:
  "parseKeys keyParse rs = Inr ks \<Longrightarrow> r \<in> set rs \<Longrightarrow> \<exists>k. (pName r, k) \<in> set ks \<and> keyParse (pKey r) = Some k"
  by (induction rs arbitrary: ks) (auto split: option.splits sum.splits, blast?)

lemma checkAllComplete_None: "checkAllComplete x ks w = None \<longleftrightarrow> (\<forall>(n, k) \<in> set ks. xCheckComplete x w k = None)"
  by (induction x ks w rule: checkAllComplete.induct) (auto split: option.splits)

section \<open>The KP binding\<close>

lemma deriveKP_other:
  assumes "put_local x" "derive_objects x" "deriveKP x f w = (v, w')" "xGetKey x w' m \<noteq> xGetKey x w m"
  shows "\<exists>kp. m \<in> {''build-pinned:'' @ keyString kp, KPTreeRef kp, PinCoverRef f}"
proof (rule ccontr)
  assume "\<not> ?thesis"
  then have "xGetKey x (snd (putRefs x [(''build-pinned:'' @ keyString kp, pk), (KPTreeRef kp, kp), (PinCoverRef f, kp)] w1)) m
      = xGetKey x w1 m" for kp pk w1
    by (intro putRefs_other [OF assms(1)]) auto
  then have p: "putRefs x [(''build-pinned:'' @ keyString kp, pk), (KPTreeRef kp, kp), (PinCoverRef f, kp)] w1 = (e, w2) \<Longrightarrow>
      xGetKey x w2 m = xGetKey x w1 m" for kp pk w1 w2 e by (metis snd_conv)
  have d: "xDerive x b pi pl e w = (r, w1) \<Longrightarrow> xGetKey x w1 m = xGetKey x w m" for b pi pl e r w1
    using assms(2) unfolding derive_objects_def by (metis snd_conv)
  from assms(3,4) show False
    unfolding deriveKP_def by (auto simp del: putRefs.simps append.simps split: sum.splits option.splits prod.splits dest!: p d)
qed

lemma deriveKP_ok:
  assumes "ref_store x" "derive_objects x" "deriveKP x f w = (Inr kp, w')"
  obtains pk where "xGetKey x w (''build-pinned:'' @ keyString f) = Inr (Some pk)"
    "xGetKey x w' (''build-pinned:'' @ keyString kp) = Inr (Some pk)" "xGetKey x w' (KPTreeRef kp) = Inr (Some kp)"
    "xGetKey x w' (PinCoverRef f) = Inr (Some kp)"
    "\<And>m. m \<notin> {''build-pinned:'' @ keyString kp, KPTreeRef kp, PinCoverRef f} \<Longrightarrow> xGetKey x w' m = xGetKey x w m"
proof -
  from assms(3) obtain pk b pi env pl w1 where pk: "xGetKey x w (''build-pinned:'' @ keyString f) = Inr (Some pk)"
    and d: "xDerive x b pi pl env w = (Inr kp, w1)"
    and p: "putRefs x [(''build-pinned:'' @ keyString kp, pk), (KPTreeRef kp, kp), (PinCoverRef f, kp)] w1 = (None, w')"
    unfolding deriveKP_def by (auto simp del: putRefs.simps split: sum.splits option.splits prod.splits)
  have d': "xGetKey x w1 m = xGetKey x w m" for m
    using assms(2) d unfolding derive_objects_def by (metis snd_conv)
  note wr = putRefs_ok_written [OF assms(1) p]
  show thesis
  proof (rule that [OF pk])
    show "xGetKey x w' (''build-pinned:'' @ keyString kp) = Inr (Some pk)" by (rule wr) (auto simp: KPTreeRef_def PinCoverRef_def)
    show "xGetKey x w' (KPTreeRef kp) = Inr (Some kp)" by (rule wr) (auto simp: KPTreeRef_def PinCoverRef_def)
    show "xGetKey x w' (PinCoverRef f) = Inr (Some kp)" by (rule wr) (auto simp: KPTreeRef_def PinCoverRef_def)
    show "m \<notin> {''build-pinned:'' @ keyString kp, KPTreeRef kp, PinCoverRef f} \<Longrightarrow> xGetKey x w' m = xGetKey x w m" for m
      using putRefs_ok_other [OF assms(1) p, of m] d' by auto
  qed
qed

section \<open>The stages of a commit\<close>

lemma commit_stages:
  assumes "commit x sp w = (err, w')"
  obtains (refused) e where "err = Some e" "isGateError e" "w' = w"
    | (incomplete) name e where "err = Some (IncompleteRef name e)" "w' = w"
    | (put) e ks where "err = Some (PutFailed e)" "putRefs x (ks @ carrierRefs sp ks) w = (Some e, w')"
        "gateAccepts (xKeyParse x) (xValidName x) (csKind sp) (csKey sp) (csPlatform sp) (csRefs sp) (csCaches sp)"
        "parseKeys (xKeyParse x) (csRefs sp) = Inr ks" "checkAllComplete x ks w = None"
    | (derive) v w1 ks where "csKind sp = KindPin" "putRefs x (ks @ carrierRefs sp ks) w = (None, w1)"
        "deriveKP x (csKey sp) w1 = (v, w')" "err = (case v of Inl e \<Rightarrow> Some (DeriveFailed e) | Inr _ \<Rightarrow> None)"
        "gateAccepts (xKeyParse x) (xValidName x) (csKind sp) (csKey sp) (csPlatform sp) (csRefs sp) (csCaches sp)"
        "parseKeys (xKeyParse x) (csRefs sp) = Inr ks" "checkAllComplete x ks w = None"
    | (written) ks where "csKind sp \<noteq> KindPin" "putRefs x (ks @ carrierRefs sp ks) w = (None, w')" "err = None"
        "gateAccepts (xKeyParse x) (xValidName x) (csKind sp) (csKey sp) (csPlatform sp) (csRefs sp) (csCaches sp)"
        "parseKeys (xKeyParse x) (csRefs sp) = Inr ks" "checkAllComplete x ks w = None"
  using assms that unfolding commit_def gateAccepts_def
  by (auto simp: isGateError_def split: option.splits sum.splits prod.splits if_splits)

lemma carrier_names: "m \<in> fst ` set (carrierRefs sp ks) \<Longrightarrow>
    csKind sp = KindBuildFrom \<and> (\<exists>f. (''build-from:'' @ keyString (csKey sp), f) \<in> set ks \<and> m = FTreeRef f)"
  by (auto simp: carrierRefs_def split: if_splits)

text \<open>The names a commit of a spec may change.\<close>

definition commitNames :: "'st ext \<Rightarrow> commitSpec \<Rightarrow> string \<Rightarrow> bool" where
  "commitNames x sp m \<longleftrightarrow>
     m \<in> ownRef (csKind sp) (csKey sp)
     \<or> csKind sp \<in> {KindBuildFrom, KindPluginResolve, KindPin} \<and> (\<exists>r \<in> set (csRefs sp). m = ''build-from-tree:'' @ keyString (pKey r))
     \<or> csKind sp = KindBuildRun \<and> (\<exists>c \<in> set (csCaches sp). m = CacheRefName (pcID c) (csPlatform sp))
     \<or> csKind sp = KindBuildFrom \<and> (\<exists>r \<in> set (csRefs sp). \<exists>f. pName r = ''build-from:'' @ keyString (csKey sp)
           \<and> xKeyParse x (pKey r) = Some f \<and> m = FTreeRef f)
     \<or> csKind sp = KindPin \<and> (\<exists>kp. m \<in> {''build-pinned:'' @ keyString kp, KPTreeRef kp, PinCoverRef (csKey sp)})"

lemma batch_names:
  assumes "gateAccepts (xKeyParse x) (xValidName x) (csKind sp) (csKey sp) (csPlatform sp) (csRefs sp) (csCaches sp)"
    and "parseKeys (xKeyParse x) (csRefs sp) = Inr ks" and "m \<in> fst ` set (ks @ carrierRefs sp ks)"
  shows "commitNames x sp m"
proof (cases "m \<in> fst ` set (carrierRefs sp ks)")
  case True
  from carrier_names [OF this] parseKeys_mem [OF assms(2)] show ?thesis unfolding commitNames_def by metis
next
  case False
  with assms(3) obtain k where "(m, k) \<in> set ks" by auto
  from parseKeys_mem [OF assms(2) this] obtain r where r: "r \<in> set (csRefs sp)" "m = pName r" by blast
  from gate.accepted_names [OF assms(1) r(1)] r show ?thesis unfolding commitNames_def by auto
qed

lemma commit_changes:
  assumes "put_local x" "derive_objects x" "commit x sp w = (err, w')" "xGetKey x w' m \<noteq> xGetKey x w m"
  shows "commitNames x sp m
    \<and> gateAccepts (xKeyParse x) (xValidName x) (csKind sp) (csKey sp) (csPlatform sp) (csRefs sp) (csCaches sp)
    \<and> (\<exists>ks. parseKeys (xKeyParse x) (csRefs sp) = Inr ks \<and> checkAllComplete x ks w = None)"
proof -
  have other: "m \<in> fst ` set rs" if "putRefs x rs w = (e, w1)" "xGetKey x w1 m \<noteq> xGetKey x w m" for rs e w1
    using putRefs_other [OF assms(1), of m rs w] that by auto
  from assms(3) show ?thesis
  proof (cases rule: commit_stages)
    case (put e ks)
    with other [OF put(2) assms(4)] batch_names [OF put(3,4), of m] show ?thesis by blast
  next
    case (written ks)
    with other [OF written(2) assms(4)] batch_names [OF written(4,5), of m] show ?thesis by blast
  next
    case (derive v w1 ks)
    have "commitNames x sp m"
    proof (cases "xGetKey x w1 m = xGetKey x w m")
      case True
      with deriveKP_other [OF assms(1,2) derive(3), of m] assms(4) derive(1) show ?thesis unfolding commitNames_def by auto
    next
      case False
      from batch_names [OF derive(5,6) other [OF derive(2) this]] show ?thesis .
    qed
    with derive show ?thesis by blast
  qed (use assms(4) in simp_all)
qed

lemma batch_published:
  assumes "ref_store x" "distinct (map pName (csRefs sp))" "putRefs x (ks @ carrierRefs sp ks) w = (None, w1)"
    and "gateAccepts (xKeyParse x) (xValidName x) (csKind sp) (csKey sp) (csPlatform sp) (csRefs sp) (csCaches sp)"
    and "parseKeys (xKeyParse x) (csRefs sp) = Inr ks" and r: "r \<in> set (csRefs sp)"
  shows "\<exists>k. xKeyParse x (pKey r) = Some k \<and> xGetKey x w1 (pName r) = Inr (Some k)
      \<and> (csKind sp = KindBuildFrom \<and> pName r = ''build-from:'' @ keyString (csKey sp) \<longrightarrow> xGetKey x w1 (FTreeRef k) = Inr (Some k))"
proof -
  have nc: "pName r \<noteq> FTreeRef f" if "r \<in> set (csRefs sp)" for r f
    using gate.protected_families [OF assms(4) that, of "''f-tree/''"] by (auto simp: FTreeRef_def HasPrefix_lit)
  have uniq: "k' = k" if "(n, k) \<in> set ks" "(n, k') \<in> set ks" for n k k'
    using that assms(2) parseKeys_names [OF assms(5)] by (metis eq_key_imp_eq_value)
  from parseKeys_has [OF assms(5) r] obtain k where k: "(pName r, k) \<in> set ks" "xKeyParse x (pKey r) = Some k" by blast
  have "xGetKey x w1 (pName r) = Inr (Some k)"
    by (intro putRefs_ok_written [OF assms(1,3)]) (use k(1) uniq nc [OF r] in \<open>auto simp: carrierRefs_def split: if_splits\<close>)
  moreover have "xGetKey x w1 (FTreeRef k) = Inr (Some k)"
    if b: "csKind sp = KindBuildFrom" "pName r = ''build-from:'' @ keyString (csKey sp)"
  proof (rule putRefs_ok_written [OF assms(1,3)])
    show "(FTreeRef k, k) \<in> set (ks @ carrierRefs sp ks)" using k(1) b by (force simp: carrierRefs_def)
    fix k' assume "(FTreeRef k, k') \<in> set (ks @ carrierRefs sp ks)"
    moreover have "(FTreeRef k, k') \<notin> set ks" using parseKeys_mem [OF assms(5)] nc by metis
    ultimately show "k' = k" by (auto simp: carrierRefs_def FTreeRef_def keyString_def split: if_splits)
  qed
  ultimately show ?thesis using k(2) by blast
qed

lemma pin_published:
  assumes "ref_store x" "derive_objects x" "csKind sp = KindPin" "deriveKP x (csKey sp) w1 = (Inr kp, w')"
    and g: "gateAccepts (xKeyParse x) (xValidName x) (csKind sp) (csKey sp) (csPlatform sp) (csRefs sp) (csCaches sp)"
  shows "\<exists>pk. xGetKey x w' (PinCoverRef (csKey sp)) = Inr (Some kp) \<and> xGetKey x w' (KPTreeRef kp) = Inr (Some kp)
      \<and> xGetKey x w' (''build-pinned:'' @ keyString kp) = Inr (Some pk)
      \<and> xGetKey x w' (''build-pinned:'' @ keyString (csKey sp)) = Inr (Some pk)"
    and "r \<in> set (csRefs sp) \<Longrightarrow> xGetKey x w' (pName r) = xGetKey x w1 (pName r)"
proof -
  from deriveKP_ok [OF assms(1,2,4)] obtain pk where pk:
    "xGetKey x w1 (''build-pinned:'' @ keyString (csKey sp)) = Inr (Some pk)"
    "xGetKey x w' (''build-pinned:'' @ keyString kp) = Inr (Some pk)" "xGetKey x w' (KPTreeRef kp) = Inr (Some kp)"
    "xGetKey x w' (PinCoverRef (csKey sp)) = Inr (Some kp)"
    "\<And>m. m \<notin> {''build-pinned:'' @ keyString kp, KPTreeRef kp, PinCoverRef (csKey sp)} \<Longrightarrow> xGetKey x w' m = xGetKey x w1 m"
    by blast
  have bp: "xGetKey x w' (''build-pinned:'' @ keyString (csKey sp)) = Inr (Some pk)"
    using pk(1,2) pk(5) [of "''build-pinned:'' @ keyString (csKey sp)"]
    by (cases "kp = csKey sp") (auto simp: KPTreeRef_def PinCoverRef_def keyString_def)
  with pk(2-4) show "\<exists>pk. xGetKey x w' (PinCoverRef (csKey sp)) = Inr (Some kp) \<and> xGetKey x w' (KPTreeRef kp) = Inr (Some kp)
      \<and> xGetKey x w' (''build-pinned:'' @ keyString kp) = Inr (Some pk)
      \<and> xGetKey x w' (''build-pinned:'' @ keyString (csKey sp)) = Inr (Some pk)" by blast
  show "xGetKey x w' (pName r) = xGetKey x w1 (pName r)" if r: "r \<in> set (csRefs sp)"
  proof (cases "pName r \<in> ownRef (csKind sp) (csKey sp)")
    case True
    then show ?thesis using bp pk(1) assms(3) by (simp add: ownRef_def)
  next
    case False
    with gate.accepted_names [OF g r] assms(3) have "pName r = ''build-from-tree:'' @ keyString (pKey r)" by auto
    then show ?thesis by (intro pk(5)) (simp add: KPTreeRef_def PinCoverRef_def)
  qed
qed

section \<open>Properties\<close>

text \<open>C7: A commit writes nothing it may not write. Whatever its outcome, a ref whose value
  changed is one the node owns, a source tree named after its own key, a declared cache
  for the placement platform, or a server-side carrier derived from the batch; the whole
  batch had passed the gate and every proposed key was complete in the store before the
  first write. So no result touches another node's output or a protected family.\<close>

theorem commit_changes_only_permitted:
  assumes "put_local x" and "derive_objects x" and "commit x sp w = (err, w')" and "xGetKey x w' m \<noteq> xGetKey x w m"
  shows "commitNames x sp m \<and> (\<forall>e. err = Some e \<longrightarrow> \<not> isGateError e)
    \<and> (\<forall>r \<in> set (csRefs sp). \<exists>k. xKeyParse x (pKey r) = Some k \<and> xCheckComplete x w k = None)
    \<and> (\<forall>k. m = ''build-output:'' @ keyString k \<longrightarrow> csKind sp = KindBuildRun \<and> csKey sp = k)
    \<and> (\<forall>fam \<in> {''import:'', ''build:'', ''fetcher:'', ''shell:'', ''runner-push/'', ''client-push/''}. \<not> HasPrefix m fam)"
proof -
  note c = commit_changes [OF assms]
  then have names: "commitNames x sp m" by blast
  from c obtain ks where ks: "parseKeys (xKeyParse x) (csRefs sp) = Inr ks" "checkAllComplete x ks w = None" by blast
  have "\<exists>k. xKeyParse x (pKey r) = Some k \<and> xCheckComplete x w k = None" if "r \<in> set (csRefs sp)" for r
    using parseKeys_has [OF ks(1) that] ks(2) unfolding checkAllComplete_None by blast
  moreover have "\<not> isGateError e" if "err = Some e" for e
    using assms(3) that assms(4)
    by (cases rule: commit_stages) (auto simp: isGateError_def split: sum.splits)
  moreover have "csKind sp = KindBuildRun \<and> csKey sp = k" if "m = ''build-output:'' @ keyString k" for k
    using names that
    by (auto simp: commitNames_def ownRef_def CacheRefName_def FTreeRef_def KPTreeRef_def PinCoverRef_def keyString_def split: kind.splits)
  moreover have "\<not> HasPrefix m fam" if "fam \<in> {''import:'', ''build:'', ''fetcher:'', ''shell:'', ''runner-push/'', ''client-push/''}" for fam
    using names that
    by (auto simp: commitNames_def ownRef_def CacheRefName_def FTreeRef_def KPTreeRef_def PinCoverRef_def HasPrefix_lit split: kind.splits)
  ultimately show ?thesis using names by blast
qed

text \<open>The result of an import with key \<open>aa\<close>, committed to an empty store.\<close>

definition demoSpec :: commitSpec where
  "demoSpec = \<lparr>csKind = KindImport, csKey = ''aa'', csPlatform = ''linux'', csCaches = [],
     csRefs = [\<lparr>pName = ''import-output:6161'', pKey = ''ff'', pLabel = []\<rparr>]\<rparr>"

lemma demo_store: "put_local memExt" "derive_objects memExt"
  by (simp_all add: put_local_def derive_objects_def memExt_def)

lemma demo_commit: "commit memExt demoSpec (\<lambda>_. None) = (None, [''import-output:6161'' \<mapsto> ''ff''])"
  by (simp add: commit_def demoSpec_def gateAllowed_def checkRefName_def HasPrefix_lit CutPrefix_lit keyString_def hexDigit_def
      memExt_def carrierRefs_def)

theorem commit_changes_only_permitted_witness:
  "\<exists>w'. commit memExt demoSpec (\<lambda>_. None) = (None, w') \<and> w' ''import-output:6161'' = Some ''ff''
     \<and> commitNames memExt demoSpec ''import-output:6161''"
proof -
  have "xGetKey memExt [''import-output:6161'' \<mapsto> ''ff''] ''import-output:6161'' \<noteq> xGetKey memExt (\<lambda>_. None) ''import-output:6161''"
    by (simp add: memExt_def)
  from commit_changes_only_permitted [OF demo_store demo_commit this] show ?thesis using demo_commit by auto
qed

text \<open>C8: A successful commit publishes the whole batch. If the proposed names are distinct,
  every proposed ref afterwards points to its parsed key; a buildfrom has its \<open>f-tree\<close>
  carrier; and a pin has its binding: a cover ref to some KP, the KP's own tree ref, and
  \<open>build-pinned:KP\<close> with the value of \<open>build-pinned:F\<close>.\<close>

theorem commit_publishes_batch:
  assumes "ref_store x" and "derive_objects x" and "distinct (map pName (csRefs sp))" and "commit x sp w = (None, w')"
  shows "(\<forall>r \<in> set (csRefs sp). \<exists>k. xKeyParse x (pKey r) = Some k \<and> xGetKey x w' (pName r) = Inr (Some k)
        \<and> (csKind sp = KindBuildFrom \<and> pName r = ''build-from:'' @ keyString (csKey sp) \<longrightarrow> xGetKey x w' (FTreeRef k) = Inr (Some k)))
    \<and> (csKind sp = KindPin \<longrightarrow> (\<exists>kp pk. xGetKey x w' (PinCoverRef (csKey sp)) = Inr (Some kp) \<and> xGetKey x w' (KPTreeRef kp) = Inr (Some kp)
        \<and> xGetKey x w' (''build-pinned:'' @ keyString kp) = Inr (Some pk)
        \<and> xGetKey x w' (''build-pinned:'' @ keyString (csKey sp)) = Inr (Some pk)))"
proof -
  from assms(4) obtain ks w1 where p: "putRefs x (ks @ carrierRefs sp ks) w = (None, w1)"
    and g: "gateAccepts (xKeyParse x) (xValidName x) (csKind sp) (csKey sp) (csPlatform sp) (csRefs sp) (csCaches sp)"
    and ks: "parseKeys (xKeyParse x) (csRefs sp) = Inr ks"
    and d: "if csKind sp = KindPin then \<exists>kp. deriveKP x (csKey sp) w1 = (Inr kp, w') else w' = w1"
    by (cases rule: commit_stages) (auto split: sum.splits)
  show ?thesis
  proof (cases "csKind sp = KindPin")
    case False
    with d batch_published [OF assms(1,3) p g ks] show ?thesis by simp
  next
    case True
    with d obtain kp where kp: "deriveKP x (csKey sp) w1 = (Inr kp, w')" by auto
    note pin = pin_published [OF assms(1,2) True kp g]
    have "\<exists>k. xKeyParse x (pKey r) = Some k \<and> xGetKey x w' (pName r) = Inr (Some k)" if "r \<in> set (csRefs sp)" for r
      using batch_published [OF assms(1,3) p g ks that] pin(2) [OF that] by auto
    with True pin(1) show ?thesis by simp
  qed
qed

theorem commit_publishes_batch_witness:
  "\<exists>w'. commit memExt demoSpec (\<lambda>_. None) = (None, w') \<and> w' (pName (hd (csRefs demoSpec))) = Some ''ff''"
proof -
  have "distinct (map pName (csRefs demoSpec))" by (simp add: demoSpec_def)
  from commit_publishes_batch [OF memExt_ref_store demo_store(2) this demo_commit] demo_commit show ?thesis
    by (auto simp: demoSpec_def memExt_def)
qed

end
