(* ===== verification/RefTrack.thy ===== *)
theory RefTrack
  imports Wire "HOL-Library.AList" "HOL-Library.Product_Lexorder"
begin

text \<open>
  The access tracker of the garbage collector (\<open>src/reftrack/reftrack.go\<close>): when each
  reference was last used, which references are kept forever, and which have expired.

  The Go map is an association list with distinct keys; times are nanoseconds.  The CBOR
  codec and the file system are parameters of \<open>Load\<close> and \<open>Flush\<close>.  The clock that an
  operation reads is its argument \<open>now\<close>.
\<close>

record Entry =
  eFirstSeen :: int
  eLastAccess :: int
  ePinned :: bool

type_synonym tracker = "(string \<times> Entry) list"

definition protectedPrefixes :: "string list" where
  "protectedPrefixes = [''shell:'', ''fetcher:'', ''seed-src:'']"

abbreviation outputPrefix :: string where "outputPrefix \<equiv> ''build-output:''"
abbreviation depsPrefix :: string where "depsPrefix \<equiv> ''build-output-deps:''"

definition Protected :: "string \<Rightarrow> bool" where
  "Protected name \<longleftrightarrow> list_ex (HasPrefix name) protectedPrefixes"

definition newTracker :: tracker where
  "newTracker = []"

definition touchLocked :: "string \<Rightarrow> int \<Rightarrow> tracker \<Rightarrow> tracker" where
  "touchLocked name now t =
     (let e = (case map_of t name of None \<Rightarrow> \<lparr>eFirstSeen = now, eLastAccess = 0, ePinned = False\<rparr> | Some e \<Rightarrow> e)
      in AList.update name (e\<lparr>eLastAccess := now\<rparr>) t)"

definition familySibling :: "string \<Rightarrow> string option" where
  "familySibling name =
     (case CutPrefix name depsPrefix of
        Some s \<Rightarrow> Some (outputPrefix @ s)
      | None \<Rightarrow> (case CutPrefix name outputPrefix of Some s \<Rightarrow> Some (depsPrefix @ s) | None \<Rightarrow> None))"

definition Touch :: "int \<Rightarrow> string \<Rightarrow> tracker \<Rightarrow> tracker" where
  "Touch now name t =
     (let t1 = touchLocked name now t in
      case familySibling name of
        None \<Rightarrow> t1
      | Some sib \<Rightarrow> if map_of t1 sib \<noteq> None then touchLocked sib now t1 else t1)"

text \<open>\<open>TouchAll\<close> reads the clock once per name.\<close>

definition TouchAll :: "(int \<times> string) list \<Rightarrow> tracker \<Rightarrow> tracker" where
  "TouchAll names t = fold (\<lambda>(now, n). Touch now n) names t"

definition setPinned :: "bool \<Rightarrow> string \<Rightarrow> tracker \<Rightarrow> tracker" where
  "setPinned b name t = AList.map_entry name (\<lambda>e. e\<lparr>ePinned := b\<rparr>) t"

definition Pin :: "int \<Rightarrow> string \<Rightarrow> tracker \<Rightarrow> tracker" where
  "Pin now name t =
     (let t1 = setPinned True name (touchLocked name now t) in
      case familySibling name of
        None \<Rightarrow> t1
      | Some sib \<Rightarrow> if map_of t1 sib \<noteq> None then setPinned True sib (touchLocked sib now t1) else t1)"

definition Unpin :: "string \<Rightarrow> tracker \<Rightarrow> tracker" where
  "Unpin name t =
     (let t1 = setPinned False name t in
      case familySibling name of None \<Rightarrow> t1 | Some sib \<Rightarrow> setPinned False sib t1)"

definition GetEntry :: "tracker \<Rightarrow> string \<Rightarrow> Entry option" where
  "GetEntry t name = map_of t name"

definition Forget :: "string \<Rightarrow> tracker \<Rightarrow> tracker" where
  "Forget name t = AList.delete name t"

definition trackerCounts :: "tracker \<Rightarrow> nat \<times> nat" where
  "trackerCounts t = (length t, length (filter (\<lambda>(n, e). ePinned e) t))"

text \<open>\<open>Reconcile\<close> seeds unknown names, then drops the entries of vanished refs.\<close>

definition seed :: "int \<Rightarrow> string list \<Rightarrow> tracker \<Rightarrow> tracker" where
  "seed now existing t = fold (\<lambda>n t. if map_of t n = None then AList.update n \<lparr>eFirstSeen = now, eLastAccess = now, ePinned = False\<rparr> t else t)
     existing t"

definition Reconcile :: "string list \<Rightarrow> int \<Rightarrow> tracker \<Rightarrow> tracker" where
  "Reconcile existing now t = filter (\<lambda>(n, e). n \<in> set existing) (seed now existing t)"

definition Expired :: "int \<Rightarrow> int \<Rightarrow> tracker \<Rightarrow> string list" where
  "Expired retention now t =
     (let cutoff = now - retention in
      sort_key (\<lambda>n. (HasPrefix n depsPrefix, n))
        (map fst (filter (\<lambda>(n, e). \<not> (ePinned e \<or> Protected n) \<and> eLastAccess e < cutoff) t)))"

section \<open>Persistence\<close>

record snapEntry =
  seFirst :: int
  seLast :: int
  sePinned :: bool

definition toSnap :: "Entry \<Rightarrow> snapEntry" where
  "toSnap e = \<lparr>seFirst = i64 (eFirstSeen e), seLast = i64 (eLastAccess e), sePinned = ePinned e\<rparr>"

definition fromSnap :: "snapEntry \<Rightarrow> Entry" where
  "fromSnap s = \<lparr>eFirstSeen = seFirst s, eLastAccess = seLast s, ePinned = sePinned s\<rparr>"

datatype readFile = NotExist | ReadErr string | Contents bytes

definition Load :: "(bytes \<Rightarrow> string + (string \<times> snapEntry) list) \<Rightarrow> readFile \<Rightarrow> tracker \<Rightarrow> string option \<times> tracker" where
  "Load unmarshal f t =
     (case f of
        NotExist \<Rightarrow> (None, t)
      | ReadErr err \<Rightarrow> (Some err, t)
      | Contents b \<Rightarrow>
          (case unmarshal b of
             Inl err \<Rightarrow> (Some (''reftrack: decode: '' @ err), t)
           | Inr snap \<Rightarrow> (None, map (\<lambda>(n, s). (n, fromSnap s)) snap)))"

definition writeFileAtomic ::
  "(bytes \<Rightarrow> 'fs \<Rightarrow> string option \<times> 'fs) \<Rightarrow> ('fs \<Rightarrow> string option \<times> 'fs) \<Rightarrow> bytes \<Rightarrow> 'fs \<Rightarrow> string option \<times> 'fs" where
  "writeFileAtomic writeTmp rename b fs =
     (case writeTmp b fs of (Some err, fs1) \<Rightarrow> (Some err, fs1) | (None, fs1) \<Rightarrow> rename fs1)"

definition Flush ::
  "((string \<times> snapEntry) list \<Rightarrow> string + bytes) \<Rightarrow> (bytes \<Rightarrow> 'fs \<Rightarrow> string option \<times> 'fs) \<Rightarrow> ('fs \<Rightarrow> string option \<times> 'fs)
     \<Rightarrow> tracker \<Rightarrow> 'fs \<Rightarrow> string option \<times> 'fs" where
  "Flush marshal writeTmp rename t fs =
     (case marshal (map (\<lambda>(n, e). (n, toSnap e)) t) of
        Inl err \<Rightarrow> (Some (''reftrack: encode snapshot: '' @ err), fs)
      | Inr b \<Rightarrow> writeFileAtomic writeTmp rename b fs)"

section \<open>Lookups\<close>

lemma map_of_touch [simp]:
  "map_of (touchLocked name now t) n =
     (if n = name then Some (case map_of t n of None \<Rightarrow> \<lparr>eFirstSeen = now, eLastAccess = now, ePinned = False\<rparr> | Some e \<Rightarrow> e\<lparr>eLastAccess := now\<rparr>)
      else map_of t n)"
  by (simp add: touchLocked_def update_conv' split: option.split)

lemma map_of_setPinned [simp]:
  "map_of (setPinned b name t) n = (if n = name then map_option (\<lambda>e. e\<lparr>ePinned := b\<rparr>) (map_of t n) else map_of t n)"
  by (simp add: setPinned_def map_of_map_entry split: option.split)

lemma sibling_simps [simp]:
  "familySibling (depsPrefix @ x) = Some (outputPrefix @ x)" "familySibling (outputPrefix @ x) = Some (depsPrefix @ x)"
  by (simp_all add: familySibling_def CutPrefix_def HasPrefix_def)

lemma sibling_cases:
  obtains (deps) x where "name = depsPrefix @ x" | (outp) x where "name = outputPrefix @ x" | (other) "familySibling name = None"
proof (cases "CutPrefix name depsPrefix")
  case (Some x)
  then show ?thesis by (intro deps [of x]) (simp add: CutPrefix_Some_iff)
next
  case None
  note n = None
  show ?thesis
  proof (cases "CutPrefix name outputPrefix")
    case (Some x)
    then show ?thesis by (intro outp [of x]) (simp add: CutPrefix_Some_iff)
  next
    case None
    with n show ?thesis by (intro other) (simp add: familySibling_def)
  qed
qed

lemma keys_touch: "fst ` set (touchLocked name now t) = insert name (fst ` set t)"
  by (simp add: touchLocked_def dom_update Let_def)

lemma distinct_ops:
  assumes "distinct (map fst t)"
  shows "distinct (map fst (touchLocked name now t))" "distinct (map fst (setPinned b name t))" "distinct (map fst (Forget name t))"
  using assms by (simp_all add: touchLocked_def setPinned_def Forget_def Let_def distinct_update distinct_map_entry distinct_delete)

lemma distinct_tracker:
  assumes "distinct (map fst t)"
  shows "distinct (map fst (Touch now name t))" "distinct (map fst (Pin now name t))" "distinct (map fst (Unpin name t))"
  using assms by (simp_all add: Touch_def Pin_def Unpin_def Let_def distinct_ops split: option.split)

lemma seed_simps [simp]:
  "seed now [] t = t"
  "seed now (n # ns) t = seed now ns (if map_of t n = None then AList.update n \<lparr>eFirstSeen = now, eLastAccess = now, ePinned = False\<rparr> t else t)"
  by (simp_all add: seed_def)

lemma map_of_seed:
  "map_of (seed now existing t) n =
     (case map_of t n of Some e \<Rightarrow> Some e
      | None \<Rightarrow> if n \<in> set existing then Some \<lparr>eFirstSeen = now, eLastAccess = now, ePinned = False\<rparr> else None)"
  by (induction existing arbitrary: t) (auto simp: update_conv' split: option.splits)

lemma distinct_seed: "distinct (map fst t) \<Longrightarrow> distinct (map fst (seed now existing t))"
  by (induction existing arbitrary: t) (auto simp: distinct_update)

lemma map_of_filter_keys: "map_of (filter (\<lambda>(n, e). P n) t) n = (if P n then map_of t n else None)"
  by (induction t) auto

text \<open>After a reconciliation exactly the existing names are tracked; known ones keep their entry.\<close>

lemma map_of_Reconcile:
  "map_of (Reconcile existing now t) n =
     (if n \<in> set existing
      then Some (case map_of t n of Some e \<Rightarrow> e | None \<Rightarrow> \<lparr>eFirstSeen = now, eLastAccess = now, ePinned = False\<rparr>) else None)"
  by (simp add: Reconcile_def map_of_filter_keys map_of_seed split: option.split)

lemma distinct_Reconcile: "distinct (map fst t) \<Longrightarrow> distinct (map fst (Reconcile existing now t))"
  unfolding Reconcile_def by (rule distinct_map_filter [OF distinct_seed])

section \<open>Expiry\<close>

lemma set_Expired:
  assumes "distinct (map fst t)"
  shows "n \<in> set (Expired retention now t) \<longleftrightarrow>
    (\<exists>e. map_of t n = Some e \<and> \<not> ePinned e \<and> \<not> Protected n \<and> eLastAccess e < now - retention)"
proof -
  have "n \<in> set (Expired retention now t) \<longleftrightarrow> (\<exists>e. (n, e) \<in> set t \<and> \<not> ePinned e \<and> \<not> Protected n \<and> eLastAccess e < now - retention)"
    by (auto simp: Expired_def image_iff)
  then show ?thesis using assms by simp
qed

lemma distinct_Expired: "distinct (map fst t) \<Longrightarrow> distinct (Expired retention now t)"
  by (simp add: Expired_def Let_def distinct_map_filter)

lemma Expired_sorted: "sorted (map (\<lambda>n. (HasPrefix n depsPrefix, n)) (Expired retention now t))"
  by (simp add: Expired_def Let_def)

text \<open>An output comes before every deps name.\<close>

lemma Expired_output_first:
  assumes "Expired retention now t = xs @ (depsPrefix @ x) # ys" "outputPrefix @ x \<in> set (Expired retention now t)"
  shows "outputPrefix @ x \<in> set xs"
proof (rule ccontr)
  have o: "\<not> HasPrefix (outputPrefix @ x) depsPrefix" and d: "HasPrefix (depsPrefix @ x) depsPrefix" by (simp_all add: HasPrefix_def)
  assume "outputPrefix @ x \<notin> set xs"
  with assms have "outputPrefix @ x \<in> set ys" by auto
  moreover have "sorted (map (\<lambda>n. (HasPrefix n depsPrefix, n)) ((depsPrefix @ x) # ys))"
    using Expired_sorted [of retention now t] unfolding assms(1) by (simp add: sorted_append)
  ultimately have "(True, depsPrefix @ x) \<le> (False, outputPrefix @ x)" using o d by auto
  then show False by (simp add: less_eq_prod_def)
qed

section \<open>The contract of a tracker\<close>

text \<open>What the sweep and the hooks need of a tracker: a use resets the clock, a pin holds, a
  reconciliation keeps what it knows and gives new names a fresh clock, and the expired
  names are those whose clock ran out.\<close>

locale access_tracker =
  fixes inv :: "'t \<Rightarrow> bool"
    and look :: "'t \<Rightarrow> string \<Rightarrow> Entry option"
    and touch :: "int \<Rightarrow> string \<Rightarrow> 't \<Rightarrow> 't"
    and pin :: "int \<Rightarrow> string \<Rightarrow> 't \<Rightarrow> 't"
    and reconcile :: "string list \<Rightarrow> int \<Rightarrow> 't \<Rightarrow> 't"
    and expired :: "int \<Rightarrow> int \<Rightarrow> 't \<Rightarrow> string list"
    and exempt :: "string \<Rightarrow> bool"
  assumes inv_touch: "inv t \<Longrightarrow> inv (touch now n t)"
    and inv_pin: "inv t \<Longrightarrow> inv (pin now n t)"
    and inv_reconcile: "inv t \<Longrightarrow> inv (reconcile ns now t)"
    and look_touch: "\<exists>e. look (touch now n t) n = Some e \<and> eLastAccess e = now"
    and look_pin: "\<exists>e. look (pin now n t) n = Some e \<and> ePinned e"
    and look_known: "n \<in> set ns \<Longrightarrow> look t n = Some e \<Longrightarrow> look (reconcile ns now t) n = Some e"
    and look_new: "n \<in> set ns \<Longrightarrow> look t n = None \<Longrightarrow> \<exists>e. look (reconcile ns now t) n = Some e \<and> eLastAccess e = now"
    and look_gone: "n \<notin> set ns \<Longrightarrow> look (reconcile ns now t) n = None"
    and expired_iff: "inv t \<Longrightarrow> n \<in> set (expired r now t) \<longleftrightarrow>
      (\<exists>e. look t n = Some e \<and> \<not> ePinned e \<and> \<not> exempt n \<and> eLastAccess e < now - r)"
begin

text \<open>What expires in a sweep was known before it, and cold.\<close>

lemma expired_known:
  assumes "inv t" and "0 \<le> r"
  shows "n \<in> set (expired r now (reconcile ns now t)) \<longleftrightarrow>
    n \<in> set ns \<and> (\<exists>e. look t n = Some e \<and> \<not> ePinned e \<and> \<not> exempt n \<and> eLastAccess e < now - r)"
proof (cases "n \<in> set ns")
  case False
  then show ?thesis using expired_iff [OF inv_reconcile [OF assms(1)]] look_gone by simp
next
  case True
  show ?thesis
  proof (cases "look t n")
    case None
    from look_new [OF True None, of now] assms(2) show ?thesis
      unfolding expired_iff [OF inv_reconcile [OF assms(1)]] using None by auto
  next
    case (Some e)
    then show ?thesis unfolding expired_iff [OF inv_reconcile [OF assms(1)]] using look_known [OF True Some, of now] True by auto
  qed
qed

lemma touched_kept:
  assumes "inv t" and "0 \<le> r" and "now - r \<le> at"
  shows "n \<notin> set (expired r now (reconcile ns now (touch at n t)))"
  using look_touch [of at n t] assms expired_known [OF inv_touch [OF assms(1)] assms(2)] by force

lemma pinned_kept:
  assumes "inv t" and "0 \<le> r"
  shows "n \<notin> set (expired r now (reconcile ns now (pin at n t)))"
  using look_pin [of at n t] expired_known [OF inv_pin [OF assms(1)] assms(2)] by force

end

lemma GetEntry_Touch: "\<exists>e. GetEntry (Touch now n t) n = Some e \<and> eLastAccess e = now"
  by (auto simp: GetEntry_def Touch_def Let_def split: option.split)

lemma GetEntry_Pin: "\<exists>e. GetEntry (Pin now n t) n = Some e \<and> ePinned e"
  by (auto simp: GetEntry_def Pin_def Let_def split: option.split)

interpretation trk: access_tracker "\<lambda>t. distinct (map fst t)" GetEntry Touch Pin Reconcile Expired Protected
proof
  show "\<And>t n r now. distinct (map fst t) \<Longrightarrow> n \<in> set (Expired r now t) \<longleftrightarrow>
      (\<exists>e. GetEntry t n = Some e \<and> \<not> ePinned e \<and> \<not> Protected n \<and> eLastAccess e < now - r)"
    unfolding GetEntry_def by (rule set_Expired)
qed (simp_all add: distinct_tracker distinct_Reconcile GetEntry_Touch GetEntry_Pin, simp_all add: GetEntry_def map_of_Reconcile)

section \<open>Families\<close>

text \<open>The clocks and pins of a family agree: the deps are pinned exactly when the output is,
  and never look colder than it.\<close>

definition famSync :: "tracker \<Rightarrow> bool" where
  "famSync t \<longleftrightarrow> (\<forall>x d e. map_of t (depsPrefix @ x) = Some d \<longrightarrow> map_of t (outputPrefix @ x) = Some e \<longrightarrow>
     ePinned d = ePinned e \<and> eLastAccess e \<le> eLastAccess d)"

lemma famSync_D:
  assumes "famSync t" "map_of t (depsPrefix @ x) = Some d" "map_of t (outputPrefix @ x) = Some e"
  shows "ePinned d = ePinned e" "eLastAccess e \<le> eLastAccess d"
  using assms unfolding famSync_def by blast+

lemma famSync_other:
  assumes "famSync t" "familySibling name = None" "\<And>n. n \<noteq> name \<Longrightarrow> map_of t' n = map_of t n"
  shows "famSync t'"
proof -
  have "depsPrefix @ x \<noteq> name" "outputPrefix @ x \<noteq> name" for x
    using assms(2) sibling_simps [of x] by (metis option.distinct(1))+
  then have "map_of t' (depsPrefix @ x) = map_of t (depsPrefix @ x)" "map_of t' (outputPrefix @ x) = map_of t (outputPrefix @ x)" for x
    by (intro assms(3); blast)+
  with assms(1) show ?thesis unfolding famSync_def by metis
qed

text \<open>Every operation of the tracker keeps families in step.  A touch that seeds a name is the
  exception the hypothesis excludes: it must not meet a pinned sibling.\<close>

lemma famSync_Touch:
  assumes "famSync t" and "map_of t name \<noteq> None \<or> (\<forall>sib e. familySibling name = Some sib \<longrightarrow> map_of t sib = Some e \<longrightarrow> \<not> ePinned e)"
  shows "famSync (Touch now name t)"
proof (cases name rule: sibling_cases)
  case (deps x)
  show ?thesis
    using assms unfolding famSync_def deps Touch_def Let_def sibling_simps
    by (auto split: option.splits)
next
  case (outp x)
  show ?thesis
    using assms unfolding famSync_def outp Touch_def Let_def sibling_simps
    by (auto split: option.splits)
next
  case other
  with assms(1) show ?thesis by (rule famSync_other) (simp add: Touch_def other)
qed

lemma famSync_Pin:
  assumes "famSync t"
  shows "famSync (Pin now name t)"
proof (cases name rule: sibling_cases)
  case (deps x)
  show ?thesis
    using assms unfolding famSync_def deps Pin_def Let_def sibling_simps
    by (auto split: option.splits)
next
  case (outp x)
  show ?thesis
    using assms unfolding famSync_def outp Pin_def Let_def sibling_simps
    by (auto split: option.splits)
next
  case other
  with assms(1) show ?thesis by (rule famSync_other) (simp add: Pin_def other)
qed

lemma famSync_Unpin:
  assumes "famSync t"
  shows "famSync (Unpin name t)"
proof (cases name rule: sibling_cases)
  case (deps x)
  show ?thesis
    using assms unfolding famSync_def deps Unpin_def Let_def sibling_simps
    by (auto split: option.splits if_splits)
next
  case (outp x)
  show ?thesis
    using assms unfolding famSync_def outp Unpin_def Let_def sibling_simps
    by (auto split: option.splits if_splits)
next
  case other
  with assms(1) show ?thesis by (rule famSync_other) (simp add: Unpin_def other)
qed

text \<open>A reconciliation keeps families in step when it meets no half-tracked family.\<close>

lemma famSync_Reconcile:
  assumes "famSync t" and "\<And>x. map_of t (depsPrefix @ x) = None \<longleftrightarrow> map_of t (outputPrefix @ x) = None"
  shows "famSync (Reconcile existing now t)"
  unfolding famSync_def
proof (intro allI impI)
  fix x d e
  assume "map_of (Reconcile existing now t) (depsPrefix @ x) = Some d" "map_of (Reconcile existing now t) (outputPrefix @ x) = Some e"
  then show "ePinned d = ePinned e \<and> eLastAccess e \<le> eLastAccess d"
    using assms(2) [of x] famSync_D [OF assms(1), of x]
    by (auto simp: map_of_Reconcile split: if_splits option.splits)
qed

section \<open>Persistence round trip\<close>

lemma Flush_Load:
  assumes "\<And>m. unmarshal (b m) = Inr m" "marshal = (\<lambda>m. Inr (b m))"
    and "\<And>n e. (n, e) \<in> set t \<Longrightarrow> inI64 (eFirstSeen e) \<and> inI64 (eLastAccess e)"
    and "\<And>c fs. writeTmp c fs = (None, fs)" "\<And>fs. rename fs = (None, fs)"
  shows "Flush marshal writeTmp rename t fs = (None, fs)"
    and "Load unmarshal (Contents (b (map (\<lambda>(n, e). (n, toSnap e)) t))) t' = (None, t)"
proof -
  have "fromSnap (toSnap e) = e" if "(n, e) \<in> set t" for n e
    using assms(3) [OF that] by (simp add: toSnap_def fromSnap_def i64_id)
  then have "map (\<lambda>(n, s). (n, fromSnap s)) (map (\<lambda>(n, e). (n, toSnap e)) t) = t" by (auto intro!: map_idI)
  then show "Load unmarshal (Contents (b (map (\<lambda>(n, e). (n, toSnap e)) t))) t' = (None, t)" by (simp add: Load_def assms(1) del: map_map)
  show "Flush marshal writeTmp rename t fs = (None, fs)" by (simp add: Flush_def writeFileAtomic_def assms(2,4,5))
qed

end
