(* ===== verification/GCSweep.thy ===== *)
theory GCSweep
  imports RefTrack Complex_Main
begin

text \<open>
  The sweep of the garbage collector (\<open>src/gcsweep/gcsweep.go\<close>, \<open>src/gcsweep/trees.go\<close>):
  reconcile, expire, score, cycle, collect staged trees, report.

  The amber store, the mark-sweep collector and the file system are one world \<open>'w\<close>
  behind the operations of \<open>gcExt\<close>.  Other goroutines touch and pin while a sweep runs:
  \<open>gOthers i\<close> is what they do to tracker and world before the \<open>i\<close>th access of the expiry
  loop, and is arbitrary.  The log line of a deletion carries the entry read just before.  The
  garbage fraction is the exact quotient of the two byte counts.
\<close>

definition depsOutputName :: "string \<Rightarrow> string option" where
  "depsOutputName name = map_option (\<lambda>s. outputPrefix @ s) (CutPrefix name depsPrefix)"

record cycleStats =
  cyStartNs :: int
  cyReaped :: nat
  cyFreed :: int
  cyDuration :: int

record dirEntry =
  deName :: string
  deIsDir :: bool
  deMod :: "int option"

record gcStats =
  gsRetentionNs :: int
  gsLastSweepNs :: int
  gsExpiredLast :: nat
  gsExpiredTotal :: nat
  gsPinned :: nat
  gsRefCount :: nat
  gsDiskBytes :: int
  gsLiveBytes :: int
  gsGarbageBytes :: int
  gsLastCycleNs :: int
  gsLastCycleReaped :: nat
  gsLastCycleFreed :: int
  gsLastCycleWallNs :: int
  gsLastError :: string
  gsTreesRemoved :: nat
  gsFetcherDirsRemoved :: nat

record 'w gcExt =
  gListRefs :: "'w \<Rightarrow> string + string list"
  gGetRef :: "string \<Rightarrow> 'w \<Rightarrow> string option"
  gDeleteRef :: "string \<Rightarrow> 'w \<Rightarrow> string option \<times> 'w"
  gStatus :: "'w \<Rightarrow> string + int \<times> int"
  gRun :: "rat \<Rightarrow> 'w \<Rightarrow> (string + cycleStats) \<times> 'w"
  gDefaultGarbage :: rat
  gStatfs :: "'w \<Rightarrow> (64 word \<times> 64 word \<times> 64 word) option"
  gDirSize :: "'w \<Rightarrow> int"
  gHas :: "'w \<Rightarrow> key \<Rightarrow> string + bool"
  gKeyParse :: "bytes \<Rightarrow> key option"
  gReadTrees :: "'w \<Rightarrow> dirEntry list option"
  gReadCache :: "'w \<Rightarrow> dirEntry list option"
  gRemoveAll :: "string \<Rightarrow> 'w \<Rightarrow> string option \<times> 'w"
  gFlush :: "tracker \<Rightarrow> 'w \<Rightarrow> string option \<times> 'w"
  gOthers :: "nat \<Rightarrow> tracker \<times> 'w \<Rightarrow> tracker \<times> 'w"

record sweeper =
  swTracker :: tracker
  swCacheDir :: string
  swRetention :: int
  swMinFree :: "64 word"
  swStats :: gcStats

section \<open>Staged trees\<close>

definition fetcherStaleAfter :: int where
  "fetcherStaleAfter = 24 * 3600 * 10 ^ 9"

definition CutSuffix :: "string \<Rightarrow> string \<Rightarrow> string option" where
  "CutSuffix s p = (if HasSuffix s p then Some (take (length s - length p) s) else None)"

definition parseTreeKey :: "(bytes \<Rightarrow> key option) \<Rightarrow> string \<Rightarrow> key option" where
  "parseTreeKey keyParse name =
     (let base = (case CutSuffix name ''.bin'' of Some b \<Rightarrow> b | None \<Rightarrow> name)
      in case DecodeString base of None \<Rightarrow> None | Some b \<Rightarrow> keyParse b)"

text \<open>Whether an entry of the trees directory is removed, given the store and the cutoff.\<close>

definition treeDoomed :: "'w gcExt \<Rightarrow> int \<Rightarrow> dirEntry \<Rightarrow> 'w \<Rightarrow> bool" where
  "treeDoomed x cutoff e w \<longleftrightarrow>
     deIsDir e \<and>
     (if HasPrefix (deName e) ''staging-'' \<or> HasPrefix (deName e) ''bin-staging-''
      then (case deMod e of None \<Rightarrow> False | Some m \<Rightarrow> \<not> m > cutoff)
      else (case parseTreeKey (gKeyParse x) (deName e) of
              None \<Rightarrow> True
            | Some k \<Rightarrow> (case gHas x w k of Inl _ \<Rightarrow> False | Inr has \<Rightarrow> \<not> has)))"

definition fetcherDoomed :: "int \<Rightarrow> dirEntry \<Rightarrow> bool" where
  "fetcherDoomed cutoff e \<longleftrightarrow>
     HasPrefix (deName e) ''fetcher-'' \<and> (case deMod e of None \<Rightarrow> False | Some m \<Rightarrow> \<not> m > cutoff)"

fun removeDoomed :: "'w gcExt \<Rightarrow> (dirEntry \<Rightarrow> 'w \<Rightarrow> bool) \<Rightarrow> string \<Rightarrow> dirEntry list \<Rightarrow> 'w \<Rightarrow> string list \<times> 'w" where
  "removeDoomed x doomed dir [] w = ([], w)"
| "removeDoomed x doomed dir (e # es) w =
     (if doomed e w then
        (case gRemoveAll x (dir @ ''/'' @ deName e) w of
           (Some err, w1) \<Rightarrow> removeDoomed x doomed dir es w1
         | (None, w1) \<Rightarrow> (let (rs, w2) = removeDoomed x doomed dir es w1 in (deName e # rs, w2)))
      else removeDoomed x doomed dir es w)"

definition sweepTrees :: "'w gcExt \<Rightarrow> int \<Rightarrow> string \<Rightarrow> 'w \<Rightarrow> (string list \<times> string list) \<times> 'w" where
  "sweepTrees x now cacheDir w =
     (if cacheDir = [] then (([], []), w)
      else
        (let cutoff = now - fetcherStaleAfter;
             (trees, w1) = (case gReadTrees x w of None \<Rightarrow> ([], w) | Some es \<Rightarrow> removeDoomed x (treeDoomed x cutoff) (cacheDir @ ''/trees'') es w);
             (fetchers, w2) = (case gReadCache x w1 of None \<Rightarrow> ([], w1) | Some es \<Rightarrow> removeDoomed x (\<lambda>e _. fetcherDoomed cutoff e) cacheDir es w1)
         in ((trees, fetchers), w2)))"

section \<open>The sweep\<close>

text \<open>The loop over the expired names: the deletions in order with the entry read, and the
  number of accesses made.\<close>

fun expireLoop :: "'w gcExt \<Rightarrow> nat \<Rightarrow> string list \<Rightarrow> string list \<Rightarrow> tracker \<times> 'w \<Rightarrow> (string \<times> Entry) list \<times> tracker \<times> 'w" where
  "expireLoop x i failed [] tw = ([], tw)"
| "expireLoop x i failed (name # names) tw =
     (if (case depsOutputName name of Some out \<Rightarrow> out \<in> set failed | None \<Rightarrow> False)
      then expireLoop x i failed names tw
      else
        (let (t1, w1) = gOthers x i tw in
         case GetEntry t1 name of
           None \<Rightarrow> expireLoop x (i + 1) failed names (t1, w1)
         | Some e \<Rightarrow>
             if ePinned e then expireLoop x (i + 1) failed names (t1, w1)
             else
               (let (t2, w2) = gOthers x (i + 1) (t1, w1) in
                case gDeleteRef x name w2 of
                  (Some err, w3) \<Rightarrow>
                    expireLoop x (i + 2) (if HasPrefix name outputPrefix then name # failed else failed) names (t2, w3)
                | (None, w3) \<Rightarrow>
                    (let (t4, w4) = gOthers x (i + 2) (t2, w3);
                         (lg, tw') = expireLoop x (i + 3) failed names (Forget name t4, w4)
                     in ((name, e) # lg, tw')))))"

definition freeBelow :: "(64 word \<times> 64 word \<times> 64 word) option \<Rightarrow> 64 word \<Rightarrow> bool" where
  "freeBelow statfs minFree =
     (case statfs of
        None \<Rightarrow> False
      | Some (blocks, bavail, bsize) \<Rightarrow> bavail * bsize < (if minFree = 0 then blocks * bsize div 20 else minFree))"

definition failSweep :: "string \<Rightarrow> sweeper \<Rightarrow> gcStats \<times> string option \<times> sweeper" where
  "failSweep err g = (let st = (swStats g)\<lparr>gsLastError := err\<rparr> in (st, Some err, g\<lparr>swStats := st\<rparr>))"

definition worthCycle :: "'w gcExt \<Rightarrow> bool \<Rightarrow> nat \<Rightarrow> int \<Rightarrow> int \<Rightarrow> bool \<Rightarrow> bool" where
  "worthCycle x force deleted live garbage low =
     (let frac = (if live + garbage > 0 then of_int garbage / of_int (live + garbage) else 0)
      in force \<or> deleted > 0 \<or> frac \<ge> gDefaultGarbage x \<or> low)"

definition reportStats ::
  "int \<Rightarrow> nat \<Rightarrow> nat \<times> nat \<Rightarrow> int \<Rightarrow> int \<Rightarrow> int \<Rightarrow> nat \<times> nat \<Rightarrow> (string + cycleStats) option \<Rightarrow> gcStats \<Rightarrow> gcStats" where
  "reportStats now deleted counts disk live garbage removed cycle st =
     (let st1 = st\<lparr>gsLastSweepNs := now, gsExpiredLast := deleted, gsExpiredTotal := gsExpiredTotal st + deleted,
                   gsPinned := snd counts, gsRefCount := fst counts, gsDiskBytes := disk, gsLiveBytes := live,
                   gsGarbageBytes := garbage, gsLastError := [], gsTreesRemoved := fst removed, gsFetcherDirsRemoved := snd removed\<rparr>
      in case cycle of
           None \<Rightarrow> st1
         | Some (Inl err) \<Rightarrow> st1\<lparr>gsLastError := err\<rparr>
         | Some (Inr c) \<Rightarrow> st1\<lparr>gsLastCycleNs := cyStartNs c, gsLastCycleReaped := cyReaped c, gsLastCycleFreed := cyFreed c,
                               gsLastCycleWallNs := cyDuration c\<rparr>)"

definition Sweep :: "'w gcExt \<Rightarrow> int \<Rightarrow> int \<Rightarrow> rat \<Rightarrow> bool \<Rightarrow> sweeper \<Rightarrow> 'w \<Rightarrow> (gcStats \<times> string option \<times> sweeper) \<times> 'w" where
  "Sweep x now treesNow garbage force g w =
     (case gListRefs x w of
        Inl err \<Rightarrow> (failSweep (''list refs: '' @ err) g, w)
      | Inr names \<Rightarrow>
          (let t1 = Reconcile names now (swTracker g);
               expired = Expired (swRetention g) now t1;
               (lg, t2, w2) = expireLoop x 0 [] expired (t1, w);
               g2 = g\<lparr>swTracker := t2\<rparr>;
               deleted = length lg
           in case gStatus x w2 of
                Inl err \<Rightarrow> (failSweep (''gc status: '' @ err) g2, w2)
              | Inr (live, garb) \<Rightarrow>
                  (let run = worthCycle x force deleted live garb (freeBelow (gStatfs x w2) (swMinFree g));
                       (cycle, w3) = (if run then (let (c, w') = gRun x garbage w2 in (Some c, w')) else (None, w2));
                       ((trees, fetchers), w4) = sweepTrees x treesNow (swCacheDir g) w3;
                       (flushErr, w5) = gFlush x t2 w4;
                       st = reportStats now deleted (trackerCounts t2) (gDirSize x w5) live garb (length trees, length fetchers) cycle (swStats g)
                   in ((st, (case cycle of Some (Inl err) \<Rightarrow> Some err | _ \<Rightarrow> None), g2\<lparr>swStats := st\<rparr>), w5))))"

section \<open>Host operations\<close>

text \<open>A successful \<open>GetRef\<close> fires the store's observer, which is \<open>Touch\<close>.\<close>

definition SweeperPin :: "'w gcExt \<Rightarrow> int \<Rightarrow> int \<Rightarrow> string \<Rightarrow> sweeper \<Rightarrow> 'w \<Rightarrow> (string + Entry option) \<times> sweeper \<times> 'w" where
  "SweeperPin x readNow now name g w =
     (case gGetRef x name w of
        Some err \<Rightarrow> (Inl err, g, w)
      | None \<Rightarrow>
          (let t1 = Pin now name (Touch readNow name (swTracker g)); (flushErr, w1) = gFlush x t1 w
           in (Inr (GetEntry t1 name), g\<lparr>swTracker := t1\<rparr>, w1)))"

definition SweeperUnpin :: "'w gcExt \<Rightarrow> int \<Rightarrow> string \<Rightarrow> sweeper \<Rightarrow> 'w \<Rightarrow> (Entry option \<times> bool) \<times> sweeper \<times> 'w" where
  "SweeperUnpin x now name g w =
     (let t1 = Unpin name (swTracker g); (flushErr, w1) = gFlush x t1 w
      in case gGetRef x name w1 of
           Some err \<Rightarrow> ((None, False), g\<lparr>swTracker := t1\<rparr>, w1)
         | None \<Rightarrow> (let t2 = Touch now name t1 in ((GetEntry t2 name, True), g\<lparr>swTracker := t2\<rparr>, w1)))"

section \<open>What the loops delete\<close>

text \<open>The laws of the world that the theorems use, over the names \<open>refs w\<close> in the store: the listing
  is exact, a deletion removes its name or fails and changes nothing, and neither the
  other goroutines nor the collector, the tree sweep or the flush delete a ref.\<close>

definition gcLaws :: "'w gcExt \<Rightarrow> ('w \<Rightarrow> string set) \<Rightarrow> bool" where
  "gcLaws x refs \<longleftrightarrow>
     (\<forall>w names. gListRefs x w = Inr names \<longrightarrow> set names = refs w)
     \<and> (\<forall>n w w'. gDeleteRef x n w = (None, w') \<longrightarrow> refs w' = refs w - {n})
     \<and> (\<forall>n w w' err. gDeleteRef x n w = (Some err, w') \<longrightarrow> refs w' = refs w)
     \<and> (\<forall>i tw. refs (snd tw) \<subseteq> refs (snd (gOthers x i tw)))
     \<and> (\<forall>q w. refs (snd (gRun x q w)) = refs w)
     \<and> (\<forall>p w. refs (snd (gRemoveAll x p w)) = refs w)
     \<and> (\<forall>t w. refs (snd (gFlush x t w)) = refs w)"

lemma gcLaws_D:
  assumes "gcLaws x refs"
  shows "gListRefs x w = Inr names \<Longrightarrow> set names = refs w" "gDeleteRef x n w = (None, w') \<Longrightarrow> refs w' = refs w - {n}"
    "gDeleteRef x n w = (Some err, w') \<Longrightarrow> refs w' = refs w" "refs (snd tw) \<subseteq> refs (snd (gOthers x i tw))"
    "refs (snd (gRun x q w)) = refs w" "refs (snd (gRemoveAll x p w)) = refs w" "refs (snd (gFlush x t w)) = refs w"
  using assms unfolding gcLaws_def by - (elim conjE, metis)+

lemma removeDoomed_refs:
  assumes "gcLaws x refs"
  shows "refs (snd (removeDoomed x doomed dir es w)) = refs w"
proof (induction es arbitrary: w)
  case (Cons e es)
  obtain r w1 where r: "gRemoveAll x (dir @ ''/'' @ deName e) w = (r, w1)" by fastforce
  have "refs w1 = refs w" using gcLaws_D(6) [OF assms, of "dir @ ''/'' @ deName e" w] unfolding r by simp
  with Cons.IH [of w1] Cons.IH [of w] r show ?case by (cases r) (simp_all add: case_prod_beta)
qed simp

lemma sweepTrees_refs:
  assumes "gcLaws x refs"
  shows "refs (snd (sweepTrees x now dir w)) = refs w"
  using removeDoomed_refs [OF assms] by (simp add: sweepTrees_def Let_def case_prod_beta split: option.split)

text \<open>One round of the loop: the name is skipped, found gone or pinned, fails to delete, or is deleted.\<close>

lemma expireLoop_round:
  assumes "expireLoop x i failed (name # names) tw = (lg, tw')"
  obtains (skip) out where "depsOutputName name = Some out" "out \<in> set failed" "expireLoop x i failed names tw = (lg, tw')"
    | (kept) t1 w1 where "gOthers x i tw = (t1, w1)" "\<And>e. map_of t1 name = Some e \<Longrightarrow> ePinned e"
        "expireLoop x (i + 1) failed names (t1, w1) = (lg, tw')"
    | (fails) t1 w1 e t2 w2 err w3 where "gOthers x i tw = (t1, w1)" "map_of t1 name = Some e" "\<not> ePinned e"
        "gOthers x (i + 1) (t1, w1) = (t2, w2)" "gDeleteRef x name w2 = (Some err, w3)"
        "expireLoop x (i + 2) (if HasPrefix name outputPrefix then name # failed else failed) names (t2, w3) = (lg, tw')"
    | (deletes) t1 w1 e t2 w2 w3 t4 w4 lg' where "\<And>out. depsOutputName name = Some out \<Longrightarrow> out \<notin> set failed" "gOthers x i tw = (t1, w1)" "map_of t1 name = Some e" "\<not> ePinned e"
        "gOthers x (i + 1) (t1, w1) = (t2, w2)" "gDeleteRef x name w2 = (None, w3)" "gOthers x (i + 2) (t2, w3) = (t4, w4)"
        "expireLoop x (i + 3) failed names (Forget name t4, w4) = (lg', tw')" "lg = (name, e) # lg'"
proof (cases "\<exists>out. depsOutputName name = Some out \<and> out \<in> set failed")
  case True
  with assms skip show ?thesis by auto
next
  case False
  then have nf: "\<And>out. depsOutputName name = Some out \<Longrightarrow> out \<notin> set failed" by blast
  from False have ns: "\<not> (case depsOutputName name of Some out \<Rightarrow> out \<in> set failed | None \<Rightarrow> False)" by (auto split: option.splits)
  obtain t1 w1 where o1: "gOthers x i tw = (t1, w1)" by fastforce
  obtain t2 w2 where o2: "gOthers x (i + 1) (t1, w1) = (t2, w2)" by fastforce
  obtain r w3 where d: "gDeleteRef x name w2 = (r, w3)" by fastforce
  obtain t4 w4 where o4: "gOthers x (i + 2) (t2, w3) = (t4, w4)" by fastforce
  obtain lg' tw4 where l: "expireLoop x (i + 3) failed names (Forget name t4, w4) = (lg', tw4)" by (rule prod.exhaust)
  show ?thesis
  proof (cases "\<exists>e. map_of t1 name = Some e \<and> \<not> ePinned e")
    case False
    then have "expireLoop x (i + 1) failed names (t1, w1) = (lg, tw')"
      using assms ns o1 by (auto simp: GetEntry_def split: option.splits)
    with o1 False kept show ?thesis by blast
  next
    case True
    then obtain e where e: "map_of t1 name = Some e" "\<not> ePinned e" by blast
    show ?thesis
    proof (cases r)
      case (Some err)
      with assms ns o1 o2 d e have "expireLoop x (i + 2) (if HasPrefix name outputPrefix then name # failed else failed) names (t2, w3) = (lg, tw')"
        by (simp add: GetEntry_def)
      with o1 o2 d e Some fails show ?thesis by blast
    next
      case None
      with assms ns o1 o2 d e o4 l have "lg = (name, e) # lg'" "tw4 = tw'" by (simp_all add: GetEntry_def Let_def)
      with nf o1 o2 d e None o4 l deletes show ?thesis by blast
    qed
  qed
qed

lemma expireLoop_log:
  assumes "expireLoop x i failed names tw = (lg, tw')"
  shows "fst ` set lg \<subseteq> set names \<and> (\<forall>(n, e) \<in> set lg. \<not> ePinned e)"
  using assms
proof (induction names arbitrary: i failed tw lg)
  case (Cons name names)
  from Cons.prems show ?case
  proof (cases rule: expireLoop_round)
    case (skip out) then show ?thesis using Cons.IH by fastforce
  next
    case kept then show ?thesis using Cons.IH by fastforce
  next
    case fails then show ?thesis using Cons.IH by fastforce
  next
    case (deletes t1 w1 e t2 w2 w3 t4 w4 lg')
    then show ?thesis using Cons.IH [OF deletes(8)] by auto
  qed
qed simp

text \<open>Only names of the list leave the store, and one that others keep pinned does not.\<close>

lemma expireLoop_refs:
  assumes "gcLaws x refs" "expireLoop x i failed names tw = (lg, tw')" "n \<in> refs (snd tw)" "n \<notin> refs (snd tw')"
  shows "n \<in> set names \<and> \<not> (\<forall>i tw. \<exists>e. map_of (fst (gOthers x i tw)) n = Some e \<and> ePinned e)"
  using assms(2,3)
proof (induction names arbitrary: i failed tw lg)
  case Nil
  with assms(4) show ?case by simp
next
  case (Cons name names)
  have grow: "refs w \<subseteq> refs w'" if "gOthers x j (t, w) = (t', w')" for j t w t' w'
    using gcLaws_D(4) [OF assms(1), of "(t, w)" j] that by simp
  obtain t0 w0 where tw: "tw = (t0, w0)" by fastforce
  from Cons.prems(1) show ?case
  proof (cases rule: expireLoop_round)
    case (skip out) then show ?thesis using Cons.IH [OF skip(3)] Cons.prems(2) by simp
  next
    case (kept t1 w1)
    then show ?thesis using Cons.IH [OF kept(3)] Cons.prems(2) grow unfolding tw by fastforce
  next
    case (fails t1 w1 e t2 w2 err w3)
    have "n \<in> refs w3"
      using Cons.prems(2) grow [OF fails(1) [unfolded tw]] grow [OF fails(4)] gcLaws_D(3) [OF assms(1) fails(5)] unfolding tw by auto
    then show ?thesis using Cons.IH [OF fails(6)] by simp
  next
    case (deletes t1 w1 e t2 w2 w3 t4 w4 lg')
    have n2: "n \<in> refs w2" using Cons.prems(2) grow [OF deletes(2) [unfolded tw]] grow [OF deletes(5)] unfolding tw by auto
    show ?thesis
    proof (cases "n = name")
      case True
      have "\<not> (\<exists>e. map_of (fst (gOthers x i tw)) n = Some e \<and> ePinned e)" using deletes(2,3,4) True by simp
      with True show ?thesis by (metis list.set_intros(1))
    next
      case False
      then have "n \<in> refs w4" using n2 gcLaws_D(2) [OF assms(1) deletes(6)] grow [OF deletes(7)] by auto
      then show ?thesis using Cons.IH [OF deletes(8)] by simp
    qed
  qed
qed

text \<open>The outcome of a sweep as far as refs are concerned.\<close>

lemma Sweep_refs:
  assumes "gcLaws x refs" "Sweep x now treesNow garbage force g w = (res, w')"
  shows "refs w' = refs w \<or> (\<exists>names lg t2 w2. gListRefs x w = Inr names \<and> refs w' = refs w2
    \<and> expireLoop x 0 [] (Expired (swRetention g) now (Reconcile names now (swTracker g))) (Reconcile names now (swTracker g), w) = (lg, t2, w2))"
proof (cases "gListRefs x w")
  case (Inl err)
  with assms(2) show ?thesis by (simp add: Sweep_def)
next
  case (Inr names)
  let ?t = "Reconcile names now (swTracker g)"
  obtain lg t2 w2 where e: "expireLoop x 0 [] (Expired (swRetention g) now ?t) (?t, w) = (lg, t2, w2)" by (metis prod.exhaust)
  have "refs w' = refs w2"
    using assms(2) Inr e gcLaws_D(5,7) [OF assms(1)] sweepTrees_refs [OF assms(1)]
    by (auto simp: Sweep_def Let_def case_prod_beta split: sum.splits if_splits)
  with Inr e show ?thesis by blast
qed

section \<open>Families\<close>

lemma expireLoop_shrinks:
  assumes "gcLaws x refs" "\<And>i tw. gOthers x i tw = tw" "expireLoop x i failed names tw = (lg, tw')"
  shows "refs (snd tw') \<subseteq> refs (snd tw)"
  using assms(3)
proof (induction names arbitrary: i failed tw lg)
  case (Cons name names)
  from Cons.prems show ?case
  proof (cases rule: expireLoop_round)
    case (skip out) then show ?thesis using Cons.IH by blast
  next
    case kept then show ?thesis using Cons.IH assms(2) by fastforce
  next
    case (fails t1 w1 e t2 w2 err w3)
    then show ?thesis using Cons.IH [OF fails(6)] gcLaws_D(3) [OF assms(1) fails(5)] assms(2) by auto
  next
    case (deletes t1 w1 e t2 w2 w3 t4 w4 lg')
    then show ?thesis using Cons.IH [OF deletes(8)] gcLaws_D(2) [OF assms(1) deletes(6)] assms(2) by auto
  qed
qed simp

text \<open>Without interference, a deleted deps name had no expired output left in the store.\<close>

lemma expireLoop_family:
  assumes laws: "gcLaws x refs" and quiet: "\<And>i tw. gOthers x i tw = tw"
    and loop: "expireLoop x i failed names (t, w) = (lg, t', w')" and dist: "distinct names"
    and entries: "\<And>n. n \<in> set names \<Longrightarrow> \<exists>e. map_of t n = Some e \<and> \<not> ePinned e"
    and order: "\<And>pre post. names = pre @ (depsPrefix @ y) # post \<Longrightarrow> outputPrefix @ y \<in> set pre \<or> outputPrefix @ y \<notin> refs w \<or> outputPrefix @ y \<in> set failed"
    and d: "depsPrefix @ y \<in> refs w" "depsPrefix @ y \<notin> refs w'"
  shows "outputPrefix @ y \<notin> refs w'"
  using loop dist entries order d
proof (induction names arbitrary: i failed t w lg)
  case Nil
  then show ?case by simp
next
  case (Cons name names)
  have entry: "\<exists>e. map_of t n = Some e \<and> \<not> ePinned e" if "n \<in> set (name # names)" for n by (rule Cons.prems(3) [OF that])
  have keep: "\<exists>e. map_of (Forget name t) n = Some e \<and> \<not> ePinned e" if "n \<in> set names" for n
    using entry [of n] that Cons.prems(2) by (auto simp: Forget_def delete_conv')
  have order': "outputPrefix @ y \<in> set (name # pre) \<or> outputPrefix @ y \<notin> refs w \<or> outputPrefix @ y \<in> set failed"
    if "names = pre @ (depsPrefix @ y) # post" for pre post
    using Cons.prems(4) [of "name # pre" post] that by simp
  from Cons.prems(1) show ?case
  proof (cases rule: expireLoop_round)
    case (skip out)
    show ?thesis
    proof (rule Cons.IH [OF skip(3)])
      show "distinct names" using Cons.prems(2) by simp
      show "\<exists>e. map_of t n = Some e \<and> \<not> ePinned e" if "n \<in> set names" for n using entry that by simp
      show "outputPrefix @ y \<in> set pre \<or> outputPrefix @ y \<notin> refs w \<or> outputPrefix @ y \<in> set failed"
        if "names = pre @ (depsPrefix @ y) # post" for pre post
      proof -
        have "name \<noteq> outputPrefix @ y" using skip(1) by (auto simp: depsOutputName_def CutPrefix_def HasPrefix_def)
        with order' [OF that] show ?thesis by auto
      qed
    qed (rule Cons.prems(5,6))+
  next
    case (kept t1 w1)
    with quiet entry [of name] show ?thesis by auto
  next
    case (fails t1 w1 e t2 w2 err w3)
    have w: "t1 = t" "t2 = t" "w2 = w" using fails(1,4) quiet by auto
    have r: "refs w3 = refs w" using gcLaws_D(3) [OF laws fails(5)] w by simp
    show ?thesis
    proof (rule Cons.IH [OF fails(6) [unfolded w]])
      show "distinct names" using Cons.prems(2) by simp
      show "\<exists>e. map_of t n = Some e \<and> \<not> ePinned e" if "n \<in> set names" for n using entry that by simp
      show "outputPrefix @ y \<in> set pre \<or> outputPrefix @ y \<notin> refs w3
          \<or> outputPrefix @ y \<in> set (if HasPrefix name outputPrefix then name # failed else failed)"
        if "names = pre @ (depsPrefix @ y) # post" for pre post
        using order' [OF that] unfolding r by (auto simp: HasPrefix_def)
      show "depsPrefix @ y \<in> refs w3" using Cons.prems(5) r by simp
    qed (rule Cons.prems(6))
  next
    case (deletes t1 w1 e t2 w2 w3 t4 w4 lg')
    have w: "t4 = t" "w2 = w" "w4 = w3" using deletes(2,5,7) quiet by auto
    have r: "refs w3 = refs w - {name}" using gcLaws_D(2) [OF laws deletes(6)] w by simp
    show ?thesis
    proof (cases "name = depsPrefix @ y")
      case True
      then have "depsOutputName name = Some (outputPrefix @ y)" by (simp add: depsOutputName_def CutPrefix_def HasPrefix_def)
      with Cons.prems(4) [of "[]" names] True deletes(1) have "outputPrefix @ y \<notin> refs w" by auto
      then show ?thesis using expireLoop_shrinks [OF laws quiet Cons.prems(1)] by auto
    next
      case False
      show ?thesis
      proof (rule Cons.IH [OF deletes(8) [unfolded w]])
        show "distinct names" using Cons.prems(2) by simp
        show "outputPrefix @ y \<in> set pre \<or> outputPrefix @ y \<notin> refs w3 \<or> outputPrefix @ y \<in> set failed"
          if "names = pre @ (depsPrefix @ y) # post" for pre post
          using order' [OF that] unfolding r by auto
        show "depsPrefix @ y \<in> refs w3" using Cons.prems(5) False r by simp
      qed (rule keep Cons.prems(6), assumption?)+
    qed
  qed
qed

section \<open>Properties\<close>


text \<open>A store that is the list of its ref names, in which everything succeeds.\<close>

definition listExt :: "string list gcExt" where
  "listExt = \<lparr>gListRefs = Inr, gGetRef = (\<lambda>n w. if n \<in> set w then None else Some ''not found''),
     gDeleteRef = (\<lambda>n w. (None, filter (\<lambda>m. m \<noteq> n) w)), gStatus = (\<lambda>_. Inr (0, 0)),
     gRun = (\<lambda>_ w. (Inr \<lparr>cyStartNs = 0, cyReaped = 0, cyFreed = 0, cyDuration = 0\<rparr>, w)), gDefaultGarbage = 1, gStatfs = (\<lambda>_. None),
     gDirSize = (\<lambda>_. 0), gHas = (\<lambda>_ _. Inr True), gKeyParse = Some, gReadTrees = (\<lambda>_. None), gReadCache = (\<lambda>_. None),
     gRemoveAll = (\<lambda>_ w. (None, w)), gFlush = (\<lambda>_ w. (None, w)), gOthers = (\<lambda>_ tw. tw)\<rparr>"

definition zeroStats :: gcStats where
  "zeroStats = \<lparr>gsRetentionNs = 0, gsLastSweepNs = 0, gsExpiredLast = 0, gsExpiredTotal = 0, gsPinned = 0, gsRefCount = 0,
     gsDiskBytes = 0, gsLiveBytes = 0, gsGarbageBytes = 0, gsLastCycleNs = 0, gsLastCycleReaped = 0, gsLastCycleFreed = 0,
     gsLastCycleWallNs = 0, gsLastError = [], gsTreesRemoved = 0, gsFetcherDirsRemoved = 0\<rparr>"

definition demoSweeper :: "tracker \<Rightarrow> sweeper" where
  "demoSweeper t = \<lparr>swTracker = t, swCacheDir = [], swRetention = 8, swMinFree = 0, swStats = zeroStats\<rparr>"

lemma listExt_laws: "gcLaws listExt set"
  by (auto simp: gcLaws_def listExt_def)

lemma listExt_Sweep:
  "snd (Sweep listExt now treesNow q force (demoSweeper t) w) =
     snd (snd (expireLoop listExt 0 [] (Expired 8 now (Reconcile w now t)) (Reconcile w now t, w)))"
  by (simp add: Sweep_def listExt_def demoSweeper_def Let_def case_prod_beta sweepTrees_def)



text \<open>Both refs of a family are cold and the output cannot be deleted.\<close>

definition busyExt :: "string list gcExt" where
  "busyExt = listExt\<lparr>gDeleteRef := (\<lambda>n w. if n = ''build-output:x'' then (Some ''busy'', w) else (None, filter (\<lambda>m. m \<noteq> n) w))\<rparr>"

lemma busyExt_laws: "gcLaws busyExt set"
  by (auto simp: gcLaws_def busyExt_def listExt_def)

lemma coldExpired:
  "Expired 8 20 (Reconcile [depsPrefix @ ''x'', outputPrefix @ ''x''] 20
     [(depsPrefix @ ''x'', \<lparr>eFirstSeen = 1, eLastAccess = 2, ePinned = False\<rparr>), (outputPrefix @ ''x'', \<lparr>eFirstSeen = 1, eLastAccess = 2, ePinned = False\<rparr>)])
   = [outputPrefix @ ''x'', depsPrefix @ ''x'']"
  by (simp add: Reconcile_def Expired_def Protected_def protectedPrefixes_def HasPrefix_def)


text \<open>C33: The hypothesis on families can fail, and then an output is left without its closure.
  Either the deps ref was seen by a reconciliation before the output ref was written, so
  that their clocks differ by a sweep interval and a sweep falls between the two
  expiries; or the output was pinned before its deps ref was tracked, so that the pin
  was not mirrored. In both cases, with nobody interfering and no deletion failing, the
  sweep deletes the deps and keeps the output.\<close>

theorem sweep_orphans_output:
  assumes "t0 < now - 8" and "now - 8 \<le> t1" and "t1 \<le> now" and "p0 \<le> t0"
  shows "let out = outputPrefix @ y; deps = depsPrefix @ y in
    snd (Sweep listExt now treesNow q force (demoSweeper (Reconcile [deps, out] t1 (Reconcile [deps] t0 newTracker))) [deps, out]) = [out]
    \<and> snd (Sweep listExt now treesNow q force (demoSweeper (Reconcile [deps, out] t0 (Pin p0 out newTracker))) [deps, out]) = [out]"
proof -
  let ?out = "outputPrefix @ y" and ?deps = "depsPrefix @ y"
  have u: "\<not> Protected ?deps" by (simp add: Protected_def protectedPrefixes_def HasPrefix_def)
  have gone: "snd (Sweep listExt now treesNow q force (demoSweeper t) [?deps, ?out]) = [?out]"
    if "Expired 8 now (Reconcile [?deps, ?out] now t) = [?deps]" "map_of t ?deps = Some e" "\<not> ePinned e" for t e
    unfolding listExt_Sweep that(1)
    using that(2,3) by (simp add: depsOutputName_def listExt_def GetEntry_def map_of_Reconcile split: option.split)
  have one: "Expired 8 now t = [?deps]" if "distinct (map fst t)" "\<And>n. n \<in> set (Expired 8 now t) \<longleftrightarrow> n = ?deps" for t
  proof -
    have "set (Expired 8 now t) = {?deps}" using that(2) by blast
    with distinct_Expired [OF that(1), of 8 now] show ?thesis
      by (cases "Expired 8 now t"; cases "tl (Expired 8 now t)") auto
  qed
  have two: "P n \<longleftrightarrow> n = ?deps" if "\<And>n. P n \<Longrightarrow> n \<in> {?deps, ?out}" "P ?deps" "\<not> P ?out" for P n
    using that by blast
  let ?a = "Reconcile [?deps, ?out] t1 (Reconcile [?deps] t0 newTracker)"
  let ?b = "Reconcile [?deps, ?out] t0 (Pin p0 ?out newTracker)"
  have ne: "?out \<noteq> ?deps" by simp
  have da: "distinct (map fst ?a)" and db: "distinct (map fst ?b)"
    by (intro distinct_Reconcile distinct_tracker, simp add: newTracker_def)+
  have ma: "map_of ?a ?deps = Some \<lparr>eFirstSeen = t0, eLastAccess = t0, ePinned = False\<rparr>"
    "map_of ?a ?out = Some \<lparr>eFirstSeen = t1, eLastAccess = t1, ePinned = False\<rparr>"
    using ne by (simp_all add: map_of_Reconcile newTracker_def del: append.simps)
  have mb: "map_of ?b ?deps = Some \<lparr>eFirstSeen = t0, eLastAccess = t0, ePinned = False\<rparr>"
    "map_of ?b ?out = Some \<lparr>eFirstSeen = p0, eLastAccess = p0, ePinned = True\<rparr>"
    using ne by (simp_all add: map_of_Reconcile newTracker_def Pin_def Let_def del: append.simps)
  have tr: "map_of (Reconcile [?deps, ?out] now t) n = (if n \<in> {?deps, ?out} then map_of t n else None)"
    if "map_of t ?deps = Some d" "map_of t ?out = Some o'" for t d o' n
    using that by (auto simp: map_of_Reconcile simp del: append.simps)
  have ea: "Expired 8 now (Reconcile [?deps, ?out] now ?a) = [?deps]"
    using assms u
    by (intro one distinct_Reconcile da, unfold set_Expired [OF distinct_Reconcile [OF da]] tr [OF ma], intro two)
      (simp_all add: ma split: if_splits del: append.simps)
  have eb: "Expired 8 now (Reconcile [?deps, ?out] now ?b) = [?deps]"
    using assms u
    by (intro one distinct_Reconcile db, unfold set_Expired [OF distinct_Reconcile [OF db]] tr [OF mb], intro two)
      (simp_all add: mb split: if_splits del: append.simps)
  show ?thesis unfolding Let_def
    by (rule conjI, rule gone [OF ea ma(1)], simp, rule gone [OF eb mb(1)], simp)
qed

theorem sweep_orphans_output_witness:
  "snd (Sweep listExt 20 20 0 False (demoSweeper (Reconcile [depsPrefix @ ''x'', outputPrefix @ ''x''] 15 (Reconcile [depsPrefix @ ''x''] 10 newTracker)))
     [depsPrefix @ ''x'', outputPrefix @ ''x'']) = [outputPrefix @ ''x'']"
proof -
  have "(10 :: int) < 20 - 8" "(20 :: int) - 8 \<le> 15" "(15 :: int) \<le> 20" "(0 :: int) \<le> 10" by simp_all
  from sweep_orphans_output [OF this, unfolded Let_def, where y = "''x''" and treesNow = 20 and q = 0 and force = False] show ?thesis by (rule conjunct1)
qed

lemma removeDoomed_mem:
  assumes "\<And>p w k. gHas x (snd (gRemoveAll x p w)) k = gHas x w k" "n \<in> set (fst (removeDoomed x doomed dir es w))"
  shows "\<exists>e \<in> set es. deName e = n \<and> (\<exists>v. doomed e v \<and> gHas x v = gHas x w)"
  using assms(2)
proof (induction es arbitrary: w)
  case (Cons e es)
  obtain r w1 where r: "gRemoveAll x (dir @ ''/'' @ deName e) w = (r, w1)" by fastforce
  have h: "gHas x w1 = gHas x w" using assms(1) [of "dir @ ''/'' @ deName e" w] unfolding r by (simp add: fun_eq_iff)
  consider "n \<in> set (fst (removeDoomed x doomed dir es w1))" | "n \<in> set (fst (removeDoomed x doomed dir es w))" | "doomed e w" "n = deName e"
    using Cons.prems r by (cases r) (auto simp: case_prod_beta split: if_splits)
  then show ?case
  proof cases
    case 1 with Cons.IH [of w1] h show ?thesis by auto
  next
    case 2 with Cons.IH [of w] show ?thesis by auto
  next
    case 3 then show ?thesis by auto
  qed
qed simp

lemma parseTreeKey_name:
  assumes "gKeyParse x k = Some k" "n = keyString k \<or> n = keyString k @ ''.bin''"
  shows "parseTreeKey (gKeyParse x) n = Some k"
proof -
  have "\<not> HasSuffix (keyString k) ''.bin''"
  proof
    assume "HasSuffix (keyString k) ''.bin''"
    then have "set ''.bin'' \<subseteq> set (keyString k)" unfolding HasSuffix_def by (metis set_drop_subset)
    then show False using notin_EncodeToString [of "CHR ''.''" k] by (simp add: keyString_def lowerHex_def)
  qed
  with assms show ?thesis by (auto simp: parseTreeKey_def CutSuffix_def HasSuffix_def keyString_def)
qed

lemma keyString_not_staging:
  assumes "n = keyString k \<or> n = keyString k @ ''.bin''"
  shows "\<not> HasPrefix n ''staging-''" "\<not> HasPrefix n ''bin-staging-''"
proof -
  have "CHR ''s'' \<notin> set n" using assms notin_EncodeToString [of "CHR ''s''" k] by (auto simp: keyString_def lowerHex_def)
  moreover have "set p \<subseteq> set n" if "HasPrefix n p" for p using that unfolding HasPrefix_def by (metis set_take_subset)
  ultimately show "\<not> HasPrefix n ''staging-''" "\<not> HasPrefix n ''bin-staging-''" by force+
qed


text \<open>A cache directory with one live and one dead tree.\<close>

definition treesExt :: "string list gcExt" where
  "treesExt = listExt\<lparr>gReadTrees := (\<lambda>_. Some [\<lparr>deName = ''61'', deIsDir = True, deMod = Some 0\<rparr>, \<lparr>deName = ''62.bin'', deIsDir = True, deMod = Some 0\<rparr>]),
     gHas := (\<lambda>_ k. Inr (k = ''a''))\<rparr>"


end
