(* ===== verification/Framing.thy ===== *)
theory Framing
  imports Wire
begin

text \<open>
  The length-prefixed framings: the sync protocol (\<open>src/amberiroh/protocol.go\<close>), the pack
  stream that rides in it (\<open>src/amberiroh/pack.go\<close>), and the client API
  (\<open>src/api/api.go\<close>).

  A stream is the list of its bytes; a reader returns what it consumed and the rest, a
  writer the bytes it appends.  The CBOR codec is the pair of parameters \<open>marshal\<close> and
  \<open>unmarshal\<close>.
\<close>

section \<open>Bytes\<close>

definition MaxFrame :: nat where "MaxFrame = 16 * 2 ^ 20"
definition ChunkSize :: nat where "ChunkSize = 2 ^ 20"

definition PutUint32 :: "nat \<Rightarrow> bytes" where
  "PutUint32 n = [char_of (n div 2 ^ 24), char_of (n div 2 ^ 16), char_of (n div 2 ^ 8), char_of n]"

definition Uint32BE :: "bytes \<Rightarrow> nat" where
  "Uint32BE b = fold (\<lambda>c acc. acc * 256 + of_char c) b 0"

datatype ioErr = EOF | UnexpectedEOF

definition ReadFull :: "nat \<Rightarrow> bytes \<Rightarrow> (ioErr + bytes) \<times> bytes" where
  "ReadFull k s =
     (if k \<le> length s then (Inr (take k s), drop k s)
      else if s = [] then (Inl EOF, []) else (Inl UnexpectedEOF, []))"

section \<open>The sync protocol\<close>

record RefInfo =
  riName :: string
  riKey :: bytes
  riCreatedAt :: int
  riUser :: string

record DataEndpointRec =
  dpID :: bytes
  dpAddrs :: "string list"

record Msg =
  mType :: int
  mName :: string
  mRoot :: bytes
  mCAS :: bool
  mExpectedOld :: bytes
  mRecord :: bytes
  mRefs :: "RefInfo list"
  mKeys :: "bytes list"
  mData :: bytes
  mKey :: bytes
  mCode :: string
  mText :: string
  mCurrent :: bytes
  mToken :: bytes
  mDataConns :: int
  mDataPorts :: "16 word list"
  mDataEndpoints :: "DataEndpointRec list"
  mNames :: "string list"

definition zeroMsg :: Msg where
  "zeroMsg = \<lparr>mType = 0, mName = [], mRoot = [], mCAS = False, mExpectedOld = [], mRecord = [], mRefs = [], mKeys = [], mData = [],
     mKey = [], mCode = [], mText = [], mCurrent = [], mToken = [], mDataConns = 0, mDataPorts = [], mDataEndpoints = [], mNames = []\<rparr>"

abbreviation TPush :: int where "TPush \<equiv> 1"
abbreviation TPull :: int where "TPull \<equiv> 2"
abbreviation TRefList :: int where "TRefList \<equiv> 3"
abbreviation TRef :: int where "TRef \<equiv> 4"
abbreviation TRefs :: int where "TRefs \<equiv> 5"
abbreviation TWants :: int where "TWants \<equiv> 6"
abbreviation TData :: int where "TData \<equiv> 7"
abbreviation TDataEnd :: int where "TDataEnd \<equiv> 8"
abbreviation TOK :: int where "TOK \<equiv> 9"
abbreviation TErr :: int where "TErr \<equiv> 10"
abbreviation TAttach :: int where "TAttach \<equiv> 11"
abbreviation TAccept :: int where "TAccept \<equiv> 12"
abbreviation TPin :: int where "TPin \<equiv> 13"

datatype frameErr = EncodeErr string | TooLarge nat | Stream ioErr | ShortFrame ioErr | DecodeErr string

definition WriteMsg :: "('m \<Rightarrow> string + bytes) \<Rightarrow> 'm \<Rightarrow> frameErr + bytes" where
  "WriteMsg marshal m =
     (case marshal m of
        Inl err \<Rightarrow> Inl (EncodeErr err)
      | Inr payload \<Rightarrow>
          if length payload > MaxFrame then Inl (TooLarge (length payload))
          else Inr (PutUint32 (length payload) @ payload))"

definition ReadMsg :: "(bytes \<Rightarrow> string + 'm) \<Rightarrow> bytes \<Rightarrow> (frameErr + 'm) \<times> bytes" where
  "ReadMsg unmarshal s =
     (case ReadFull 4 s of
        (Inl err, s1) \<Rightarrow> (Inl (Stream err), s1)
      | (Inr hdr, s1) \<Rightarrow>
          (let n = Uint32BE hdr in
           if n > MaxFrame then (Inl (TooLarge n), s1)
           else (case ReadFull n s1 of
                   (Inl err, s2) \<Rightarrow> (Inl (ShortFrame err), s2)
                 | (Inr payload, s2) \<Rightarrow>
                     (case unmarshal payload of
                        Inl err \<Rightarrow> (Inl (DecodeErr err), s2)
                      | Inr m \<Rightarrow> (Inr m, s2)))))"

record RemoteError =
  reCode :: string
  reText :: string
  reCurrent :: bytes

definition RemoteFromMsg :: "Msg \<Rightarrow> RemoteError" where
  "RemoteFromMsg m = \<lparr>reCode = mCode m, reText = mText m, reCurrent = mCurrent m\<rparr>"

section \<open>The client API\<close>

record frame =
  frT :: string
  frB :: bytes

datatype apiErr = BodyErr string | ApiFrame frameErr | NoType

text \<open>\<open>body\<close> is the outcome of encoding the value, \<open>None\<close> for a frame without one.\<close>

definition WriteFrame :: "(frame \<Rightarrow> string + bytes) \<Rightarrow> string \<Rightarrow> (string + bytes) option \<Rightarrow> apiErr + bytes" where
  "WriteFrame marshal t body =
     (case (case body of None \<Rightarrow> Inr [] | Some b \<Rightarrow> b) of
        Inl err \<Rightarrow> Inl (BodyErr err)
      | Inr b \<Rightarrow>
          (case marshal \<lparr>frT = t, frB = b\<rparr> of
             Inl err \<Rightarrow> Inl (ApiFrame (EncodeErr err))
           | Inr payload \<Rightarrow>
               if length payload > MaxFrame then Inl (ApiFrame (TooLarge (length payload)))
               else Inr (PutUint32 (length payload) @ payload)))"

definition ReadFrame :: "(bytes \<Rightarrow> string + frame) \<Rightarrow> bytes \<Rightarrow> (apiErr + string \<times> bytes) \<times> bytes" where
  "ReadFrame unmarshal s =
     (case ReadFull 4 s of
        (Inl err, s1) \<Rightarrow> (Inl (ApiFrame (Stream err)), s1)
      | (Inr hdr, s1) \<Rightarrow>
          (let n = Uint32BE hdr in
           if n > MaxFrame then (Inl (ApiFrame (TooLarge n)), s1)
           else (case ReadFull n s1 of
                   (Inl err, s2) \<Rightarrow> (Inl (ApiFrame (Stream err)), s2)
                 | (Inr payload, s2) \<Rightarrow>
                     (case unmarshal payload of
                        Inl err \<Rightarrow> (Inl (ApiFrame (DecodeErr err)), s2)
                      | Inr f \<Rightarrow> if frT f = [] then (Inl NoType, s2) else (Inr (frT f, frB f), s2)))))"

definition DecodeBody :: "(bytes \<Rightarrow> string + 'v) \<Rightarrow> bytes \<Rightarrow> string + 'v" where
  "DecodeBody unmarshal b = (if b = [] then Inl ''frame without body'' else unmarshal b)"

section \<open>Framing lemmas\<close>

lemma of_char_char_of_mod: "(of_char (char_of (n :: nat)) :: nat) = n mod 256"
  by (simp add: of_char_of)

lemma Uint32_PutUint32: "n < 2 ^ 32 \<Longrightarrow> Uint32BE (PutUint32 n) = n"
proof -
  assume n: "n < 2 ^ 32"
  have d: "n div 2 ^ 16 = n div 2 ^ 8 div 256" "n div 2 ^ 24 = n div 2 ^ 16 div 256" by (simp_all flip: div_mult2_eq)
  have "n div 2 ^ 24 < 256" using n by (intro less_mult_imp_div_less) simp
  then have "n div 2 ^ 24 mod 256 = n div 2 ^ 24" by simp
  then have "Uint32BE (PutUint32 n) = ((n div 2 ^ 24 * 256 + n div 2 ^ 16 mod 256) * 256 + n div 2 ^ 8 mod 256) * 256 + n mod 256"
    by (simp add: Uint32BE_def PutUint32_def of_char_char_of_mod)
  also have "\<dots> = n" unfolding d(2) div_mult_mod_eq unfolding d(1) div_mult_mod_eq by simp
  finally show ?thesis .
qed

lemma length_PutUint32 [simp]: "length (PutUint32 n) = 4"
  by (simp add: PutUint32_def)

lemma MaxFrame_32: "n \<le> MaxFrame \<Longrightarrow> n < 2 ^ 32"
  by (simp add: MaxFrame_def)

lemma ReadFull_append: "length b = k \<Longrightarrow> ReadFull k (b @ s) = (Inr b, s)"
  by (simp add: ReadFull_def)

lemma ReadFull_short: "length s < k \<Longrightarrow> ReadFull k s = (Inl (if s = [] then EOF else UnexpectedEOF), [])"
  by (simp add: ReadFull_def)

lemma ReadMsg_frame:
  assumes "length payload \<le> MaxFrame"
  shows "ReadMsg unmarshal (PutUint32 (length payload) @ payload @ rest) =
    ((case unmarshal payload of Inl err \<Rightarrow> Inl (DecodeErr err) | Inr m \<Rightarrow> Inr m), rest)"
  using assms
  by (simp add: ReadMsg_def ReadFull_append Uint32_PutUint32 [OF MaxFrame_32] split: sum.split)

lemma ReadMsg_cut:
  assumes "length payload \<le> MaxFrame" and "strict_prefix s (PutUint32 (length payload) @ payload)"
  shows "\<exists>e. ReadMsg unmarshal s = (Inl e, []) \<and> (e = Stream EOF \<longleftrightarrow> s = [])"
proof (cases "length s < 4")
  case True
  then show ?thesis by (simp add: ReadMsg_def ReadFull_short)
next
  case False
  from assms(2) obtain u where u: "PutUint32 (length payload) @ payload = s @ u" "u \<noteq> []" by (auto simp: strict_prefix_def prefix_def)
  have "take 4 s = take 4 (s @ u)" using False by simp
  also have "\<dots> = PutUint32 (length payload)" unfolding u(1) [symmetric] by simp
  finally have h: "take 4 s = PutUint32 (length payload)" .
  have "length s < 4 + length payload" using arg_cong [OF u(1), of length] u(2) by simp
  then have l: "length (drop 4 s) < length payload" using False by simp
  have "s = PutUint32 (length payload) @ drop 4 s" using h by (metis append_take_drop_id)
  moreover have "ReadMsg unmarshal (PutUint32 (length payload) @ drop 4 s) = (Inl (ShortFrame (if drop 4 s = [] then EOF else UnexpectedEOF)), [])"
    using assms(1) l by (simp add: ReadMsg_def ReadFull_append Uint32_PutUint32 [OF MaxFrame_32] ReadFull_short)
  ultimately have "ReadMsg unmarshal s = (Inl (ShortFrame (if drop 4 s = [] then EOF else UnexpectedEOF)), [])" by simp
  moreover have "s \<noteq> []" using False by auto
  ultimately show ?thesis by blast
qed

lemma ReadFull_length: "ReadFull k s = (Inr b, s') \<Longrightarrow> length s = k + length s'"
  by (auto simp: ReadFull_def split: if_splits)

lemma ReadMsg_shorter:
  assumes "ReadMsg unmarshal s = (Inr m, s')"
  shows "length s' < length s"
  using assms by (auto simp: ReadMsg_def Let_def split: prod.splits sum.splits if_splits dest!: ReadFull_length)

section \<open>Pack streams\<close>

record chunkWriter =
  cwBuf :: bytes
  cwOut :: bytes

definition cwFlush :: "(Msg \<Rightarrow> string + bytes) \<Rightarrow> chunkWriter \<Rightarrow> frameErr option \<times> chunkWriter" where
  "cwFlush marshal c =
     (if cwBuf c = [] then (None, c)
      else (case WriteMsg marshal (zeroMsg\<lparr>mType := TData, mData := cwBuf c\<rparr>) of
              Inl err \<Rightarrow> (Some err, c\<lparr>cwBuf := []\<rparr>)
            | Inr b \<Rightarrow> (None, c\<lparr>cwBuf := [], cwOut := cwOut c @ b\<rparr>)))"

text \<open>The buffer never exceeds the chunk size, so the branch that stops without progress is never taken.\<close>

function cwWrite :: "(Msg \<Rightarrow> string + bytes) \<Rightarrow> bytes \<Rightarrow> chunkWriter \<Rightarrow> frameErr option \<times> chunkWriter" where
  "cwWrite marshal p c =
     (if p = [] then (None, c)
      else
        (let n = min (ChunkSize - length (cwBuf c)) (length p);
             c1 = c\<lparr>cwBuf := cwBuf c @ take n p\<rparr>
         in if length (cwBuf c1) = ChunkSize then
              (case cwFlush marshal c1 of
                 (Some err, c2) \<Rightarrow> (Some err, c2)
               | (None, c2) \<Rightarrow> cwWrite marshal (drop n p) c2)
            else if n = 0 then (None, c1) else cwWrite marshal (drop n p) c1))"
  by pat_completeness auto

termination by (relation "measures [\<lambda>(_, p, c). length p, \<lambda>(_, p, c). length (cwBuf c)]") (auto simp: cwFlush_def ChunkSize_def split: if_splits sum.splits)

declare cwWrite.simps [simp del]

definition cwFinish :: "(Msg \<Rightarrow> string + bytes) \<Rightarrow> chunkWriter \<Rightarrow> frameErr option \<times> chunkWriter" where
  "cwFinish marshal c =
     (case cwFlush marshal c of
        (Some err, c1) \<Rightarrow> (Some err, c1)
      | (None, c1) \<Rightarrow>
          (case WriteMsg marshal (zeroMsg\<lparr>mType := TDataEnd\<rparr>) of
             Inl err \<Rightarrow> (Some err, c1)
           | Inr b \<Rightarrow> (None, c1\<lparr>cwOut := cwOut c1 @ b\<rparr>)))"

fun cwWrites :: "(Msg \<Rightarrow> string + bytes) \<Rightarrow> bytes list \<Rightarrow> chunkWriter \<Rightarrow> frameErr option \<times> chunkWriter" where
  "cwWrites marshal [] c = (None, c)"
| "cwWrites marshal (p # ps) c =
     (case cwWrite marshal p c of (Some err, c1) \<Rightarrow> (Some err, c1) | (None, c1) \<Rightarrow> cwWrites marshal ps c1)"

text \<open>\<open>SendPackRecords\<close>: the byte runs the pack encoder writes for the records, up to the
  first record that fails, then the end frame.\<close>

datatype packSendErr = RecordErr string | SendFrame frameErr

fun goodRecords :: "(string + bytes) list \<Rightarrow> string option \<times> bytes list" where
  "goodRecords [] = (None, [])"
| "goodRecords (Inl err # rs) = (Some err, [])"
| "goodRecords (Inr b # rs) = (let (err, bs) = goodRecords rs in (err, b # bs))"

definition SendPackRecords ::
  "(Msg \<Rightarrow> string + bytes) \<Rightarrow> (bytes list \<Rightarrow> bytes list) \<Rightarrow> bytes list \<Rightarrow> (string + bytes) list \<Rightarrow> packSendErr option \<times> bytes" where
  "SendPackRecords marshal packRuns trailer recs =
     (let (rerr, good) = goodRecords recs;
          (werr, c) = cwWrites marshal (packRuns good) \<lparr>cwBuf = [], cwOut = []\<rparr>
      in case werr of
           Some err \<Rightarrow> (Some (SendFrame err), cwOut c)
         | None \<Rightarrow>
             (case rerr of
                Some err \<Rightarrow> (Some (RecordErr err), cwOut c)
              | None \<Rightarrow>
                  (case cwWrites marshal trailer c of
                     (Some err, c1) \<Rightarrow> (Some (SendFrame err), cwOut c1)
                   | (None, c1) \<Rightarrow>
                       (case cwFinish marshal c1 of
                          (Some err, c2) \<Rightarrow> (Some (SendFrame err), cwOut c2)
                        | (None, c2) \<Rightarrow> (None, cwOut c2)))))"

datatype packErr = PackFrame frameErr | PackRemote RemoteError | PackProtocol int | PackEOF

record packReader =
  prStream :: bytes
  prCur :: bytes
  prDone :: bool
  prErr :: "packErr option"

definition NewPackReader :: "bytes \<Rightarrow> packReader" where
  "NewPackReader s = \<lparr>prStream = s, prCur = [], prDone = False, prErr = None\<rparr>"

function prRead :: "(bytes \<Rightarrow> string + Msg) \<Rightarrow> nat \<Rightarrow> packReader \<Rightarrow> (packErr + bytes) \<times> packReader" where
  "prRead unmarshal n p =
     (if prCur p \<noteq> [] then (Inr (take n (prCur p)), p\<lparr>prCur := drop n (prCur p)\<rparr>)
      else (case prErr p of
        Some err \<Rightarrow> (Inl err, p)
      | None \<Rightarrow>
          if prDone p then (Inl PackEOF, p)
          else (case ReadMsg unmarshal (prStream p) of
            (Inl err, s) \<Rightarrow> (Inl (PackFrame err), p\<lparr>prStream := s, prErr := Some (PackFrame err)\<rparr>)
          | (Inr m, s) \<Rightarrow>
              if mType m = TData then prRead unmarshal n (p\<lparr>prStream := s, prCur := mData m\<rparr>)
              else if mType m = TDataEnd then prRead unmarshal n (p\<lparr>prStream := s, prDone := True\<rparr>)
              else (let err = (if mType m = TErr then PackRemote (RemoteFromMsg m) else PackProtocol (mType m))
                    in (Inl err, p\<lparr>prStream := s, prErr := Some err\<rparr>)))))"
  by pat_completeness auto

termination by (relation "measure (\<lambda>(_, _, p). length (prStream p))") (auto dest: ReadMsg_shorter [OF sym])

declare prRead.simps [simp del]

lemma prRead_progress:
  assumes "prRead unmarshal (Suc n) p = (Inr b, p')"
  shows "length (prStream p') < length (prStream p) \<or> prStream p' = prStream p \<and> length (prCur p') < length (prCur p)"
  using assms
proof (induction unmarshal "Suc n" p rule: prRead.induct)
  case (1 unmarshal p)
  show ?case
  proof (cases "prCur p = []")
    case False
    with "1.prems" show ?thesis by (auto simp: prRead.simps [of _ _ p])
  next
    case True
    from "1.prems" True obtain m s where m: "ReadMsg unmarshal (prStream p) = (Inr m, s)" "prErr p = None" "\<not> prDone p"
      by (auto simp: prRead.simps [of _ _ p] Let_def split: if_splits option.splits prod.splits sum.splits)
    note sh = ReadMsg_shorter [OF m(1)]
    show ?thesis
    proof (cases "mType m = TData")
      case t: True
      from "1.hyps"(1) [of "Inr m" s m] True m t "1.prems" sh show ?thesis by (fastforce simp: prRead.simps [of _ _ p])
    next
      case False
      with "1.prems" True m have "mType m = TDataEnd" by (auto simp: prRead.simps [of _ _ p] Let_def split: if_splits)
      with False "1.prems" True m sh show ?thesis by (auto simp: prRead.simps [of _ _ p] prRead.simps [of _ _ "p\<lparr>prStream := s, prDone := True\<rparr>"])
    qed
  qed
qed

text \<open>Draining the reader with a buffer of \<open>Suc k\<close> bytes, as \<open>io.Copy\<close> does.\<close>

function prAll :: "(bytes \<Rightarrow> string + Msg) \<Rightarrow> nat \<Rightarrow> packReader \<Rightarrow> bytes \<times> packErr option \<times> packReader" where
  "prAll unmarshal k p =
     (case prRead unmarshal (Suc k) p of
        (Inl err, p') \<Rightarrow> ([], if err = PackEOF then None else Some err, p')
      | (Inr b, p') \<Rightarrow> (let (bs, r) = prAll unmarshal k p' in (b @ bs, r)))"
  by pat_completeness auto

termination
  by (relation "measures [\<lambda>(_, _, p). length (prStream p), \<lambda>(_, _, p). length (prCur p)]") (auto dest: prRead_progress [OF sym])

declare prAll.simps [simp del]

section \<open>Pack stream lemmas\<close>

text \<open>What is relied on of the CBOR codec: decoding inverts encoding, and a chunk or the end
  marker encodes within a frame.\<close>

definition codecOK :: "('m \<Rightarrow> string + bytes) \<Rightarrow> (bytes \<Rightarrow> string + 'm) \<Rightarrow> bool" where
  "codecOK marshal unmarshal \<longleftrightarrow> (\<forall>m b. marshal m = Inr b \<longrightarrow> unmarshal b = Inr m)"

definition chunksFit :: "(Msg \<Rightarrow> string + bytes) \<Rightarrow> bool" where
  "chunksFit marshal \<longleftrightarrow>
     (\<forall>d. length d \<le> ChunkSize \<longrightarrow> (\<exists>b. marshal (zeroMsg\<lparr>mType := TData, mData := d\<rparr>) = Inr b \<and> length b \<le> MaxFrame))
     \<and> (\<exists>b. marshal (zeroMsg\<lparr>mType := TDataEnd\<rparr>) = Inr b \<and> length b \<le> MaxFrame)"

definition dataFrame :: "(Msg \<Rightarrow> string + bytes) \<Rightarrow> bytes \<Rightarrow> bytes" where
  "dataFrame marshal d = (case WriteMsg marshal (zeroMsg\<lparr>mType := TData, mData := d\<rparr>) of Inr b \<Rightarrow> b | Inl _ \<Rightarrow> [])"

lemma ReadMsg_WriteMsg:
  assumes "codecOK marshal unmarshal" "WriteMsg marshal m = Inr b"
  shows "ReadMsg unmarshal (b @ rest) = (Inr m, rest)"
  using assms by (auto simp: WriteMsg_def codecOK_def ReadMsg_frame split: sum.splits if_splits)

lemma dataFrame_ok:
  assumes "chunksFit marshal" "length d \<le> ChunkSize"
  shows "WriteMsg marshal (zeroMsg\<lparr>mType := TData, mData := d\<rparr>) = Inr (dataFrame marshal d)"
  using assms unfolding chunksFit_def by (auto simp: dataFrame_def WriteMsg_def)

lemma cwFlush_ok:
  assumes "chunksFit marshal" "length (cwBuf c) \<le> ChunkSize"
  shows "cwFlush marshal c = (None, c\<lparr>cwBuf := [], cwOut := cwOut c @ (if cwBuf c = [] then [] else dataFrame marshal (cwBuf c))\<rparr>)"
  using dataFrame_ok [OF assms] by (simp add: cwFlush_def)

text \<open>A writer state that has taken the bytes \<open>bs\<close>: whole chunks have gone out, the rest is buffered.\<close>

definition cwHolds :: "(Msg \<Rightarrow> string + bytes) \<Rightarrow> bytes \<Rightarrow> chunkWriter \<Rightarrow> bool" where
  "cwHolds marshal bs c \<longleftrightarrow> (\<exists>ds. (\<forall>d \<in> set ds. length d \<le> ChunkSize) \<and> cwOut c = concat (map (dataFrame marshal) ds)
     \<and> concat ds @ cwBuf c = bs \<and> length (cwBuf c) < ChunkSize)"

lemma cwWrite_holds:
  assumes "chunksFit marshal" "cwHolds marshal bs c"
  shows "\<exists>c'. cwWrite marshal p c = (None, c') \<and> cwHolds marshal (bs @ p) c'"
  using assms(2)
proof (induction "length p" arbitrary: p bs c rule: less_induct)
  case less
  show ?case
  proof (cases "p = []")
    case True
    then show ?thesis using less.prems by (simp add: cwWrite.simps)
  next
    case False
    define n where "n = min (ChunkSize - length (cwBuf c)) (length p)"
    define c1 where "c1 = c\<lparr>cwBuf := cwBuf c @ take n p\<rparr>"
    from less.prems obtain ds where ds: "\<forall>d \<in> set ds. length d \<le> ChunkSize" "cwOut c = concat (map (dataFrame marshal) ds)"
      "concat ds @ cwBuf c = bs" "length (cwBuf c) < ChunkSize" unfolding cwHolds_def by blast
    have n: "0 < n" "n \<le> length p" "length (cwBuf c1) = length (cwBuf c) + n" "length (cwBuf c1) \<le> ChunkSize"
      using ds(4) False by (auto simp: n_def c1_def)
    have step: "cwWrite marshal p c = (if length (cwBuf c1) = ChunkSize then
          (case cwFlush marshal c1 of (Some err, c2) \<Rightarrow> (Some err, c2) | (None, c2) \<Rightarrow> cwWrite marshal (drop n p) c2)
        else cwWrite marshal (drop n p) c1)"
      using False n(1) unfolding cwWrite.simps [of marshal p c] Let_def n_def [symmetric] c1_def [symmetric] by simp
    have c1: "cwOut c1 = cwOut c" "cwBuf c1 = cwBuf c @ take n p" by (simp_all add: c1_def)
    obtain c2 where "cwWrite marshal p c = cwWrite marshal (drop n p) c2" "cwHolds marshal (bs @ take n p) c2"
    proof (cases "length (cwBuf c1) = ChunkSize")
      case True
      then have ne: "cwBuf c1 \<noteq> []" by (auto simp: ChunkSize_def)
      let ?c2 = "c1\<lparr>cwBuf := [], cwOut := cwOut c1 @ dataFrame marshal (cwBuf c1)\<rparr>"
      have "cwWrite marshal p c = cwWrite marshal (drop n p) ?c2" using step True cwFlush_ok [OF assms(1) n(4)] ne by simp
      moreover have "cwHolds marshal (bs @ take n p) ?c2"
        unfolding cwHolds_def using ds n(4) by (intro exI [of _ "ds @ [cwBuf c1]"]) (auto simp: c1 ChunkSize_def)
      ultimately show thesis by (rule that)
    next
      case False
      then have "cwHolds marshal (bs @ take n p) c1"
        unfolding cwHolds_def using ds n(4) by (intro exI [of _ ds]) (auto simp: c1)
      with step False that show thesis by simp
    qed
    with less.hyps [of "drop n p" "bs @ take n p" c2] n(1,2) False show ?thesis by simp
  qed
qed

lemma cwWrites_holds:
  assumes "chunksFit marshal" "cwHolds marshal bs c"
  shows "\<exists>c'. cwWrites marshal ps c = (None, c') \<and> cwHolds marshal (bs @ concat ps) c'"
  using assms(2)
proof (induction ps arbitrary: bs c)
  case (Cons p ps)
  obtain c1 where c1: "cwWrite marshal p c = (None, c1)" "cwHolds marshal (bs @ p) c1" using cwWrite_holds [OF assms(1) Cons.prems] by blast
  from Cons.IH [OF c1(2)] c1(1) show ?case by simp
qed simp

lemma prAll_cur:
  "prCur p = c \<Longrightarrow> prAll unmarshal k p = (let (bs, r) = prAll unmarshal k (p\<lparr>prCur := []\<rparr>) in (c @ bs, r))"
proof (induction "length c" arbitrary: c p rule: less_induct)
  case less
  show ?case
  proof (cases "c = []")
    case True
    then show ?thesis using less.prems by (cases p) simp
  next
    case False
    have "prAll unmarshal k p = (let (bs, r) = prAll unmarshal k (p\<lparr>prCur := drop (Suc k) c\<rparr>) in (take (Suc k) c @ bs, r))"
      using False less.prems by (subst prAll.simps) (simp add: prRead.simps [of _ _ p])
    moreover have "prAll unmarshal k (p\<lparr>prCur := drop (Suc k) c\<rparr>) = (let (bs, r) = prAll unmarshal k (p\<lparr>prCur := []\<rparr>) in (drop (Suc k) c @ bs, r))"
      using less.hyps [of "drop (Suc k) c" "p\<lparr>prCur := drop (Suc k) c\<rparr>"] False by simp
    ultimately show ?thesis by (simp add: case_prod_beta Let_def flip: append_assoc)
  qed
qed

lemma prAll_data:
  assumes "codecOK marshal unmarshal" "chunksFit marshal" "length d \<le> ChunkSize"
  shows "prAll unmarshal k (NewPackReader (dataFrame marshal d @ s)) = (let (bs, r) = prAll unmarshal k (NewPackReader s) in (d @ bs, r))"
proof -
  let ?m = "zeroMsg\<lparr>mType := TData, mData := d\<rparr>" and ?p = "(NewPackReader s)\<lparr>prCur := d\<rparr>"
  have "prRead unmarshal (Suc k) (NewPackReader (dataFrame marshal d @ s)) = prRead unmarshal (Suc k) ?p"
    using ReadMsg_WriteMsg [OF assms(1) dataFrame_ok [OF assms(2,3)], of s]
    unfolding NewPackReader_def by (subst prRead.simps) simp
  then have "prAll unmarshal k (NewPackReader (dataFrame marshal d @ s)) = prAll unmarshal k ?p" by (simp add: prAll.simps)
  then show ?thesis using prAll_cur [of ?p d] by (simp add: NewPackReader_def)
qed

lemma prAll_end:
  assumes "codecOK marshal unmarshal" "WriteMsg marshal (zeroMsg\<lparr>mType := TDataEnd\<rparr>) = Inr b"
  shows "prAll unmarshal k (NewPackReader (b @ rest)) = ([], None, \<lparr>prStream = rest, prCur = [], prDone = True, prErr = None\<rparr>)"
  using ReadMsg_WriteMsg [OF assms, of rest] by (simp add: prAll.simps prRead.simps NewPackReader_def)

lemma prAll_err:
  assumes "codecOK marshal unmarshal" "WriteMsg marshal m = Inr t" "mType m = TErr"
  shows "prAll unmarshal k (NewPackReader (t @ rest)) =
    ([], Some (PackRemote (RemoteFromMsg m)), \<lparr>prStream = rest, prCur = [], prDone = False, prErr = Some (PackRemote (RemoteFromMsg m))\<rparr>)"
  using ReadMsg_WriteMsg [OF assms(1,2), of rest] assms(3) by (simp add: prAll.simps prRead.simps NewPackReader_def Let_def)

lemma prAll_frames:
  assumes "codecOK marshal unmarshal" "chunksFit marshal" "\<forall>d \<in> set ds. length d \<le> ChunkSize"
  shows "prAll unmarshal k (NewPackReader (concat (map (dataFrame marshal) ds) @ s))
    = (let (bs, r) = prAll unmarshal k (NewPackReader s) in (concat ds @ bs, r))"
  using assms(3) by (induction ds) (simp_all add: prAll_data [OF assms(1,2)] Let_def case_prod_unfold)

lemma cwWrites_fresh:
  assumes "chunksFit marshal"
  shows "\<exists>c. cwWrites marshal ps \<lparr>cwBuf = [], cwOut = []\<rparr> = (None, c) \<and> cwHolds marshal (concat ps) c"
proof -
  have "cwHolds marshal [] \<lparr>cwBuf = [], cwOut = []\<rparr>" unfolding cwHolds_def by (intro exI [of _ "[]"]) (simp add: ChunkSize_def)
  from cwWrites_holds [OF assms this, of ps] show ?thesis by simp
qed

lemma cwFinish_holds:
  assumes "codecOK marshal unmarshal" "chunksFit marshal" "cwHolds marshal bs c"
  shows "\<exists>c'. cwFinish marshal c = (None, c')
    \<and> prAll unmarshal k (NewPackReader (cwOut c' @ rest)) = (bs, None, \<lparr>prStream = rest, prCur = [], prDone = True, prErr = None\<rparr>)"
proof -
  from assms(3) obtain ds where ds: "\<forall>d \<in> set ds. length d \<le> ChunkSize" "cwOut c = concat (map (dataFrame marshal) ds)"
    "concat ds @ cwBuf c = bs" "length (cwBuf c) < ChunkSize" unfolding cwHolds_def by blast
  obtain b where b: "WriteMsg marshal (zeroMsg\<lparr>mType := TDataEnd\<rparr>) = Inr b"
    using assms(2) unfolding chunksFit_def by (auto simp: WriteMsg_def)
  let ?ds = "if cwBuf c = [] then ds else ds @ [cwBuf c]"
  have "cwFinish marshal c = (None, c\<lparr>cwBuf := [], cwOut := concat (map (dataFrame marshal) ?ds) @ b\<rparr>)"
    using cwFlush_ok [OF assms(2), of c] ds(2,4) b by (simp add: cwFinish_def)
  moreover have "\<forall>d \<in> set ?ds. length d \<le> ChunkSize" "concat ?ds = bs" using ds by auto
  ultimately show ?thesis using prAll_frames [OF assms(1,2), of ?ds k "b @ rest"] prAll_end [OF assms(1) b, of k rest] by auto
qed

text \<open>A sender that gets through its records, and one that a record stops.\<close>

lemma SendPackRecords_ok:
  assumes "codecOK marshal unmarshal" "chunksFit marshal" "goodRecords recs = (None, good)"
  shows "\<exists>b. SendPackRecords marshal packRuns trailer recs = (None, b)
    \<and> (\<forall>k rest. prAll unmarshal k (NewPackReader (b @ rest)) =
         (concat (packRuns good) @ concat trailer, None, \<lparr>prStream = rest, prCur = [], prDone = True, prErr = None\<rparr>))"
proof -
  obtain c where c: "cwWrites marshal (packRuns good) \<lparr>cwBuf = [], cwOut = []\<rparr> = (None, c)" "cwHolds marshal (concat (packRuns good)) c"
    using cwWrites_fresh [OF assms(2)] by blast
  obtain c1 where c1: "cwWrites marshal trailer c = (None, c1)" "cwHolds marshal (concat (packRuns good) @ concat trailer) c1"
    using cwWrites_holds [OF assms(2) c(2)] by blast
  obtain c2 where c2: "cwFinish marshal c1 = (None, c2)" using cwFinish_holds [OF assms(1,2) c1(2)] by blast
  then have "prAll unmarshal k (NewPackReader (cwOut c2 @ rest)) =
      (concat (packRuns good) @ concat trailer, None, \<lparr>prStream = rest, prCur = [], prDone = True, prErr = None\<rparr>)" for k rest
    using cwFinish_holds [OF assms(1,2) c1(2), of k rest] by auto
  then show ?thesis using assms(3) c(1) c1(1) c2 by (simp add: SendPackRecords_def)
qed

lemma SendPackRecords_fails:
  assumes "codecOK marshal unmarshal" "chunksFit marshal" "goodRecords recs = (Some err, good)"
    and "WriteMsg marshal m = Inr t" "mType m = TErr"
  shows "\<exists>b bs. SendPackRecords marshal packRuns trailer recs = (Some (RecordErr err), b) \<and> prefix bs (concat (packRuns good))
    \<and> (\<forall>k rest. prAll unmarshal k (NewPackReader (b @ t @ rest)) =
         (bs, Some (PackRemote (RemoteFromMsg m)), \<lparr>prStream = rest, prCur = [], prDone = False, prErr = Some (PackRemote (RemoteFromMsg m))\<rparr>))"
proof -
  obtain c where c: "cwWrites marshal (packRuns good) \<lparr>cwBuf = [], cwOut = []\<rparr> = (None, c)" "cwHolds marshal (concat (packRuns good)) c"
    using cwWrites_fresh [OF assms(2)] by blast
  from c(2) obtain ds where ds: "\<forall>d \<in> set ds. length d \<le> ChunkSize" "cwOut c = concat (map (dataFrame marshal) ds)"
    "concat ds @ cwBuf c = concat (packRuns good)" unfolding cwHolds_def by blast
  have "prefix (concat ds) (concat (packRuns good))" using ds(3) by (metis prefixI)
  then show ?thesis
    using assms(3) c(1) prAll_frames [OF assms(1,2) ds(1)] prAll_err [OF assms(1,4,5)] ds(2) by (simp add: SendPackRecords_def)
qed

section \<open>Properties\<close>


text \<open>A codec for messages that carry only a type below 256 and data.\<close>

definition tinyMarshal :: "Msg \<Rightarrow> string + bytes" where
  "tinyMarshal m = (if mType m \<in> {0..255} \<and> m = zeroMsg\<lparr>mType := mType m, mData := mData m\<rparr> \<and> length (mData m) \<le> ChunkSize
     then Inr (char_of (nat (mType m)) # mData m) else Inl ''unsupported'')"

definition tinyUnmarshal :: "bytes \<Rightarrow> string + Msg" where
  "tinyUnmarshal b = (case b of [] \<Rightarrow> Inl ''empty'' | c # d \<Rightarrow> Inr (zeroMsg\<lparr>mType := of_char c, mData := d\<rparr>))"

definition tinyFMarshal :: "frame \<Rightarrow> string + bytes" where
  "tinyFMarshal f = (if length (frT f) = 1 then Inr (frT f @ frB f) else Inl ''unsupported'')"

definition tinyFUnmarshal :: "bytes \<Rightarrow> string + frame" where
  "tinyFUnmarshal b = Inr \<lparr>frT = take 1 b, frB = drop 1 b\<rparr>"

lemma tiny_codec: "codecOK tinyMarshal tinyUnmarshal" "codecOK tinyFMarshal tinyFUnmarshal"
proof -
  have t: "(of_char (char_of (nat t) :: char) :: int) = t" if "0 \<le> t" "t \<le> 255" for t
  proof -
    have "(of_char (char_of (nat t) :: char) :: int) = int (of_char (char_of (nat t) :: char))" by (rule of_nat_of_char [symmetric])
    also have "\<dots> = int (nat t mod 256)" by (simp only: of_char_char_of_mod)
    also have "\<dots> = t" using that by simp
    finally show ?thesis .
  qed
  show "codecOK tinyMarshal tinyUnmarshal"
    unfolding codecOK_def
  proof (intro allI impI)
    fix m b assume "tinyMarshal m = Inr b"
    then have m: "0 \<le> mType m" "mType m \<le> 255" "m = zeroMsg\<lparr>mType := mType m, mData := mData m\<rparr>" "b = char_of (nat (mType m)) # mData m"
      by (auto simp: tinyMarshal_def split: if_splits)
    have "tinyUnmarshal b = Inr (zeroMsg\<lparr>mType := mType m, mData := mData m\<rparr>)" by (simp add: tinyUnmarshal_def m(4) t [OF m(1,2)])
    with m(3) show "tinyUnmarshal b = Inr m" by simp
  qed
  show "codecOK tinyFMarshal tinyFUnmarshal" by (auto simp: codecOK_def tinyFMarshal_def tinyFUnmarshal_def)
qed


lemma tiny_fits: "chunksFit tinyMarshal"
  by (simp add: chunksFit_def tinyMarshal_def zeroMsg_def ChunkSize_def MaxFrame_def)

text \<open>C30: A pack survives the chunking, and a pack that stops short is never taken for a whole
  one. If no record fails, sending succeeds, and draining a pack reader with any buffer
  size over the frames returns exactly the bytes of the records and the trailer, however
  they fall on chunk boundaries, reports no error, and leaves the stream at the first byte
  after the end frame. If a record fails, so does the sender; once it has written an error
  frame, the reader returns a part of the bytes before the failure and then the sender's
  own error.\<close>

theorem pack_stream_roundtrip:
  assumes "codecOK marshal unmarshal" and "chunksFit marshal" and "WriteMsg marshal m = Inr t" and "mType m = TErr"
  shows "\<exists>b. case goodRecords recs of
      (None, good) \<Rightarrow> SendPackRecords marshal packRuns trailer recs = (None, b)
        \<and> prAll unmarshal k (NewPackReader (b @ rest)) =
            (concat (packRuns good) @ concat trailer, None, \<lparr>prStream = rest, prCur = [], prDone = True, prErr = None\<rparr>)
    | (Some err, good) \<Rightarrow> SendPackRecords marshal packRuns trailer recs = (Some (RecordErr err), b)
        \<and> (\<exists>bs p'. prAll unmarshal k (NewPackReader (b @ t @ rest)) = (bs, Some (PackRemote (RemoteFromMsg m)), p')
             \<and> prefix bs (concat (packRuns good)))"
proof -
  obtain e good where g: "goodRecords recs = (e, good)" by (rule prod.exhaust)
  show ?thesis
  proof (cases e)
    case None
    with g SendPackRecords_ok [OF assms(1,2), of recs good packRuns trailer] show ?thesis by auto
  next
    case (Some err)
    with g SendPackRecords_fails [OF assms(1,2) _ assms(3,4), of recs err good packRuns trailer] show ?thesis by auto
  qed
qed

theorem pack_stream_roundtrip_witness:
  "\<exists>b. SendPackRecords tinyMarshal id [''!''] [Inr ''ab'', Inr ''c''] = (None, b)
    \<and> prAll tinyUnmarshal 0 (NewPackReader (b @ ''z'')) = (''abc!'', None, \<lparr>prStream = ''z'', prCur = [], prDone = True, prErr = None\<rparr>)"
proof -
  have "WriteMsg tinyMarshal (zeroMsg\<lparr>mType := TErr\<rparr>) = Inr (PutUint32 1 @ [char_of (10 :: nat)])"
    by (simp add: WriteMsg_def tinyMarshal_def zeroMsg_def ChunkSize_def MaxFrame_def)
  from pack_stream_roundtrip [OF tiny_codec(1) tiny_fits this, where recs = "[Inr ''ab'', Inr ''c'']" and packRuns = id and trailer = "[''!'']" and k = 0 and rest = "''z''"] show ?thesis by simp
qed

end
