(* ===== verification/WantSync.thy ===== *)
theory WantSync
  imports Framing Complex_Main
begin

text \<open>
  The have/want loop (\<open>src/amberiroh/wantsync.go\<close>): the receiver asks for what it is
  missing round by round, the sender answers with packs.

  The object store and the tree format belong to amber-store-core and are the parameters
  of \<open>wsExt\<close>; the peer at the other end of the channels is the record \<open>peer\<close>, which may
  answer anything.  The packs of a round are decoded concurrently, so the receiver sees
  their objects in the order \<open>pMerge\<close> chooses.  If a write to the store fails, the
  decoders may stop early; then the round fails in any case, and the model decodes to
  the end.  Channel weights are compared as exact quotients.  The loop may run as long
  as the peer likes, so it has a bound on the rounds, and running out of it is \<open>None\<close>.
\<close>

datatype checkRes = CheckComplete | CheckMissing | CheckFault string

record 'w wsExt =
  wHas :: "'w \<Rightarrow> key \<Rightarrow> string + bool"
  wCheck :: "'w \<Rightarrow> key \<Rightarrow> checkRes"
  wChildKeys :: "key \<Rightarrow> bytes \<Rightarrow> string + key list"
  wWriteParallel :: "(key \<times> bytes) list \<Rightarrow> 'w \<Rightarrow> string option \<times> 'w"
  wKeyLength :: "key \<Rightarrow> nat"

section \<open>Choosing what to ask for\<close>

definition maxWantsPerRound :: nat where "maxWantsPerRound = 32 * 2 ^ 10"

definition splitWants :: "'k list \<Rightarrow> nat \<Rightarrow> 'k list \<times> 'k list" where
  "splitWants wants m = (if length wants \<le> m then (wants, []) else (take m wants, drop m wants))"

fun wantsLoop :: "'w wsExt \<Rightarrow> 'w \<Rightarrow> key set \<Rightarrow> key list \<Rightarrow> string + key list" where
  "wantsLoop x w seen [] = Inr []"
| "wantsLoop x w seen (k # ks) =
     (if k \<in> seen then wantsLoop x w seen ks
      else
        (let want = (case wantsLoop x w (insert k seen) ks of Inl err \<Rightarrow> Inl err | Inr ws \<Rightarrow> Inr (k # ws))
         in case wHas x w k of
              Inl err \<Rightarrow> Inl err
            | Inr False \<Rightarrow> want
            | Inr True \<Rightarrow>
                (case wCheck x w k of
                   CheckComplete \<Rightarrow> wantsLoop x w (insert k seen) ks
                 | CheckMissing \<Rightarrow> want
                 | CheckFault err \<Rightarrow> Inl err)))"

definition Wants :: "'w wsExt \<Rightarrow> 'w \<Rightarrow> key list \<Rightarrow> string + key list" where
  "Wants x w frontier = wantsLoop x w {} frontier"

definition encodeKeys :: "key list \<Rightarrow> bytes list" where
  "encodeKeys keys = map (\<lambda>k. k) keys"

fun decodeKeys :: "(bytes \<Rightarrow> key option) \<Rightarrow> bytes list \<Rightarrow> key list option" where
  "decodeKeys keyParse [] = Some []"
| "decodeKeys keyParse (b # bs) =
     (case keyParse b of None \<Rightarrow> None | Some k \<Rightarrow> map_option ((#) k) (decodeKeys keyParse bs))"

definition keyBytes :: "'w wsExt \<Rightarrow> key list \<Rightarrow> int" where
  "keyBytes x keys = fold (\<lambda>k n. i64 (n + int (wKeyLength x k))) keys 0"

definition shardWants :: "key list \<Rightarrow> nat \<Rightarrow> key list list" where
  "shardWants wants n =
     fold (\<lambda>(i, k) shards. shards[i mod n := shards ! (i mod n) @ [k]]) (enumerate 0 wants) (replicate n [])"

text \<open>The channel with the least assigned bytes per weight, the lowest index on a tie.\<close>

definition bestChannel :: "nat list \<Rightarrow> int list \<Rightarrow> nat" where
  "bestChannel assigned w =
     fold (\<lambda>i best. if (of_nat (assigned ! i) :: rat) / of_int (w ! i) < of_nat (assigned ! best) / of_int (w ! best) then i else best)
       [1..<length w] 0"

definition dealWants :: "'w wsExt \<Rightarrow> key list \<Rightarrow> int list \<Rightarrow> key list list" where
  "dealWants x wants weights =
     (let n = length weights in
      if n = 1 then [wants]
      else
        (let w = map (max 1) weights in
         fst (fold (\<lambda>k (shards, assigned).
                let best = bestChannel assigned w;
                    b = max 1 (wKeyLength x k)
                in (shards[best := shards ! best @ [k]], assigned[best := assigned ! best + b]))
              wants (replicate n [], replicate n 0))))"

definition checkDelivered :: "key set \<Rightarrow> key list \<Rightarrow> (nat \<times> key) option" where
  "checkDelivered received wants =
     (case filter (\<lambda>k. k \<notin> received) wants of [] \<Rightarrow> None | k # ks \<Rightarrow> Some (Suc (length ks), k))"

definition dedupeKeys :: "key list \<Rightarrow> key list" where
  "dedupeKeys keys = dedupBy (\<lambda>k. k) [] keys"

section \<open>Receiving\<close>

datatype packEnd = PackDone | PackRemoteErr RemoteError | PackBroken string

datatype rcvErr = RcvStore string | RcvSend string | RcvRemote RemoteError | RcvPacks "string list" | RcvOmitted nat key

type_synonym item = "key \<times> bytes \<times> key list"

record peer =
  pWrite :: "nat \<Rightarrow> nat \<Rightarrow> key list \<Rightarrow> string option"
  pReply :: "nat \<Rightarrow> nat \<Rightarrow> key list \<Rightarrow> (key \<times> bytes) list \<times> packEnd"
  pMerge :: "nat \<Rightarrow> item list list \<Rightarrow> item list"
  pWire :: "nat \<Rightarrow> nat \<Rightarrow> int"

record rcvStats =
  rsRounds :: nat
  rsRequested :: nat
  rsReceived :: nat
  rsBytes :: int

text \<open>One channel's pack: the objects with their children, up to the first that has none to read.\<close>

fun decodePack :: "'w wsExt \<Rightarrow> (key \<times> bytes) list \<Rightarrow> packEnd \<Rightarrow> item list \<times> packEnd" where
  "decodePack x [] e = ([], e)"
| "decodePack x ((k, b) # os) e =
     (case wChildKeys x k b of
        Inl err \<Rightarrow> ([], PackBroken err)
      | Inr kids \<Rightarrow> (let (is, e') = decodePack x os e in ((k, b, kids) # is, e')))"

text \<open>The shards that are not empty, with their channels.\<close>

definition activeShards :: "key list list \<Rightarrow> (nat \<times> key list) list" where
  "activeShards shards = filter (\<lambda>(i, sh). sh \<noteq> []) (enumerate 0 shards)"

fun firstErr :: "('a \<Rightarrow> 'e option) \<Rightarrow> 'a list \<Rightarrow> 'e option" where
  "firstErr f [] = None"
| "firstErr f (a # as) = (case f a of Some e \<Rightarrow> Some e | None \<Rightarrow> firstErr f as)"

definition roundErr :: "packEnd list \<Rightarrow> string option \<Rightarrow> key set \<Rightarrow> key list \<Rightarrow> rcvErr option" where
  "roundErr ends werr received wants =
     (case firstErr (\<lambda>e. case e of PackRemoteErr r \<Rightarrow> Some r | _ \<Rightarrow> None) ends of
        Some r \<Rightarrow> Some (RcvRemote r)
      | None \<Rightarrow>
          (let chanErrs = List.map_filter (\<lambda>e. case e of PackBroken err \<Rightarrow> Some err | _ \<Rightarrow> None) ends in
           if chanErrs \<noteq> [] then Some (RcvPacks chanErrs)
           else (case werr of
                   Some err \<Rightarrow> Some (RcvStore err)
                 | None \<Rightarrow> (case checkDelivered received wants of Some (n, k) \<Rightarrow> Some (RcvOmitted n k) | None \<Rightarrow> None))))"

text \<open>A round with something to ask for: its error, the children found, and the number of objects received.\<close>

definition receiveRound ::
  "'w wsExt \<Rightarrow> peer \<Rightarrow> nat \<Rightarrow> key list list \<Rightarrow> key list \<Rightarrow> 'w \<Rightarrow> rcvErr option \<times> key list \<times> nat \<times> 'w" where
  "receiveRound x p rd shards wants w =
     (let act = activeShards shards in
      case firstErr (\<lambda>(i, sh). pWrite p rd i sh) act of
        Some err \<Rightarrow> (Some (RcvSend err), [], 0, w)
      | None \<Rightarrow>
          (let packs = map (\<lambda>(i, sh). let (os, e) = pReply p rd i sh in decodePack x os e) act;
               items = pMerge p rd (map fst packs);
               (werr, w1) = wWriteParallel x (map (\<lambda>(k, b, kids). (k, b)) items) w;
               received = fst ` set items
           in (roundErr (map snd packs) werr received wants, concat (map (\<lambda>(k, b, kids). kids) items), card received, w1)))"

primrec receiveLoop ::
  "nat \<Rightarrow> 'w wsExt \<Rightarrow> peer \<Rightarrow> nat \<Rightarrow> nat \<Rightarrow> key list \<Rightarrow> int list \<Rightarrow> rcvStats \<Rightarrow> 'w \<Rightarrow> (rcvErr option \<times> rcvStats \<times> 'w) option" where
  "receiveLoop 0 x p n rd frontier prev st w = None"
| "receiveLoop (Suc fuel) x p n rd frontier prev st w =
     (case Wants x w frontier of
        Inl err \<Rightarrow> Some (Some (RcvStore err), st, w)
      | Inr ws \<Rightarrow>
          (let (wants, carry) = splitWants ws maxWantsPerRound;
               st1 = st\<lparr>rsRounds := rsRounds st + 1, rsRequested := rsRequested st + length wants\<rparr>;
               wires = map (pWire p rd) [0..<n]
           in if wants = [] then
                (case firstErr (\<lambda>i. pWrite p rd i []) [0..<n] of
                   Some err \<Rightarrow> Some (Some (RcvSend err), st1, w)
                 | None \<Rightarrow> Some (None, st1\<lparr>rsBytes := sum_list wires\<rparr>, w))
              else
                (let shards = dealWants x wants (map2 (-) wires prev);
                     (err, kids, got, w1) = receiveRound x p rd shards wants w;
                     st2 = st1\<lparr>rsReceived := rsReceived st1 + got\<rparr>
                 in case err of
                      Some e \<Rightarrow> Some (Some e, st2, w1)
                    | None \<Rightarrow> receiveLoop fuel x p n (Suc rd) (kids @ carry) wires st2 w1)))"

definition Receive :: "nat \<Rightarrow> 'w wsExt \<Rightarrow> peer \<Rightarrow> nat \<Rightarrow> key \<Rightarrow> 'w \<Rightarrow> (rcvErr option \<times> rcvStats \<times> 'w) option" where
  "Receive fuel x p n rootk w =
     receiveLoop fuel x p n 0 [rootk] (replicate n 0) \<lparr>rsRounds = 0, rsRequested = 0, rsReceived = 0, rsBytes = 0\<rparr> w"


section \<open>Sending\<close>

text \<open>The object store's read side: the order of keys on disk, the stored record of a key, and the
  check of its framing.\<close>

record sendExt =
  sKeyParse :: "bytes \<Rightarrow> key option"
  sSortByLocation :: "key list \<Rightarrow> key list"
  sGetRecord :: "key \<Rightarrow> string + bytes"
  sParseRecord :: "bytes \<Rightarrow> string option"
  sPackRuns :: "bytes list \<Rightarrow> bytes list"
  sTrailer :: "bytes list"
  sErrText :: "packSendErr \<Rightarrow> string"

datatype sendErr = SendRead frameErr | SendRemote RemoteError | SendProtocol int | SendKey | SendPack packSendErr

definition sendRecord :: "sendExt \<Rightarrow> key \<Rightarrow> string + bytes" where
  "sendRecord y k =
     (case sGetRecord y k of
        Inl err \<Rightarrow> Inl err
      | Inr rec \<Rightarrow> (case sParseRecord y rec of Some err \<Rightarrow> Inl err | None \<Rightarrow> Inr rec))"

definition answerWants :: "(Msg \<Rightarrow> string + bytes) \<Rightarrow> sendExt \<Rightarrow> key list \<Rightarrow> packSendErr option \<times> bytes" where
  "answerWants marshal y keys =
     SendPackRecords marshal (sPackRuns y) (sTrailer y) (map (sendRecord y) (sSortByLocation y (dedupeKeys keys)))"

text \<open>The peer's frames are the input stream; the result holds the error, what was sent, and the
  unread input.\<close>

function Send ::
  "(Msg \<Rightarrow> string + bytes) \<Rightarrow> (bytes \<Rightarrow> string + Msg) \<Rightarrow> sendExt \<Rightarrow> bytes \<Rightarrow> sendErr option \<times> bytes \<times> bytes" where
  "Send marshal unmarshal y s =
     (case ReadMsg unmarshal s of
        (Inl err, s1) \<Rightarrow> (Some (SendRead err), [], s1)
      | (Inr m, s1) \<Rightarrow>
          if mType m = TErr then (Some (SendRemote (RemoteFromMsg m)), [], s1)
          else if mType m \<noteq> TWants then (Some (SendProtocol (mType m)), [], s1)
          else if mKeys m = [] then (None, [], s1)
          else
            (case decodeKeys (sKeyParse y) (mKeys m) of
               None \<Rightarrow> (Some SendKey, [], s1)
             | Some keys \<Rightarrow>
                 (case answerWants marshal y keys of
                    (Some err, b) \<Rightarrow>
                      (let t = (case WriteMsg marshal (zeroMsg\<lparr>mType := TErr, mCode := ''internal'', mText := sErrText y err\<rparr>) of
                                  Inl _ \<Rightarrow> [] | Inr t \<Rightarrow> t)
                       in (Some (SendPack err), b @ t, s1))
                  | (None, b) \<Rightarrow>
                      (let (err, b', s2) = Send marshal unmarshal y s1 in (err, b @ b', s2)))))"
  by pat_completeness auto

termination by (relation "measure (\<lambda>(_, _, _, s). length s)") (auto dest: ReadMsg_shorter [OF sym])

declare Send.simps [simp del]

section \<open>Dealing keeps the wants\<close>

lemma bestChannel_less:
  assumes "w \<noteq> []"
  shows "bestChannel assigned w < length w"
proof -
  have "best < length w \<Longrightarrow> set is \<subseteq> {..<length w} \<Longrightarrow>
    fold (\<lambda>i best. if (of_nat (assigned ! i) :: rat) / of_int (w ! i) < of_nat (assigned ! best) / of_int (w ! best) then i else best) is best < length w"
    for "is" best
    by (induction "is" arbitrary: best) auto
  from this [of 0 "[1..<length w]"] assms show ?thesis unfolding bestChannel_def by fastforce
qed

lemma mset_concat_update:
  assumes "i < length xss"
  shows "mset (concat (xss[i := xss ! i @ [k]])) = add_mset k (mset (concat xss))"
proof -
  have "xss = take i xss @ xss ! i # drop (Suc i) xss" using assms by (simp add: id_take_nth_drop [symmetric])
  then have "mset (concat xss) = mset (concat (take i xss)) + mset (xss ! i) + mset (concat (drop (Suc i) xss))"
    by (metis (no_types, lifting) concat.simps(2) concat_append mset_append union_assoc)
  then show ?thesis by (simp add: upd_conv_take_nth_drop [OF assms])
qed

lemma deal_step:
  assumes "w \<noteq> []" and "length shards = length w"
  shows "mset (concat (fst (fold (\<lambda>k (shards, assigned).
      let best = bestChannel assigned w; b = max 1 (wKeyLength x k)
      in (shards[best := shards ! best @ [k]], assigned[best := assigned ! best + b])) wants (shards, assigned)))) =
    mset (concat shards) + mset wants"
  using assms
proof (induction wants arbitrary: shards assigned)
  case (Cons k wants)
  then show ?case
    using bestChannel_less [OF assms(1), of assigned] by (simp add: Let_def mset_concat_update)
qed simp

lemma concat_replicate_Nil: "concat (replicate n []) = []"
  by (induction n) auto

lemma dealWants_mset:
  assumes "weights \<noteq> []"
  shows "mset (concat (dealWants x wants weights)) = mset wants"
  using deal_step [of "map (max 1) weights" "replicate (length weights) []" x wants "replicate (length weights) 0"] assms
  by (simp add: dealWants_def Let_def concat_replicate_Nil)

lemma concat_nonempty: "concat (map snd (filter (\<lambda>(i, sh). sh \<noteq> []) ps)) = concat (map snd ps)"
  by (induction ps) auto

lemma activeShards_concat: "concat (map snd (activeShards shards)) = concat shards"
  by (simp add: activeShards_def concat_nonempty)

section \<open>What the loop asks for\<close>

lemma wantsLoop_Cons:
  assumes "wantsLoop x w seen (k # F) = Inr ws"
  obtains "k \<in> seen" "wantsLoop x w seen F = Inr ws"
  | "k \<notin> seen" "wCheck x w k = CheckComplete" "wantsLoop x w (insert k seen) F = Inr ws"
  | ws' where "k \<notin> seen" "wantsLoop x w (insert k seen) F = Inr ws'" "ws = k # ws'"
  using assms by (auto simp: Let_def split: if_splits sum.splits bool.splits checkRes.splits)

lemma wantsLoop_props:
  assumes "wantsLoop x w seen F = Inr ws"
  shows "set ws \<subseteq> set F - seen \<and> distinct ws \<and> mset ws \<subseteq># mset F
    \<and> (\<forall>k \<in> set F. k \<notin> seen \<longrightarrow> k \<notin> set ws \<longrightarrow> wCheck x w k = CheckComplete)"
  using assms
proof (induction F arbitrary: seen ws)
  case (Cons k F)
  from Cons.prems show ?case
  proof (cases rule: wantsLoop_Cons)
    case 1
    with Cons.IH [OF 1(2)] show ?thesis by (auto simp: subset_mset.le_iff_add)
  next
    case 2
    with Cons.IH [OF 2(3)] show ?thesis by (auto simp: subset_mset.le_iff_add)
  next
    case (3 ws')
    with Cons.IH [OF 3(2)] show ?thesis by auto
  qed
qed simp

lemma Wants_props:
  assumes "Wants x w F = Inr ws"
  shows "set ws \<subseteq> set F" and "mset ws \<subseteq># mset F"
    and "\<And>k. k \<in> set F \<Longrightarrow> k \<notin> set ws \<Longrightarrow> wCheck x w k = CheckComplete"
  using wantsLoop_props [OF assms [unfolded Wants_def]] by auto

lemma wantsLoop_total:
  assumes "\<And>k. \<exists>b. wHas x w k = Inr b" and "\<And>k err. wCheck x w k \<noteq> CheckFault err"
  shows "\<exists>ws. wantsLoop x w seen F = Inr ws"
proof (induction F arbitrary: seen)
  case (Cons k F)
  from assms(1) [of k] obtain b where b: "wHas x w k = Inr b" by blast
  from Cons [of seen] Cons [of "insert k seen"] assms(2) [of k] b show ?case
    by (cases "wCheck x w k"; cases b) (auto simp: Let_def)
qed simp

lemma splitWants_append: "splitWants ws m = (a, c) \<Longrightarrow> a @ c = ws"
  by (auto simp: splitWants_def split: if_splits)

lemma splitWants_empty: "splitWants ws maxWantsPerRound = ([], c) \<Longrightarrow> ws = []"
  by (auto simp: splitWants_def maxWantsPerRound_def split: if_splits)

section \<open>Completeness\<close>

text \<open>A tree is complete in a store when its root object is there and, recursively, the trees of all
  its children are.\<close>

inductive completeIn :: "(key \<rightharpoonup> bytes) \<Rightarrow> (key \<Rightarrow> bytes \<Rightarrow> string + key list) \<Rightarrow> key \<Rightarrow> bool"
  for objs childKeys where
  completeNode: "objs k = Some b \<Longrightarrow> childKeys k b = Inr kids \<Longrightarrow> (\<And>c. c \<in> set kids \<Longrightarrow> completeIn objs childKeys c) \<Longrightarrow>
    completeIn objs childKeys k"

inductive_cases completeInE: "completeIn objs childKeys k"

text \<open>What the loop relies on of the object store, over the objects \<open>stored w\<close> in it:
  \<open>fstree.CheckComplete\<close> succeeds exactly on complete trees, a write keeps what is stored,
  and a write that succeeds has stored all its objects.\<close>

definition wsLaws :: "'w wsExt \<Rightarrow> ('w \<Rightarrow> key \<rightharpoonup> bytes) \<Rightarrow> bool" where
  "wsLaws x stored \<longleftrightarrow>
     (\<forall>w k. wCheck x w k = CheckComplete \<longleftrightarrow> completeIn (stored w) (wChildKeys x) k)
     \<and> (\<forall>os w. stored w \<subseteq>\<^sub>m stored (snd (wWriteParallel x os w)))
     \<and> (\<forall>os w. fst (wWriteParallel x os w) = None \<longrightarrow> (\<forall>(k, b) \<in> set os. stored (snd (wWriteParallel x os w)) k = Some b))"

text \<open>The merge channel delivers what the decoders put into it, in some order.\<close>

definition mergeLaw :: "peer \<Rightarrow> bool" where
  "mergeLaw p \<longleftrightarrow> (\<forall>rd its. mset (pMerge p rd its) = mset (concat its))"

lemma completeIn_mono: "completeIn objs ck k \<Longrightarrow> objs \<subseteq>\<^sub>m objs' \<Longrightarrow> completeIn objs' ck k"
  by (induction rule: completeIn.induct) (metis completeNode domI map_le_def)

lemma map_le_Some: "m k = Some v \<Longrightarrow> m \<subseteq>\<^sub>m m' \<Longrightarrow> m' k = Some v"
  by (metis domI map_le_def)

lemma decodePack_kids: "(k, b, kids) \<in> set (fst (decodePack x os e)) \<Longrightarrow> wChildKeys x k b = Inr kids"
  by (induction x os e rule: decodePack.induct) (auto split: sum.splits prod.splits)

lemma checkDelivered_None: "checkDelivered received wants = None \<longleftrightarrow> set wants \<subseteq> received"
  by (auto simp: checkDelivered_def filter_empty_conv split: list.split) (metis filter_eq_Cons_iff in_set_conv_decomp subsetD)

lemma roundErr_None:
  assumes "roundErr ends werr received wants = None"
  shows "werr = None" and "set wants \<subseteq> received"
  using assms
  by (auto simp: roundErr_def Let_def checkDelivered_None [symmetric] split: option.splits if_splits)

lemma wsLaws_stores:
  assumes "wsLaws x stored" and "fst (wWriteParallel x os w) = None" and "(k, b) \<in> set os"
  shows "stored (snd (wWriteParallel x os w)) k = Some b"
  using assms unfolding wsLaws_def by blast

lemma receiveRound_grows:
  assumes "wsLaws x stored" and "receiveRound x p rd shards wants w = (e, kids, got, w1)"
  shows "stored w \<subseteq>\<^sub>m stored w1"
  using assms by (auto simp: receiveRound_def wsLaws_def Let_def split: option.splits prod.splits) (metis snd_conv)

lemma receiveRound_delivers:
  assumes "wsLaws x stored" and "mergeLaw p" and "receiveRound x p rd shards wants w = (None, kids, got, w1)"
    and "k \<in> set wants"
  shows "\<exists>b ks. stored w1 k = Some b \<and> wChildKeys x k b = Inr ks \<and> set ks \<subseteq> set kids"
proof -
  let ?packs = "map (\<lambda>(i, sh). let (os, e) = pReply p rd i sh in decodePack x os e) (activeShards shards)"
  let ?items = "pMerge p rd (map fst ?packs)"
  let ?os = "map (\<lambda>(k, b, kids). (k, b)) ?items"
  from assms(3) have r: "roundErr (map snd ?packs) (fst (wWriteParallel x ?os w)) (fst ` set ?items) wants = None"
    "kids = concat (map (\<lambda>(k, b, kids). kids) ?items)" "w1 = snd (wWriteParallel x ?os w)"
    by (auto simp: receiveRound_def Let_def split: option.splits prod.splits)
  from roundErr_None [OF r(1)] assms(4) obtain b ks where i: "(k, b, ks) \<in> set ?items" and n: "fst (wWriteParallel x ?os w) = None"
    by force
  have "set ?items = set (concat (map fst ?packs))" using assms(2) unfolding mergeLaw_def by (metis set_mset_mset)
  with i have "(k, b, ks) \<in> (\<Union>(i, sh) \<in> set (activeShards shards). set (fst (case pReply p rd i sh of (os, e) \<Rightarrow> decodePack x os e)))"
    by (simp add: Let_def case_prod_unfold)
  then have "wChildKeys x k b = Inr ks" by (auto simp: case_prod_unfold dest: decodePack_kids)
  moreover have "(k, b) \<in> set ?os" using i by force
  then have "stored w1 k = Some b" unfolding r(3) by (rule wsLaws_stores [OF assms(1) n])
  moreover have "set ks \<subseteq> set kids" unfolding r(2) using i by force
  ultimately show ?thesis by blast
qed

text \<open>The ways one turn of the loop ends: at once, with the store as it was; with the error of the
  round; or in the next turn.\<close>

lemma receiveLoop_SucE:
  assumes "receiveLoop (Suc fuel) x p n rd F prev st w = Some (e, st', w')"
  obtains "w' = w" "e \<noteq> None \<or> Wants x w F = Inr []"
  | ws a c err kids got where "Wants x w F = Inr ws" "splitWants ws maxWantsPerRound = (a, c)"
      "receiveRound x p rd (dealWants x a (map2 (-) (map (pWire p rd) [0..<n]) prev)) a w = (Some err, kids, got, w')" "e = Some err"
  | ws a c kids got w1 prev' st2 where "Wants x w F = Inr ws" "splitWants ws maxWantsPerRound = (a, c)"
      "receiveRound x p rd (dealWants x a (map2 (-) (map (pWire p rd) [0..<n]) prev)) a w = (None, kids, got, w1)"
      "receiveLoop fuel x p n (Suc rd) (kids @ c) prev' st2 w1 = Some (e, st', w')"
proof (cases "Wants x w F")
  case (Inl err)
  with assms that(1) show ?thesis by auto
next
  case (Inr ws)
  obtain a c where ac: "splitWants ws maxWantsPerRound = (a, c)" by (rule prod.exhaust)
  show ?thesis
  proof (cases "a = []")
    case True
    with assms Inr ac splitWants_empty [of ws c] that(1) show ?thesis by (auto simp: Let_def split: option.splits)
  next
    case False
    obtain err kids got w1 where r: "receiveRound x p rd (dealWants x a (map2 (-) (map (pWire p rd) [0..<n]) prev)) a w = (err, kids, got, w1)"
      by (metis prod.exhaust)
    show ?thesis
    proof (cases err)
      case None
      with assms Inr ac False r show ?thesis by (intro that(3) [OF Inr ac]) (auto simp: Let_def)
    next
      case (Some er)
      with assms Inr ac False r have "w1 = w'" "e = Some er" by (simp_all add: Let_def)
      with Some r show ?thesis by (intro that(2) [OF Inr ac]) simp_all
    qed
  qed
qed

lemma receiveLoop_grows:
  assumes "wsLaws x stored" and "receiveLoop fuel x p n rd F prev st w = Some (e, st', w')"
  shows "stored w \<subseteq>\<^sub>m stored w'"
  using assms(2)
proof (induction fuel arbitrary: rd F prev st w)
  case (Suc fuel)
  from Suc.prems show ?case
  proof (cases rule: receiveLoop_SucE)
    case 1
    then show ?thesis by simp
  next
    case (2 ws a c err kids got)
    then show ?thesis using receiveRound_grows [OF assms(1)] by blast
  next
    case (3 ws a c kids got w1 prev' st2)
    then show ?thesis using receiveRound_grows [OF assms(1) 3(3)] Suc.IH map_le_trans by blast
  qed
qed simp

lemma receiveLoop_complete:
  assumes "wsLaws x stored" and "mergeLaw p"
    and "receiveLoop fuel x p n rd F prev st w = Some (None, st', w')" and "k \<in> set F"
  shows "completeIn (stored w') (wChildKeys x) k"
  using assms(3,4)
proof (induction fuel arbitrary: rd F prev st w k)
  case (Suc fuel)
  have le: "stored w \<subseteq>\<^sub>m stored w'" using receiveLoop_grows [OF assms(1) Suc.prems(1)] .
  have had: "completeIn (stored w') (wChildKeys x) k" if "Wants x w F = Inr ws" "k \<notin> set ws" for ws
    using Wants_props(3) [OF that(1) Suc.prems(2) that(2)] assms(1) le completeIn_mono unfolding wsLaws_def by blast
  from Suc.prems(1) show ?case
  proof (cases rule: receiveLoop_SucE)
    case 1
    then show ?thesis using had by auto
  next
    case (3 ws a c kids got w1 prev' st2)
    note IH = Suc.IH [OF 3(4)]
    have "set ws = set a \<union> set c" using splitWants_append [OF 3(2)] by auto
    then consider "k \<notin> set ws" | "k \<in> set c" | "k \<in> set a" by blast
    then show ?thesis
    proof cases
      case 1
      then show ?thesis by (rule had [OF 3(1)])
    next
      case 2
      then show ?thesis using IH by simp
    next
      case k: 3
      from receiveRound_delivers [OF assms(1,2) 3(3) k] obtain b ks where
        b: "stored w1 k = Some b" "wChildKeys x k b = Inr ks" "set ks \<subseteq> set kids" by blast
      have "stored w' k = Some b" by (rule map_le_Some [of "stored w1", OF b(1) receiveLoop_grows [OF assms(1) 3(4)]])
      then show ?thesis using b(2,3) IH by (auto intro: completeNode)
    qed
  qed auto
qed simp

section \<open>An honest peer\<close>

text \<open>The other end runs \<open>Send\<close> over a store \<open>src\<close>: it returns every requested object it has,
  in the order it likes, and the channels work.\<close>

definition honestPeer :: "peer \<Rightarrow> (key \<rightharpoonup> bytes) \<Rightarrow> bool" where
  "honestPeer p src \<longleftrightarrow>
     (\<forall>rd i ks. pWrite p rd i ks = None)
     \<and> (\<forall>rd i ks. (\<forall>k \<in> set ks. src k \<noteq> None) \<longrightarrow>
          (\<exists>ks'. mset ks' = mset ks \<and> pReply p rd i ks = (map (\<lambda>k. (k, the (src k))) ks', PackDone)))"

text \<open>The receiver's store works: no lookup fails, and objects of \<open>src\<close> can be written.\<close>

definition storeWorks :: "'w wsExt \<Rightarrow> (key \<rightharpoonup> bytes) \<Rightarrow> bool" where
  "storeWorks x src \<longleftrightarrow>
     (\<forall>w k. \<exists>b. wHas x w k = Inr b)
     \<and> (\<forall>w k err. wCheck x w k \<noteq> CheckFault err)
     \<and> (\<forall>os w. (\<forall>(k, b) \<in> set os. src k = Some b) \<longrightarrow> fst (wWriteParallel x os w) = None)"

text \<open>The children of a complete tree of \<open>src\<close>, as a relation and as a list.\<close>

definition childRel :: "(key \<rightharpoonup> bytes) \<Rightarrow> (key \<Rightarrow> bytes \<Rightarrow> string + key list) \<Rightarrow> (key \<times> key) set" where
  "childRel src ck = {(c, k). completeIn src ck k \<and> (\<exists>b kids. src k = Some b \<and> ck k b = Inr kids \<and> c \<in> set kids)}"

definition kidsOf :: "(key \<rightharpoonup> bytes) \<Rightarrow> (key \<Rightarrow> bytes \<Rightarrow> string + key list) \<Rightarrow> key \<Rightarrow> key list" where
  "kidsOf src ck k = (case src k of None \<Rightarrow> [] | Some b \<Rightarrow> (case ck k b of Inl _ \<Rightarrow> [] | Inr kids \<Rightarrow> kids))"

lemma completeIn_kids:
  assumes "completeIn src ck k"
  shows "src k = Some (the (src k)) \<and> ck k (the (src k)) = Inr (kidsOf src ck k) \<and> (\<forall>c \<in> set (kidsOf src ck k). completeIn src ck c)"
  using assms by (cases rule: completeIn.cases) (simp add: kidsOf_def)

lemma childRel_kids: "completeIn src ck k \<Longrightarrow> c \<in> set (kidsOf src ck k) \<Longrightarrow> (c, k) \<in> childRel src ck"
  using completeIn_kids [of src ck k] unfolding childRel_def by blast

lemma wf_childRel: "wf (childRel src ck)"
proof (rule wfUNIVI)
  fix P k
  assume step: "\<forall>k. (\<forall>c. (c, k) \<in> childRel src ck \<longrightarrow> P c) \<longrightarrow> P k"
  have "P k" if "completeIn src ck k" for k
    using that
  proof (induction rule: completeIn.induct)
    case (completeNode k b kids)
    then have "P c" if "(c, k) \<in> childRel src ck" for c using that unfolding childRel_def by auto
    then show ?case using step by blast
  qed
  moreover have "P k" if "\<not> completeIn src ck k" for k using step that unfolding childRel_def by blast
  ultimately show "P k" by blast
qed

lemma decodePack_honest:
  assumes "\<forall>k \<in> set ks. completeIn src (wChildKeys x) k"
  shows "decodePack x (map (\<lambda>k. (k, the (src k))) ks) PackDone =
    (map (\<lambda>k. (k, the (src k), kidsOf src (wChildKeys x) k)) ks, PackDone)"
  using assms
proof (induction ks)
  case (Cons k ks)
  then show ?case using completeIn_kids [of src "wChildKeys x" k] by (simp split: sum.split)
qed simp

lemma firstErr_None: "firstErr f as = None \<longleftrightarrow> (\<forall>a \<in> set as. f a = None)"
  by (induction as) (auto split: option.splits)

lemma roundErr_ok:
  assumes "\<forall>e \<in> set ends. e = PackDone" and "set wants \<subseteq> received"
  shows "roundErr ends None received wants = None"
proof -
  have "List.map_filter (\<lambda>e. case e of PackBroken err \<Rightarrow> Some err | _ \<Rightarrow> None) ends = []"
    using assms(1) by (induction ends) (auto simp: List.map_filter_def)
  moreover have "firstErr (\<lambda>e. case e of PackRemoteErr r \<Rightarrow> Some r | _ \<Rightarrow> None) ends = None"
    using assms(1) by (auto simp: firstErr_None)
  ultimately show ?thesis using assms(2) by (simp add: roundErr_def checkDelivered_None [symmetric])
qed

text \<open>The packs of an honest peer, merged: every wanted object once, with its children.\<close>

lemma honest_packs:
  fixes rd :: nat
  assumes "honestPeer p src" and "\<forall>(i, sh) \<in> set act. \<forall>k \<in> set sh. completeIn src (wChildKeys x) k"
  defines "packs \<equiv> map (\<lambda>(i, sh). let (os, e) = pReply p rd i sh in decodePack x os e) act"
  shows "(\<forall>e \<in> set (map snd packs). e = PackDone)
    \<and> mset (concat (map fst packs)) = image_mset (\<lambda>k. (k, the (src k), kidsOf src (wChildKeys x) k)) (mset (concat (map snd act)))"
  unfolding packs_def using assms(2)
proof (induction act)
  case (Cons a act)
  obtain i sh where a: "a = (i, sh)" by (rule prod.exhaust)
  have c: "\<forall>k \<in> set sh. completeIn src (wChildKeys x) k" using Cons.prems a by simp
  then have "\<forall>k \<in> set sh. src k \<noteq> None" using completeIn_kids by fastforce
  with assms(1) obtain ks where ks: "mset ks = mset sh" "pReply p rd i sh = (map (\<lambda>k. (k, the (src k))) ks, PackDone)"
    unfolding honestPeer_def by blast
  have "\<forall>k \<in> set ks. completeIn src (wChildKeys x) k" using c mset_eq_setD [OF ks(1)] by simp
  from decodePack_honest [OF this] Cons ks(2) a show ?case by (simp flip: ks(1))
qed simp

lemma receiveRound_written:
  assumes "firstErr (\<lambda>(i, sh). pWrite p rd i sh) (activeShards shards) = None"
    and "packs = map (\<lambda>(i, sh). let (os, e) = pReply p rd i sh in decodePack x os e) (activeShards shards)"
    and "items = pMerge p rd (map fst packs)" and "os = map (\<lambda>(k, b, kids). (k, b)) items"
  shows "receiveRound x p rd shards wants w =
    (roundErr (map snd packs) (fst (wWriteParallel x os w)) (fst ` set items) wants,
     concat (map (\<lambda>(k, b, kids). kids) items), card (fst ` set items), snd (wWriteParallel x os w))"
  unfolding receiveRound_def assms(1) Let_def assms(2-4) option.case by (simp only: case_prod_unfold)

lemma honest_round:
  assumes "honestPeer p src" and "storeWorks x src" and "mergeLaw p"
    and "mset (concat shards) = mset a" and "\<forall>k \<in> set a. completeIn src (wChildKeys x) k"
  shows "\<exists>kids got w1. receiveRound x p rd shards a w = (None, kids, got, w1)
    \<and> (\<forall>c \<in> set kids. \<exists>k \<in> set a. c \<in> set (kidsOf src (wChildKeys x) k))"
proof -
  let ?packs = "map (\<lambda>(i, sh). let (os, e) = pReply p rd i sh in decodePack x os e) (activeShards shards)"
  let ?items = "pMerge p rd (map fst ?packs)"
  let ?os = "map (\<lambda>(k, b, kids). (k, b)) ?items"
  let ?f = "\<lambda>k. (k, the (src k), kidsOf src (wChildKeys x) k)"
  have sa: "set (concat (map snd (activeShards shards))) = set a"
    unfolding activeShards_concat using mset_eq_setD [OF assms(4)] .
  then have "\<forall>(i, sh) \<in> set (activeShards shards). \<forall>k \<in> set sh. completeIn src (wChildKeys x) k"
    using assms(5) by fastforce
  note hp = honest_packs [OF assms(1) this, of rd]
  have "mset ?items = image_mset ?f (mset (concat (map snd (activeShards shards))))"
    by (rule trans [OF assms(3) [unfolded mergeLaw_def, rule_format] hp [THEN conjunct2]])
  from arg_cong [OF this, of set_mset] have it: "set ?items = ?f ` set a"
    unfolding set_image_mset set_mset_mset sa .
  have "\<forall>(k, b) \<in> set ?os. src k = Some b" using it assms(5) completeIn_kids by fastforce
  then have wr: "fst (wWriteParallel x ?os w) = None" using assms(2) unfolding storeWorks_def by blast
  have fe: "firstErr (\<lambda>(i, sh). pWrite p rd i sh) (activeShards shards) = None"
    using assms(1) unfolding honestPeer_def firstErr_None by auto
  have "set a \<subseteq> fst ` set ?items" unfolding it by force
  with hp [THEN conjunct1] have "roundErr (map snd ?packs) (fst (wWriteParallel x ?os w)) (fst ` set ?items) a = None"
    unfolding wr by (rule roundErr_ok)
  with receiveRound_written [OF fe refl refl refl, of x a w] have "receiveRound x p rd shards a w =
      (None, concat (map (\<lambda>(k, b, kids). kids) ?items), card (fst ` set ?items), snd (wWriteParallel x ?os w))"
    by (simp only:)
  moreover have "\<forall>c \<in> set (concat (map (\<lambda>(k, b, kids). kids) ?items)). \<exists>k \<in> set a. c \<in> set (kidsOf src (wChildKeys x) k)"
    using it by auto
  ultimately show ?thesis by blast
qed

text \<open>Every round replaces wanted keys by their children, so the frontier goes down in the multiset
  order.\<close>

lemma frontier_descends:
  assumes "mset (a @ c) \<subseteq># mset F" and "a \<noteq> []"
    and "\<forall>d \<in> set kids. \<exists>k \<in> set a. (d, k) \<in> r"
  shows "(mset (kids @ c), mset F) \<in> mult r"
proof -
  from assms(1) obtain R where R: "mset F = mset c + (mset a + R)" by (auto simp: subset_mset.le_iff_add ac_simps)
  have "(mset c + mset kids, mset c + (mset a + R)) \<in> mult r"
    by (rule one_step_implies_mult) (use assms(2,3) in auto)
  then show ?thesis by (simp add: R ac_simps)
qed

lemma honest_loop_ends:
  assumes "honestPeer p src" and "storeWorks x src" and "mergeLaw p" and "0 < n"
  shows "length prev = n \<Longrightarrow> \<forall>k \<in> set F. completeIn src (wChildKeys x) k \<Longrightarrow>
    \<exists>fuel st' w'. receiveLoop fuel x p n rd F prev st w = Some (None, st', w')"
proof (induction "mset F" arbitrary: F rd prev st w rule: wf_induct_rule [OF wf_mult [OF wf_childRel [of src "wChildKeys x"]]])
  case 1
  from wantsLoop_total [of x w "{}" F] assms(2) obtain ws where ws: "Wants x w F = Inr ws"
    unfolding storeWorks_def Wants_def by blast
  obtain a c where ac: "splitWants ws maxWantsPerRound = (a, c)" by (rule prod.exhaust)
  have aF: "set (a @ c) \<subseteq> set F" "mset (a @ c) \<subseteq># mset F"
    using Wants_props(1,2) [OF ws] splitWants_append [OF ac] by simp_all
  show ?case
  proof (cases "a = []")
    case True
    have "firstErr (\<lambda>i. pWrite p rd i []) [0..<n] = None" using assms(1) unfolding honestPeer_def firstErr_None by blast
    with True ws ac show ?thesis by (intro exI [of _ "Suc 0"]) (simp add: Let_def)
  next
    case False
    let ?wires = "map (pWire p rd) [0..<n]"
    let ?shards = "dealWants x a (map2 (-) ?wires prev)"
    have "length (map2 (-) ?wires prev) = n" using 1(2) by simp
    then have "map2 (-) ?wires prev \<noteq> []" using assms(4) by force
    then have sh: "mset (concat ?shards) = mset a" by (rule dealWants_mset)
    have ca: "\<forall>k \<in> set a. completeIn src (wChildKeys x) k" using aF(1) 1(3) by auto
    from honest_round [OF assms(1,2,3) sh ca, of rd w] obtain kids got w1 where
      r: "receiveRound x p rd ?shards a w = (None, kids, got, w1)"
        "\<forall>d \<in> set kids. \<exists>k \<in> set a. d \<in> set (kidsOf src (wChildKeys x) k)" by blast
    have kc: "completeIn src (wChildKeys x) d" "\<exists>k \<in> set a. (d, k) \<in> childRel src (wChildKeys x)" if "d \<in> set kids" for d
      using r(2) that ca completeIn_kids childRel_kids by blast+
    have "(mset (kids @ c), mset F) \<in> mult (childRel src (wChildKeys x))"
      by (rule frontier_descends [OF aF(2) False]) (use kc(2) in blast)
    moreover have "\<forall>k \<in> set (kids @ c). completeIn src (wChildKeys x) k" using kc(1) aF(1) 1(3) by auto
    ultimately obtain fuel st' w' where "receiveLoop fuel x p n (Suc rd) (kids @ c) ?wires
        (st\<lparr>rsRounds := rsRounds st + 1, rsRequested := rsRequested st + length a, rsReceived := rsReceived st + got\<rparr>) w1 = Some (None, st', w')"
      using 1(1) [of "kids @ c" ?wires] by (metis diff_zero length_map length_upt)
    with ws ac False r(1) show ?thesis by (intro exI [of _ "Suc fuel"]) (simp add: Let_def)
  qed
qed

section \<open>Answering\<close>

lemma decodeKeys_encodeKeys: "\<forall>k \<in> set ks. keyParse k = Some k \<Longrightarrow> decodeKeys keyParse (encodeKeys ks) = Some ks"
  unfolding encodeKeys_def by (induction ks) auto

lemma dedupeKeys_mset: "mset (dedupeKeys ks) = mset (remdups ks)"
proof -
  have "distinct (dedupeKeys ks)" using distinct_dedupBy [of "\<lambda>k. k" "[]" ks] by (simp add: dedupeKeys_def)
  moreover have "set (dedupeKeys ks) = set ks" using set_dedupBy [of "\<lambda>k. k" "[]" ks] by (simp add: dedupeKeys_def)
  ultimately show ?thesis by (metis distinct_remdups set_eq_iff_mset_eq_distinct set_remdups)
qed

lemma goodRecords_all: "\<forall>k \<in> set ks. sendRecord y k = Inr (rec k) \<Longrightarrow> goodRecords (map (sendRecord y) ks) = (None, map rec ks)"
  by (induction ks) auto

section \<open>A concrete store\<close>

text \<open>A content-addressed store that knows the tree \<open>r\<close> with the leaves \<open>a\<close> and \<open>b\<close>; its state is
  the list of the keys it has, and a write verifies the bytes against the key.\<close>

definition demoContent :: "key \<Rightarrow> bytes" where
  "demoContent k = (if k = ''r'' then ''ab'' else [])"

definition demoStored :: "key list \<Rightarrow> key \<rightharpoonup> bytes" where
  "demoStored w k = (if k \<in> set w then Some (demoContent k) else None)"

definition demoWs :: "key list wsExt" where
  "demoWs = \<lparr>wHas = (\<lambda>w k. Inr (k \<in> set w)),
     wCheck = (\<lambda>w k. if k \<in> set w \<and> (k = ''r'' \<longrightarrow> ''a'' \<in> set w \<and> ''b'' \<in> set w) then CheckComplete else CheckMissing),
     wChildKeys = (\<lambda>k b. Inr (if k = ''r'' then [''a'', ''b''] else [])),
     wWriteParallel = (\<lambda>os w. if list_all (\<lambda>(k, b). b = demoContent k) os then (None, map fst os @ w) else (Some ''verify'', w)),
     wKeyLength = length\<rparr>"

definition demoPeer :: peer where
  "demoPeer = \<lparr>pWrite = (\<lambda>_ _ _. None), pReply = (\<lambda>_ _ ks. (map (\<lambda>k. (k, demoContent k)) ks, PackDone)),
     pMerge = (\<lambda>_. concat), pWire = (\<lambda>rd i. 0)\<rparr>"

lemma demo_completeIn:
  "completeIn (demoStored w) (wChildKeys demoWs) k \<longleftrightarrow> k \<in> set w \<and> (k = ''r'' \<longrightarrow> ''a'' \<in> set w \<and> ''b'' \<in> set w)"
proof -
  have leaf: "completeIn (demoStored w) (wChildKeys demoWs) k \<longleftrightarrow> k \<in> set w" if "k \<noteq> ''r''" for k
    using that by (subst completeIn.simps) (auto simp: demoStored_def demoWs_def)
  have "wChildKeys demoWs ''r'' b = Inr [''a'', ''b'']" for b by (simp add: demoWs_def)
  then have "completeIn (demoStored w) (wChildKeys demoWs) ''r'' \<longleftrightarrow> ''r'' \<in> set w
      \<and> completeIn (demoStored w) (wChildKeys demoWs) ''a'' \<and> completeIn (demoStored w) (wChildKeys demoWs) ''b''"
    by (subst completeIn.simps) (auto simp: demoStored_def)
  with leaf show ?thesis by (cases "k = ''r''") simp_all
qed

lemma demo_wsLaws: "wsLaws demoWs demoStored"
  unfolding wsLaws_def demo_completeIn
  by (auto simp: demoWs_def demoStored_def map_le_def list_all_iff split: if_splits) force+

lemma demo_peer: "mergeLaw demoPeer" "honestPeer demoPeer (Some \<circ> demoContent)" "storeWorks demoWs (Some \<circ> demoContent)"
  unfolding mergeLaw_def honestPeer_def storeWorks_def
  by (auto simp: demoPeer_def demoWs_def list_all_iff)

section \<open>Properties\<close>

text \<open>C15: A transfer that succeeds leaves the whole tree in the store. Whatever the peer answers,
  in whatever order the channels deliver, and however the wants are split over rounds and
  channels: if \<open>Receive\<close> returns without error, then the root and everything reachable
  from it is stored. An omitted object, a broken pack or a failed write never passes as
  success, and nothing that was stored before is lost, error or not.\<close>

theorem receive_complete:
  assumes "wsLaws x stored" and "mergeLaw p" and "Receive fuel x p n rootk w = Some (e, st, w')"
  shows "stored w \<subseteq>\<^sub>m stored w' \<and> (e = None \<longrightarrow> completeIn (stored w') (wChildKeys x) rootk)"
  using receiveLoop_grows [OF assms(1) assms(3) [unfolded Receive_def]]
    receiveLoop_complete [OF assms(1,2), of fuel n 0 "[rootk]"] assms(3)
  unfolding Receive_def by auto

theorem receive_complete_witness:
  "Receive 3 demoWs demoPeer 1 ''r'' [''a''] =
     Some (None, \<lparr>rsRounds = 3, rsRequested = 2, rsReceived = 2, rsBytes = 0\<rparr>, [''b'', ''r'', ''a''])
   \<and> completeIn (demoStored [''b'', ''r'', ''a'']) (wChildKeys demoWs) ''r''"
proof -
  have r: "Receive 3 demoWs demoPeer 1 ''r'' [''a''] =
     Some (None, \<lparr>rsRounds = 3, rsRequested = 2, rsReceived = 2, rsBytes = 0\<rparr>, [''b'', ''r'', ''a''])"
    by (simp add: Receive_def numeral_3_eq_3 Wants_def Let_def splitWants_def maxWantsPerRound_def dealWants_def receiveRound_def activeShards_def
        enumerate_eq_zip roundErr_def checkDelivered_def List.map_filter_def demoWs_def demoPeer_def demoContent_def)
  from receive_complete [OF demo_wsLaws demo_peer(1) r] r show ?thesis by blast
qed

text \<open>C16: A transfer from an honest peer ends. If the other end has the complete tree and returns
  what it is asked for, and the local store works, then the rounds come to an end with
  success and the tree is stored, whatever part of it was there before.\<close>

theorem receive_finishes:
  assumes "wsLaws x stored" and "mergeLaw p" and "honestPeer p src" and "storeWorks x src" and "0 < n"
    and "completeIn src (wChildKeys x) rootk"
  shows "\<exists>fuel st w'. Receive fuel x p n rootk w = Some (None, st, w') \<and> completeIn (stored w') (wChildKeys x) rootk"
proof -
  obtain fuel st w' where r: "receiveLoop fuel x p n 0 [rootk] (replicate n 0)
      \<lparr>rsRounds = 0, rsRequested = 0, rsReceived = 0, rsBytes = 0\<rparr> w = Some (None, st, w')"
    using honest_loop_ends [OF assms(3,4,2,5), of "replicate n 0" "[rootk]"] assms(6) by fastforce
  from receiveLoop_complete [OF assms(1,2) r] r show ?thesis unfolding Receive_def by auto
qed

theorem receive_finishes_witness:
  "\<exists>fuel st w'. Receive fuel demoWs demoPeer 2 ''r'' [''b''] = Some (None, st, w')
    \<and> completeIn (demoStored w') (wChildKeys demoWs) ''r''"
proof (rule receive_finishes [OF demo_wsLaws demo_peer])
  have "completeIn (demoStored [''r'', ''a'', ''b'']) (wChildKeys demoWs) ''r''" by (simp add: demo_completeIn)
  then show "completeIn (Some \<circ> demoContent) (wChildKeys demoWs) ''r''"
    by (rule completeIn_mono) (auto simp: map_le_def demoStored_def dom_def split: if_splits)
qed simp

definition demoSend :: sendExt where
  "demoSend = \<lparr>sKeyParse = Some, sSortByLocation = rev, sGetRecord = (\<lambda>k. if k = ''x'' then Inl ''not found'' else Inr (k @ demoContent k)),
     sParseRecord = (\<lambda>_. None), sPackRuns = id, sTrailer = [''!''], sErrText = (\<lambda>_. ''failed'')\<rparr>"

text \<open>C31: \<open>Send\<close> answers a round of wants with one pack of exactly the requested objects. Each
  key is answered once, however often it was asked for, the pack reads back whole at the
  other end, and the loop goes on with the next frame; an empty round ends it.\<close>

theorem send_answers_wants:
  assumes "codecOK marshal unmarshal" and "chunksFit marshal"
    and "WriteMsg marshal (zeroMsg\<lparr>mType := TWants, mKeys := encodeKeys ks\<rparr>) = Inr q" and "\<forall>k \<in> set ks. sKeyParse y k = Some k"
    and "\<forall>k \<in> set ks. sendRecord y k = Inr (rec k)" and "\<forall>xs. mset (sSortByLocation y xs) = mset xs"
  shows "if ks = [] then Send marshal unmarshal y (q @ s) = (None, [], s)
    else \<exists>b ks'. mset ks' = mset (remdups ks)
      \<and> Send marshal unmarshal y (q @ s) = (let (e, b', s') = Send marshal unmarshal y s in (e, b @ b', s'))
      \<and> prAll unmarshal n (NewPackReader (b @ rest)) =
          (concat (sPackRuns y (map rec ks')) @ concat (sTrailer y), None, \<lparr>prStream = rest, prCur = [], prDone = True, prErr = None\<rparr>)"
proof (cases "ks = []")
  case True
  then show ?thesis
    using ReadMsg_WriteMsg [OF assms(1,3), of s] by (simp add: Send.simps [of _ _ _ "q @ s"] encodeKeys_def)
next
  case False
  let ?ks = "sSortByLocation y (dedupeKeys ks)"
  have ms: "mset ?ks = mset (remdups ks)" using assms(6) dedupeKeys_mset by simp
  then have "set ?ks = set ks" by (metis mset_eq_setD set_remdups)
  then have "goodRecords (map (sendRecord y) ?ks) = (None, map rec ?ks)" using assms(5) by (intro goodRecords_all) simp
  from SendPackRecords_ok [OF assms(1,2) this, of "sPackRuns y" "sTrailer y"] obtain b where
    b: "answerWants marshal y ks = (None, b)" "prAll unmarshal n (NewPackReader (b @ rest)) =
      (concat (sPackRuns y (map rec ?ks)) @ concat (sTrailer y), None, \<lparr>prStream = rest, prCur = [], prDone = True, prErr = None\<rparr>)"
    unfolding answerWants_def by blast
  have "Send marshal unmarshal y (q @ s) = (let (e, b', s') = Send marshal unmarshal y s in (e, b @ b', s'))"
    using ReadMsg_WriteMsg [OF assms(1,3), of s] False b(1) decodeKeys_encodeKeys [OF assms(4)]
    by (simp add: Send.simps [of _ _ _ "q @ s"] encodeKeys_def)
  with False ms b(2) show ?thesis by auto
qed

definition wantMarshal :: "Msg \<Rightarrow> string + bytes" where
  "wantMarshal m = (if mType m = TWants then
       (if m = zeroMsg\<lparr>mType := TWants, mKeys := mKeys m\<rparr> \<and> list_all (\<lambda>k. length k = 1) (mKeys m) then Inr (char_of (6 :: nat) # concat (mKeys m)) else Inl ''unsupported'')
     else tinyMarshal m)"

definition wantUnmarshal :: "bytes \<Rightarrow> string + Msg" where
  "wantUnmarshal b = (case b of [] \<Rightarrow> Inl ''empty''
     | c # d \<Rightarrow> if c = char_of (6 :: nat) then Inr (zeroMsg\<lparr>mType := TWants, mKeys := map (\<lambda>c. [c]) d\<rparr>) else tinyUnmarshal b)"

lemma concat_singles: "list_all (\<lambda>k. length k = 1) ks \<Longrightarrow> map (\<lambda>c. [c]) (concat ks) = ks"
  by (induction ks) (auto simp: length_Suc_conv)

lemma want_codec: "codecOK wantMarshal wantUnmarshal"
  unfolding codecOK_def
proof (intro allI impI)
  fix m b
  assume m: "wantMarshal m = Inr b"
  show "wantUnmarshal b = Inr m"
  proof (cases "mType m = TWants")
    case True
    with m show ?thesis by (auto simp: wantMarshal_def wantUnmarshal_def concat_singles split: if_splits)
  next
    case False
    with m have t: "tinyMarshal m = Inr b" by (simp add: wantMarshal_def)
    then obtain d where d: "b = char_of (nat (mType m)) # d" "mType m \<in> {0..255}" by (auto simp: tinyMarshal_def split: if_splits)
    have "nat (mType m) mod 256 \<noteq> 6" using d(2) False by auto
    then have "char_of (nat (mType m)) \<noteq> (char_of (6 :: nat) :: char)"
      using arg_cong [of _ _ "of_char :: char \<Rightarrow> nat"] of_char_char_of_mod [of "nat (mType m)"] of_char_char_of_mod [of 6] by fastforce
    with d(1) have "wantUnmarshal b = tinyUnmarshal b" by (simp add: wantUnmarshal_def)
    with t show ?thesis using tiny_codec(1) unfolding codecOK_def by simp
  qed
qed

lemma want_fits: "chunksFit wantMarshal"
  using tiny_fits by (simp add: chunksFit_def wantMarshal_def zeroMsg_def)

theorem send_answers_wants_witness:
  "\<exists>b ks'. mset ks' = mset [''b'', ''a'']
    \<and> Send wantMarshal wantUnmarshal demoSend (PutUint32 4 @ char_of (6 :: nat) # ''aba'' @ PutUint32 1 @ [char_of (6 :: nat)]) = (None, b, [])
    \<and> prAll wantUnmarshal 7 (NewPackReader b) = (concat ks' @ ''!'', None, \<lparr>prStream = [], prCur = [], prDone = True, prErr = None\<rparr>)"
proof -
  have four: "4 = Suc (Suc (Suc (Suc 0)))" by simp
  have q: "WriteMsg wantMarshal (zeroMsg\<lparr>mType := TWants, mKeys := encodeKeys [''a'', ''b'', ''a'']\<rparr>) = Inr (PutUint32 4 @ char_of (6 :: nat) # ''aba'')"
    "WriteMsg wantMarshal (zeroMsg\<lparr>mType := TWants, mKeys := encodeKeys []\<rparr>) = Inr (PutUint32 1 @ [char_of (6 :: nat)])"
    by (simp_all add: WriteMsg_def wantMarshal_def encodeKeys_def zeroMsg_def MaxFrame_def four)
  have y: "\<forall>k \<in> set ks. sKeyParse demoSend k = Some k" "\<forall>xs. mset (sSortByLocation demoSend xs) = mset xs" for ks
    by (simp_all add: demoSend_def)
  have r: "\<forall>k \<in> set [''a'', ''b'', ''a'']. sendRecord demoSend k = Inr (id k)" "\<forall>k \<in> set []. sendRecord demoSend k = Inr (id k)"
    by (simp_all add: sendRecord_def demoSend_def demoContent_def)
  have e: "Send wantMarshal wantUnmarshal demoSend (PutUint32 1 @ [char_of (6 :: nat)]) = (None, [], [])"
    using send_answers_wants [OF want_codec want_fits q(2) y(1) r(2) y(2), of "[]"] by simp
  show ?thesis
    using send_answers_wants [OF want_codec want_fits q(1) y(1) r(1) y(2), of "PutUint32 1 @ [char_of (6 :: nat)]" 7 "[]"] e
    by (simp add: demoSend_def)
qed

end
