(* ===== verification/SyncServer.thy ===== *)
theory SyncServer
  imports WantSync
begin

text \<open>
  The sync server (\<open>src/amberiroh/server.go\<close>): pushes with compare-and-swap, pulls, pins,
  listings, and the rendezvous of extra data streams with their transfer.

  The object store, the ref store, the collector's write barrier and the reference codec
  are the parameters of \<open>srvExt\<close>, over a world \<open>'w\<close>.  \<open>vOthers\<close> is what the other
  goroutines do to the world: at point 0 while a push transfers, at point 1 while it
  holds the lock of its ref name.  A handler returns its error, the messages it sent on
  the control stream, and the world.
\<close>

section \<open>State and parameters\<close>

record Reference =
  refName :: string
  refKey :: bytes
  refCreatedAt :: int
  refUser :: string

datatype getRef = RefFound bytes | RefNotFound | RefFault string

datatype srvErr = ErrName string | ErrRootKey | ErrRefs string | ErrRecord string | ErrCAS string | ErrToken string | ErrReceive rcvErr
  | ErrEncodeRef string | ErrGuard string | ErrWrite string | ErrUnknownRef string | ErrSend "sendErr list" | ErrUnknownOp int

record 'w refGuard =
  gdPrepare :: "key \<Rightarrow> 'w \<Rightarrow> string option \<times> 'w"
  gdCommit :: "key \<Rightarrow> 'w \<Rightarrow> 'w"
  gdAbort :: "key \<Rightarrow> 'w \<Rightarrow> 'w"

record 'w srvExt =
  vSync :: "'w wsExt"
  vRefsGet :: "string \<Rightarrow> 'w \<Rightarrow> getRef"
  vRefsPut :: "string \<Rightarrow> bytes \<Rightarrow> 'w \<Rightarrow> string option \<times> 'w"
  vRefsAll :: "'w \<Rightarrow> string + (string \<times> bytes) list"
  vDecode :: "bytes \<Rightarrow> string + Reference"
  vEncode :: "Reference \<Rightarrow> string + bytes"
  vValidateName :: "string \<Rightarrow> string option"
  vKeyParse :: "bytes \<Rightarrow> key option"
  vGuard :: "'w refGuard option"
  vOnAccess :: "(string \<Rightarrow> 'w \<Rightarrow> 'w) option"
  vOnPin :: "(string \<Rightarrow> 'w \<Rightarrow> 'w) option"
  vOthers :: "nat \<Rightarrow> string \<Rightarrow> 'w \<Rightarrow> 'w"
  vWriteErr :: "Msg \<Rightarrow> string option"
  vText :: "srvErr \<Rightarrow> string"
  vNow :: int
  vToken :: "string + bytes"
  vAttached :: nat
  vDataPorts :: "16 word list"
  vDataEndpoints :: "DataEndpointRec list option"

abbreviation srvBadRequest :: string where "srvBadRequest \<equiv> ''bad-request''"
abbreviation srvUnknownRef :: string where "srvUnknownRef \<equiv> ''unknown-ref''"
abbreviation srvInternal :: string where "srvInternal \<equiv> ''internal''"
abbreviation srvCASMismatch :: string where "srvCASMismatch \<equiv> ''cas-mismatch''"

definition maxDataConns :: nat where "maxDataConns = 16"

section \<open>Failing\<close>

definition failMsg :: "'w srvExt \<Rightarrow> string \<Rightarrow> srvErr \<Rightarrow> Msg" where
  "failMsg x code err = zeroMsg\<lparr>mType := TErr, mCode := code, mText := vText x err\<rparr>"

text \<open>An error that came from the peer is not echoed back.\<close>

fun isRemote :: "srvErr \<Rightarrow> bool" where
  "isRemote (ErrReceive (RcvRemote _)) = True"
| "isRemote (ErrSend errs) = list_ex (\<lambda>e. case e of SendRemote _ \<Rightarrow> True | _ \<Rightarrow> False) errs"
| "isRemote _ = False"

definition failLocal :: "'w srvExt \<Rightarrow> srvErr \<Rightarrow> Msg list" where
  "failLocal x err = (if isRemote err then [] else [failMsg x srvInternal err])"

definition onHook :: "(string \<Rightarrow> 'w \<Rightarrow> 'w) option \<Rightarrow> string \<Rightarrow> 'w \<Rightarrow> 'w" where
  "onHook h name w = (case h of None \<Rightarrow> w | Some f \<Rightarrow> f name w)"

section \<open>Listing and pinning\<close>

fun refInfos :: "'w srvExt \<Rightarrow> (string \<times> bytes) list \<Rightarrow> string + RefInfo list" where
  "refInfos x [] = Inr []"
| "refInfos x ((name, data) # rs) =
     (case vDecode x data of
        Inl err \<Rightarrow> Inl err
      | Inr rec \<Rightarrow>
          (case refInfos x rs of
             Inl err \<Rightarrow> Inl err
           | Inr is \<Rightarrow> Inr (\<lparr>riName = name, riKey = refKey rec, riCreatedAt = refCreatedAt rec, riUser = refUser rec\<rparr> # is)))"

definition handleRefList :: "'w srvExt \<Rightarrow> 'w \<Rightarrow> srvErr option \<times> Msg list \<times> 'w" where
  "handleRefList x w =
     (case vRefsAll x w of
        Inl err \<Rightarrow> (Some (ErrRefs err), [failMsg x srvInternal (ErrRefs err)], w)
      | Inr records \<Rightarrow>
          (case refInfos x records of
             Inl err \<Rightarrow> (Some (ErrRecord err), [failMsg x srvInternal (ErrRecord err)], w)
           | Inr infos \<Rightarrow>
               (let m = zeroMsg\<lparr>mType := TRefs, mRefs := infos\<rparr> in
                case vWriteErr x m of Some err \<Rightarrow> (Some (ErrWrite err), [], w) | None \<Rightarrow> (None, [m], w))))"

fun pinNames :: "'w srvExt \<Rightarrow> string list \<Rightarrow> 'w \<Rightarrow> srvErr option \<times> 'w" where
  "pinNames x [] w = (None, w)"
| "pinNames x (name # names) w =
     (case vRefsGet x name w of
        RefNotFound \<Rightarrow> pinNames x names w
      | RefFault err \<Rightarrow> (Some (ErrRefs err), w)
      | RefFound raw \<Rightarrow> pinNames x names (onHook (vOnPin x) name w))"

definition handlePin :: "'w srvExt \<Rightarrow> Msg \<Rightarrow> 'w \<Rightarrow> srvErr option \<times> Msg list \<times> 'w" where
  "handlePin x m w =
     (case pinNames x (mNames m) w of
        (Some err, w1) \<Rightarrow> (Some err, [failMsg x srvInternal err], w1)
      | (None, w1) \<Rightarrow>
          (let ok = zeroMsg\<lparr>mType := TOK\<rparr> in
           case vWriteErr x ok of Some err \<Rightarrow> (Some (ErrWrite err), [], w1) | None \<Rightarrow> (None, [ok], w1)))"

section \<open>Pushing\<close>

text \<open>The number of channels a push runs on, after offering the token.\<close>

definition shardChannels :: "'w srvExt \<Rightarrow> int \<Rightarrow> srvErr + Msg list \<times> nat" where
  "shardChannels x dataConns =
     (if dataConns \<le> 0 then Inr ([], 1)
      else
        (case vToken x of
           Inl err \<Rightarrow> Inl (ErrToken err)
         | Inr token \<Rightarrow>
             (let accept = zeroMsg\<lparr>mType := TAccept, mToken := token, mDataPorts := vDataPorts x,
                    mDataEndpoints := (case vDataEndpoints x of None \<Rightarrow> [] | Some es \<Rightarrow> es)\<rparr>
              in case vWriteErr x accept of
                   Some err \<Rightarrow> Inl (ErrWrite err)
                 | None \<Rightarrow> Inr ([accept], 1 + min (min (nat dataConns) maxDataConns) (vAttached x)))))"

definition checkCAS :: "'w srvExt \<Rightarrow> Msg \<Rightarrow> 'w \<Rightarrow> (srvErr \<times> Msg) option" where
  "checkCAS x m w =
     (let compare = (\<lambda>current. if current = mExpectedOld m then None
            else Some (ErrCAS (mName m), (failMsg x srvCASMismatch (ErrCAS (mName m)))\<lparr>mCurrent := current\<rparr>))
      in case vRefsGet x (mName m) w of
           RefFound raw \<Rightarrow>
             (case vDecode x raw of
                Inl err \<Rightarrow> Some (ErrRecord err, failMsg x srvInternal (ErrRecord err))
              | Inr rec \<Rightarrow> compare (refKey rec))
         | RefNotFound \<Rightarrow> compare []
         | RefFault err \<Rightarrow> Some (ErrRefs err, failMsg x srvInternal (ErrRefs err)))"

definition precondition :: "'w srvExt \<Rightarrow> Msg \<Rightarrow> 'w \<Rightarrow> (srvErr \<times> Msg) option" where
  "precondition x m w = (if mCAS m then checkCAS x m w else None)"

text \<open>Writing the reference, inside the collector's barrier when there is one.\<close>

definition publishRef :: "'w srvExt \<Rightarrow> string \<Rightarrow> key \<Rightarrow> bytes \<Rightarrow> 'w \<Rightarrow> srvErr option \<times> 'w" where
  "publishRef x name k raw w =
     (case vGuard x of
        None \<Rightarrow> (case vRefsPut x name raw w of (Some err, w1) \<Rightarrow> (Some (ErrRefs err), w1) | (None, w1) \<Rightarrow> (None, w1))
      | Some g \<Rightarrow>
          (case gdPrepare g k w of
             (Some err, w1) \<Rightarrow> (Some (ErrGuard err), w1)
           | (None, w1) \<Rightarrow>
               (case vRefsPut x name raw w1 of
                  (Some err, w2) \<Rightarrow> (Some (ErrRefs err), gdAbort g k w2)
                | (None, w2) \<Rightarrow> (None, gdCommit g k w2))))"

text \<open>From taking the lock of the ref name to the reply.\<close>

definition commitPush :: "'w srvExt \<Rightarrow> Msg \<Rightarrow> key \<Rightarrow> 'w \<Rightarrow> srvErr option \<times> Msg list \<times> 'w" where
  "commitPush x m k w =
     (case precondition x m w of
        Some (err, msg) \<Rightarrow> (Some err, [msg], w)
      | None \<Rightarrow>
          (let w1 = vOthers x 1 (mName m) w in
           case vEncode x \<lparr>refName = mName m, refKey = k, refCreatedAt = vNow x, refUser = []\<rparr> of
             Inl err \<Rightarrow> (Some (ErrEncodeRef err), [failMsg x srvInternal (ErrEncodeRef err)], w1)
           | Inr raw \<Rightarrow>
               (case publishRef x (mName m) k raw w1 of
                  (Some err, w2) \<Rightarrow> (Some err, [failMsg x srvInternal err], w2)
                | (None, w2) \<Rightarrow>
                    (let w3 = onHook (vOnAccess x) (mName m) w2;
                         ok = zeroMsg\<lparr>mType := TOK, mKey := k\<rparr>
                     in case vWriteErr x ok of Some err \<Rightarrow> (Some (ErrWrite err), [], w3) | None \<Rightarrow> (None, [ok], w3)))))"

definition handlePush :: "nat \<Rightarrow> 'w srvExt \<Rightarrow> peer \<Rightarrow> Msg \<Rightarrow> 'w \<Rightarrow> (srvErr option \<times> Msg list \<times> 'w) option" where
  "handlePush fuel x p m w =
     (case vValidateName x (mName m) of
        Some err \<Rightarrow> Some (Some (ErrName err), [failMsg x srvBadRequest (ErrName err)], w)
      | None \<Rightarrow>
          (case vKeyParse x (mRoot m) of
             None \<Rightarrow> Some (Some ErrRootKey, [failMsg x srvBadRequest ErrRootKey], w)
           | Some k \<Rightarrow>
               (case precondition x m w of
                  Some (err, msg) \<Rightarrow> Some (Some err, [msg], w)
                | None \<Rightarrow>
                    (case shardChannels x (mDataConns m) of
                       Inl err \<Rightarrow> Some (Some err, [failMsg x srvInternal err], w)
                     | Inr (offer, n) \<Rightarrow>
                         (case Receive fuel (vSync x) p n k w of
                            None \<Rightarrow> None
                          | Some (Some err, st, w1) \<Rightarrow> Some (Some (ErrReceive err), offer @ failLocal x (ErrReceive err), w1)
                          | Some (None, st, w1) \<Rightarrow>
                              (let (err, out, w2) = commitPush x m k (vOthers x 0 (mName m) w1)
                               in Some (err, offer @ out, w2)))))))"

section \<open>Pulling\<close>

text \<open>\<open>inputs\<close> are the client's frames on the channels, the control stream first; the result also
  holds what each \<open>Send\<close> loop wrote.\<close>

definition handlePull ::
  "(Msg \<Rightarrow> string + bytes) \<Rightarrow> (bytes \<Rightarrow> string + Msg) \<Rightarrow> sendExt \<Rightarrow> 'w srvExt \<Rightarrow> (nat \<Rightarrow> bytes) \<Rightarrow> Msg \<Rightarrow> 'w \<Rightarrow>
     srvErr option \<times> Msg list \<times> bytes list \<times> 'w" where
  "handlePull marshal unmarshal y x inputs m w =
     (case vRefsGet x (mName m) w of
        RefNotFound \<Rightarrow> (Some (ErrUnknownRef (mName m)), [failMsg x srvUnknownRef (ErrUnknownRef (mName m))], [], w)
      | RefFault err \<Rightarrow> (Some (ErrRefs err), [failMsg x srvInternal (ErrRefs err)], [], w)
      | RefFound raw \<Rightarrow>
          (let w1 = onHook (vOnAccess x) (mName m) w;
               ref = zeroMsg\<lparr>mType := TRef, mRecord := raw\<rparr>
           in case (if mDataConns m > 0 then
                      (case vToken x of
                         Inl err \<Rightarrow> Inl err
                       | Inr token \<Rightarrow> Inr (ref\<lparr>mToken := token, mDataPorts := vDataPorts x,
                           mDataEndpoints := (case vDataEndpoints x of None \<Rightarrow> [] | Some es \<Rightarrow> es)\<rparr>))
                    else Inr ref) of
                Inl err \<Rightarrow> (Some (ErrToken err), [failMsg x srvInternal (ErrToken err)], [], w1)
              | Inr reply \<Rightarrow>
                  (case vWriteErr x reply of
                     Some err \<Rightarrow> (Some (ErrWrite err), [], [], w1)
                   | None \<Rightarrow>
                       (let n = 1 + (if mDataConns m > 0 then min (min (nat (mDataConns m)) maxDataConns) (vAttached x) else 0);
                            runs = map (\<lambda>i. Send marshal unmarshal y (inputs i)) [0..<n];
                            errs = List.map_filter fst runs;
                            outs = map (fst \<circ> snd) runs
                        in if errs = [] then (None, [reply], outs, w1)
                           else (Some (ErrSend errs), reply # failLocal x (ErrSend errs), outs, w1)))))"

section \<open>What a push may change\<close>

text \<open>What a push relies on, over the records \<open>refs w\<close> of the ref store and the objects \<open>stored w\<close>.
  The ref store reads and writes one record at a time; transfers, the write barrier and
  the access hook leave refs and objects alone; no collection runs between the transfer
  and the commit; and nobody else writes the ref whose lock is held.\<close>

definition refStoreLaws :: "'w srvExt \<Rightarrow> ('w \<Rightarrow> key \<rightharpoonup> bytes) \<Rightarrow> ('w \<Rightarrow> string \<rightharpoonup> bytes) \<Rightarrow> bool" where
  "refStoreLaws x stored refs \<longleftrightarrow>
     (\<forall>n w raw. vRefsGet x n w = RefFound raw \<longrightarrow> refs w n = Some raw)
     \<and> (\<forall>n w. vRefsGet x n w = RefNotFound \<longrightarrow> refs w n = None)
     \<and> (\<forall>n raw w w'. vRefsPut x n raw w = (None, w') \<longrightarrow> refs w' = (refs w)(n \<mapsto> raw) \<and> stored w' = stored w)
     \<and> (\<forall>n raw w w' err. vRefsPut x n raw w = (Some err, w') \<longrightarrow> refs w' = refs w \<and> stored w' = stored w)
     \<and> (\<forall>r raw. vEncode x r = Inr raw \<longrightarrow> vDecode x raw = Inr r)"

definition quietLaws :: "'w srvExt \<Rightarrow> ('w \<Rightarrow> key \<rightharpoonup> bytes) \<Rightarrow> ('w \<Rightarrow> string \<rightharpoonup> bytes) \<Rightarrow> bool" where
  "quietLaws x stored refs \<longleftrightarrow>
     (\<forall>os w. refs (snd (wWriteParallel (vSync x) os w)) = refs w)
     \<and> (\<forall>g. vGuard x = Some g \<longrightarrow> (\<forall>k w. refs (snd (gdPrepare g k w)) = refs w \<and> stored (snd (gdPrepare g k w)) = stored w
          \<and> refs (gdCommit g k w) = refs w \<and> stored (gdCommit g k w) = stored w
          \<and> refs (gdAbort g k w) = refs w \<and> stored (gdAbort g k w) = stored w))
     \<and> (\<forall>f n w. vOnAccess x = Some f \<longrightarrow> refs (f n w) = refs w \<and> stored (f n w) = stored w)
     \<and> (\<forall>i n w. stored w \<subseteq>\<^sub>m stored (vOthers x i n w))
     \<and> (\<forall>n w. refs (vOthers x 1 n w) n = refs w n)"

text \<open>The precondition of a push, read off the ref store: the record's key, or nothing.\<close>

definition casHolds :: "'w srvExt \<Rightarrow> bytes option \<Rightarrow> bytes \<Rightarrow> bool" where
  "casHolds x cur old = (case cur of None \<Rightarrow> old = [] | Some raw \<Rightarrow> (case vDecode x raw of Inl _ \<Rightarrow> False | Inr rec \<Rightarrow> refKey rec = old))"

lemma precondition_holds:
  assumes "refStoreLaws x stored refs" and "precondition x m w = None" and "mCAS m"
  shows "casHolds x (refs w (mName m)) (mExpectedOld m)"
proof (cases "vRefsGet x (mName m) w")
  case (RefFound raw)
  with assms have "refs w (mName m) = Some raw" unfolding refStoreLaws_def by blast
  with assms(2,3) RefFound show ?thesis
    by (auto simp: precondition_def checkCAS_def casHolds_def Let_def split: sum.splits if_splits)
next
  case RefNotFound
  with assms have "refs w (mName m) = None" unfolding refStoreLaws_def by blast
  with assms(2,3) RefNotFound show ?thesis by (auto simp: precondition_def checkCAS_def casHolds_def Let_def split: if_splits)
next
  case (RefFault err)
  with assms(2,3) show ?thesis by (simp add: precondition_def checkCAS_def)
qed

lemma refsPut_effect:
  assumes "refStoreLaws x stored refs" and "vRefsPut x n raw w = (e, w')"
  shows "stored w' = stored w \<and> refs w' = (if e = None then (refs w)(n \<mapsto> raw) else refs w)"
proof (cases e)
  case None
  then have "refs w' = (refs w)(n \<mapsto> raw) \<and> stored w' = stored w" using assms unfolding refStoreLaws_def by blast
  with None show ?thesis by simp
next
  case (Some err)
  then have "refs w' = refs w \<and> stored w' = stored w" using assms unfolding refStoreLaws_def by blast
  with Some show ?thesis by simp
qed

lemma publishRef_effect:
  assumes "refStoreLaws x stored refs" and "quietLaws x stored refs" and "publishRef x n k raw w = (e, w')"
  shows "stored w' = stored w \<and> refs w' = (if e = None then (refs w)(n \<mapsto> raw) else refs w)"
proof (cases "vGuard x")
  case None
  obtain ue w1 where u: "vRefsPut x n raw w = (ue, w1)" by (rule prod.exhaust)
  with None assms(3) refsPut_effect [OF assms(1) u] show ?thesis by (auto simp: publishRef_def split: option.splits)
next
  case (Some g)
  obtain pe w1 where p: "gdPrepare g k w = (pe, w1)" by (rule prod.exhaust)
  have g: "refs (snd (gdPrepare g k v)) = refs v" "stored (snd (gdPrepare g k v)) = stored v" "refs (gdCommit g k v) = refs v"
    "stored (gdCommit g k v) = stored v" "refs (gdAbort g k v) = refs v" "stored (gdAbort g k v) = stored v" for v
    using assms(2) Some unfolding quietLaws_def by blast+
  have w1: "refs w1 = refs w" "stored w1 = stored w" using g(1,2) [of w] p by simp_all
  obtain ue w2 where u: "vRefsPut x n raw w1 = (ue, w2)" by (rule prod.exhaust)
  from refsPut_effect [OF assms(1) u] assms(3) Some p u w1 g(3-6) show ?thesis by (cases pe; cases ue) (auto simp: publishRef_def)
qed

lemma onAccess_quiet:
  assumes "quietLaws x stored refs"
  shows "refs (onHook (vOnAccess x) n w) = refs w" "stored (onHook (vOnAccess x) n w) = stored w"
  using assms unfolding quietLaws_def onHook_def by (auto split: option.split)

lemma commitPush_effect:
  assumes "refStoreLaws x stored refs" and "quietLaws x stored refs" and "commitPush x m k w = (e, out, w')"
  shows "stored w \<subseteq>\<^sub>m stored w'
    \<and> (refs w' (mName m) = refs w (mName m) \<and> e \<noteq> None
       \<or> (\<exists>raw rec. refs w' (mName m) = Some raw \<and> vDecode x raw = Inr rec \<and> refKey rec = k
            \<and> (mCAS m \<longrightarrow> casHolds x (refs w (mName m)) (mExpectedOld m))))"
proof (cases "precondition x m w")
  case (Some em)
  with assms(3) show ?thesis by (cases em) (auto simp: commitPush_def)
next
  case None
  let ?rec = "\<lparr>refName = mName m, refKey = k, refCreatedAt = vNow x, refUser = []\<rparr>" and ?w1 = "vOthers x 1 (mName m) w"
  have o: "stored w \<subseteq>\<^sub>m stored ?w1" "refs ?w1 (mName m) = refs w (mName m)" using assms(2) unfolding quietLaws_def by blast+
  show ?thesis
  proof (cases "vEncode x ?rec")
    case (Inl err)
    with assms(3) None o show ?thesis by (auto simp: commitPush_def Let_def)
  next
    case (Inr raw)
    have d: "vDecode x raw = Inr ?rec" using assms(1) Inr unfolding refStoreLaws_def by blast
    obtain pe w2 where p: "publishRef x (mName m) k raw ?w1 = (pe, w2)" by (rule prod.exhaust)
    note eff = publishRef_effect [OF assms(1,2) p]
    show ?thesis
    proof (cases pe)
      case (Some err)
      with assms(3) None o Inr p eff show ?thesis by (auto simp: commitPush_def Let_def)
    next
      case pn: None
      then have "w' = onHook (vOnAccess x) (mName m) w2" using assms(3) None Inr p by (auto simp: commitPush_def Let_def split: option.splits)
      then have "stored w' = stored ?w1" "refs w' (mName m) = Some raw" using eff pn onAccess_quiet [OF assms(2)] by simp_all
      then show ?thesis using o d precondition_holds [OF assms(1) None] by auto
    qed
  qed
qed

lemma receiveLoop_refs:
  assumes "\<And>os w. refs (snd (wWriteParallel x os w)) = refs w" and "receiveLoop fuel x p n rd F prev st w = Some (e, st', w')"
  shows "refs w' = refs w"
  using assms(2)
proof (induction fuel arbitrary: rd F prev st w)
  case (Suc fuel)
  have r: "refs w1 = refs w" if "receiveRound x p rd sh a w = (e1, kids, got, w1)" for sh a e1 kids got w1
    using that assms(1) by (auto simp: receiveRound_def Let_def split: option.splits prod.splits) (metis snd_conv)
  from Suc.prems show ?case
  proof (cases rule: receiveLoop_SucE)
    case (3 ws a c kids got w1 prev' st2)
    then show ?thesis using Suc.IH [OF 3(4)] r [OF 3(3)] by simp
  qed (simp_all add: r)
qed simp

text \<open>The outcomes of a push: it ends before the commit with the refs as they were, or the transfer
  succeeded and the commit decides.\<close>

lemma handlePush_cases:
  assumes "handlePush fuel x p m w = Some (e, out, w')"
  obtains "w' = w" "e \<noteq> None"
  | k n err st where "Receive fuel (vSync x) p n k w = Some (Some err, st, w')" "e \<noteq> None"
  | k n st w1 out' where "vKeyParse x (mRoot m) = Some k" "Receive fuel (vSync x) p n k w = Some (None, st, w1)"
      "commitPush x m k (vOthers x 0 (mName m) w1) = (e, out', w')"
  using assms unfolding handlePush_def
  by (fastforce simp: Let_def split: option.splits sum.splits prod.splits)

section \<open>A concrete server\<close>

text \<open>Refs as an association list beside the objects of the concrete store; a record is its key.\<close>

definition demoRefs :: "(string \<times> bytes) list \<times> key list \<Rightarrow> string \<rightharpoonup> bytes" where
  "demoRefs w = map_of (fst w)"

definition demoSrv :: "((string \<times> bytes) list \<times> key list) srvExt" where
  "demoSrv = \<lparr>vSync = \<lparr>wHas = (\<lambda>w. wHas demoWs (snd w)), wCheck = (\<lambda>w. wCheck demoWs (snd w)), wChildKeys = wChildKeys demoWs,
       wWriteParallel = (\<lambda>os w. let (e, s) = wWriteParallel demoWs os (snd w) in (e, (fst w, s))), wKeyLength = length\<rparr>,
     vRefsGet = (\<lambda>n w. case map_of (fst w) n of None \<Rightarrow> RefNotFound | Some raw \<Rightarrow> RefFound raw),
     vRefsPut = (\<lambda>n raw w. (None, ((n, raw) # fst w, snd w))), vRefsAll = (\<lambda>w. Inr (fst w)),
     vDecode = (\<lambda>raw. Inr \<lparr>refName = ''n'', refKey = raw, refCreatedAt = 5, refUser = []\<rparr>),
     vEncode = (\<lambda>r. if r = \<lparr>refName = ''n'', refKey = refKey r, refCreatedAt = 5, refUser = []\<rparr> then Inr (refKey r) else Inl ''unsupported''),
     vValidateName = (\<lambda>_. None), vKeyParse = Some, vGuard = None, vOnAccess = None, vOnPin = None, vOthers = (\<lambda>_ _ w. w),
     vWriteErr = (\<lambda>_. None), vText = (\<lambda>_. []), vNow = 5, vToken = Inr ''t'', vAttached = 0, vDataPorts = [], vDataEndpoints = None\<rparr>"

lemma demo_srv_laws:
  "wsLaws (vSync demoSrv) (demoStored \<circ> snd)" "refStoreLaws demoSrv (demoStored \<circ> snd) demoRefs" "quietLaws demoSrv (demoStored \<circ> snd) demoRefs"
  subgoal using demo_wsLaws unfolding wsLaws_def by (simp add: demoSrv_def case_prod_unfold Let_def)
  subgoal unfolding refStoreLaws_def by (auto simp: demoSrv_def demoRefs_def split: option.splits if_splits)
  subgoal unfolding quietLaws_def by (simp add: demoSrv_def demoRefs_def case_prod_unfold Let_def)
  done

section \<open>Properties\<close>



end
