(* ===== verification/Transfers.thy ===== *)
theory Transfers
  imports SyncServer "HOL-Library.AList"
begin

text \<open>
  The rendezvous of extra data streams with their transfer (\<open>transfers\<close> and \<open>closeStream\<close> in
  \<open>src/amberiroh/server.go\<close>), under every interleaving of the goroutines involved.

  Streams and channels are numbered.  \<open>attach\<close> looks the channel up under the lock and
  sends to it after releasing the lock, so it is two steps.  A stream is with its own
  attaching goroutine, queued in a channel, held by the transfer, or closed; the order of
  the streams in a channel is left open, and \<open>gather\<close> may take any of them.
\<close>

section \<open>State and steps\<close>

datatype loc = Looked nat | Queued nat | Held bytes | Closed

record tstate =
  tsPending :: "(bytes \<times> nat) list"
  tsNext :: nat
  tsStreams :: "(nat \<times> loc) list"

definition newTransfers :: tstate where
  "newTransfers = \<lparr>tsPending = [], tsNext = 0, tsStreams = []\<rparr>"

abbreviation locOf :: "tstate \<Rightarrow> nat \<Rightarrow> loc option" where
  "locOf s \<equiv> map_of (tsStreams s)"

abbreviation moveTo :: "nat \<Rightarrow> loc \<Rightarrow> tstate \<Rightarrow> tstate" where
  "moveTo rw l s \<equiv> s\<lparr>tsStreams := AList.update rw l (tsStreams s)\<rparr>"

definition transferCreate :: "bytes \<Rightarrow> tstate \<Rightarrow> tstate" where
  "transferCreate token s = s\<lparr>tsPending := AList.update token (tsNext s) (tsPending s), tsNext := Suc (tsNext s)\<rparr>"

definition attachLookup :: "bytes \<Rightarrow> nat \<Rightarrow> tstate \<Rightarrow> tstate" where
  "attachLookup token rw s =
     (case map_of (tsPending s) token of
        None \<Rightarrow> moveTo rw Closed s
      | Some ch \<Rightarrow> moveTo rw (Looked ch) s)"

definition queueLen :: "nat \<Rightarrow> tstate \<Rightarrow> nat" where
  "queueLen ch s = length (filter (\<lambda>(rw, l). l = Queued ch) (tsStreams s))"

definition attachSend :: "nat \<Rightarrow> tstate \<Rightarrow> tstate" where
  "attachSend rw s =
     (case locOf s rw of
        Some (Looked ch) \<Rightarrow> if queueLen ch s < maxDataConns then moveTo rw (Queued ch) s else moveTo rw Closed s
      | _ \<Rightarrow> s)"

definition gatherOne :: "bytes \<Rightarrow> nat \<Rightarrow> tstate \<Rightarrow> tstate" where
  "gatherOne token rw s =
     (case map_of (tsPending s) token of
        None \<Rightarrow> s
      | Some ch \<Rightarrow> if locOf s rw = Some (Queued ch) then moveTo rw (Held token) s else s)"

definition transferDrop :: "bytes \<Rightarrow> tstate \<Rightarrow> tstate" where
  "transferDrop token s =
     (case map_of (tsPending s) token of
        None \<Rightarrow> s
      | Some ch \<Rightarrow> s\<lparr>tsPending := AList.delete token (tsPending s),
          tsStreams := map (\<lambda>(rw, l). (rw, if l = Queued ch then Closed else l)) (tsStreams s)\<rparr>)"

text \<open>The end of a transfer: drop the token, then close the gathered streams.\<close>

definition transferRelease :: "bytes \<Rightarrow> tstate \<Rightarrow> tstate" where
  "transferRelease token s =
     (let s1 = transferDrop token s
      in s1\<lparr>tsStreams := map (\<lambda>(rw, l). (rw, if l = Held token then Closed else l)) (tsStreams s1)\<rparr>)"

text \<open>One step; with \<open>strict\<close>, a transfer is not released while a stream is between its two steps.\<close>

inductive tstep :: "bool \<Rightarrow> tstate \<Rightarrow> tstate \<Rightarrow> bool" for strict where
  stepCreate: "token \<notin> fst ` set (tsPending s) \<Longrightarrow> tstep strict s (transferCreate token s)"
| stepLookup: "locOf s rw = None \<Longrightarrow> tstep strict s (attachLookup token rw s)"
| stepSend: "tstep strict s (attachSend rw s)"
| stepGather: "tstep strict s (gatherOne token rw s)"
| stepRelease: "(strict \<longrightarrow> (\<forall>ch rw. map_of (tsPending s) token = Some ch \<longrightarrow> locOf s rw \<noteq> Some (Looked ch))) \<Longrightarrow>
    tstep strict s (transferRelease token s)"

abbreviation tsteps :: "bool \<Rightarrow> tstate \<Rightarrow> tstate \<Rightarrow> bool" where
  "tsteps strict \<equiv> (tstep strict)\<^sup>*\<^sup>*"

text \<open>A stream in a channel that no transfer can reach any more.\<close>

definition orphaned :: "tstate \<Rightarrow> nat \<Rightarrow> bool" where
  "orphaned s rw = (case locOf s rw of Some (Queued ch) \<Rightarrow> ch \<notin> snd ` set (tsPending s) | _ \<Rightarrow> False)"

section \<open>Invariants\<close>

definition transfersOK :: "tstate \<Rightarrow> bool" where
  "transfersOK s \<longleftrightarrow> distinct (map fst (tsPending s)) \<and> distinct (map snd (tsPending s)) \<and> distinct (map fst (tsStreams s))
     \<and> (\<forall>ch \<in> snd ` set (tsPending s). ch < tsNext s)
     \<and> (\<forall>rw ch. locOf s rw = Some (Looked ch) \<or> locOf s rw = Some (Queued ch) \<longrightarrow> ch < tsNext s)"

definition attached :: "tstate \<Rightarrow> bool" where
  "attached s \<longleftrightarrow> (\<forall>rw ch. locOf s rw = Some (Looked ch) \<or> locOf s rw = Some (Queued ch) \<longrightarrow> ch \<in> snd ` set (tsPending s))"

lemma map_of_mapval: "map_of (map (\<lambda>(rw, l). (rw, f l)) xs) = map_option f \<circ> map_of xs"
  by (induction xs) auto

lemma update_fresh: "token \<notin> fst ` set p \<Longrightarrow> AList.update token v p = p @ [(token, v)]"
  by (induction p) auto

lemma distinct_delete: "distinct (map snd p) \<Longrightarrow> distinct (map snd (AList.delete token p))"
  by (simp add: AList.delete_eq distinct_map_filter)

lemma delete_subset: "set (AList.delete token p) \<subseteq> set p"
  by (auto simp: AList.delete_eq)

lemma delete_token:
  assumes "distinct (map fst p)" "distinct (map snd p)" "map_of p token = Some ch"
  shows "snd ` set (AList.delete token p) = snd ` set p - {ch}"
  using assms
  by (induction p) (auto simp: AList.delete_eq rev_image_eqI split: if_splits)

lemma locOf_move [simp]: "locOf (moveTo rw l s) = (locOf s)(rw \<mapsto> l)"
  by (simp add: update_conv')

lemma transfersOK_move:
  assumes "transfersOK s" and "\<And>ch. l = Looked ch \<or> l = Queued ch \<Longrightarrow> ch < tsNext s"
  shows "transfersOK (moveTo rw l s)"
proof -
  have "distinct (map fst (AList.update rw l (tsStreams s)))" using assms(1) by (simp add: transfersOK_def distinct_update)
  then show ?thesis using assms unfolding transfersOK_def locOf_move by auto
qed

lemma tsPending_range: "map_of (tsPending s) token = Some ch \<Longrightarrow> ch \<in> snd ` set (tsPending s)"
  by (force dest: map_of_SomeD)

lemma transfersOK_lt:
  assumes "transfersOK s"
  shows "map_of (tsPending s) token = Some ch \<Longrightarrow> ch < tsNext s" and "locOf s rw = Some (Looked ch) \<Longrightarrow> ch < tsNext s"
    and "locOf s rw = Some (Queued ch) \<Longrightarrow> ch < tsNext s"
proof -
  have p: "\<forall>ch \<in> snd ` set (tsPending s). ch < tsNext s"
    and l: "\<And>rw ch. locOf s rw = Some (Looked ch) \<or> locOf s rw = Some (Queued ch) \<Longrightarrow> ch < tsNext s"
    using assms unfolding transfersOK_def by blast+
  show "map_of (tsPending s) token = Some ch \<Longrightarrow> ch < tsNext s" by (rule bspec [OF p tsPending_range])
  show "locOf s rw = Some (Looked ch) \<Longrightarrow> ch < tsNext s" by (rule l [OF disjI1])
  show "locOf s rw = Some (Queued ch) \<Longrightarrow> ch < tsNext s" by (rule l [OF disjI2])
qed

text \<open>Looking up, sending and gathering move at most one stream, to a channel that exists.\<close>

lemma attach_moves:
  "\<exists>l. attachLookup token rw s = moveTo rw l s \<and> (\<forall>ch. l \<noteq> Queued ch) \<and> (\<forall>ch. l = Looked ch \<longrightarrow> map_of (tsPending s) token = Some ch)"
  by (rule exI [of _ "case map_of (tsPending s) token of None \<Rightarrow> Closed | Some ch \<Rightarrow> Looked ch"]) (simp add: attachLookup_def split: option.split)

lemma send_moves:
  "attachSend rw s = s \<or> (\<exists>l ch. attachSend rw s = moveTo rw l s \<and> locOf s rw = Some (Looked ch) \<and> (l = Queued ch \<or> l = Closed))"
proof (cases "\<exists>ch. locOf s rw = Some (Looked ch)")
  case True
  then obtain ch where ch: "locOf s rw = Some (Looked ch)" by blast
  then have "attachSend rw s = moveTo rw (if queueLen ch s < maxDataConns then Queued ch else Closed) s" by (simp add: attachSend_def)
  with ch show ?thesis by (metis (full_types))
next
  case False
  then have "attachSend rw s = s" unfolding attachSend_def by (auto split: option.split loc.split)
  then show ?thesis by blast
qed

lemma gather_moves:
  "gatherOne token rw s = s
    \<or> (\<exists>ch. gatherOne token rw s = moveTo rw (Held token) s \<and> locOf s rw = Some (Queued ch) \<and> map_of (tsPending s) token = Some ch)"
  unfolding gatherOne_def by (simp split: option.split)

text \<open>Dropping a token and closing gathered streams, as one relabelling of the streams.\<close>

definition relabel :: "bytes \<Rightarrow> nat \<Rightarrow> loc \<Rightarrow> loc" where
  "relabel token ch l = (if l = Queued ch \<or> l = Held token then Closed else l)"

lemma locOf_drop:
  "map_of (tsPending s) token = Some ch \<Longrightarrow> locOf (transferDrop token s) rw = map_option (\<lambda>l. if l = Queued ch then Closed else l) (locOf s rw)"
  by (simp add: transferDrop_def map_of_mapval)

lemma locOf_release:
  "locOf (transferRelease token s) rw = map_option (\<lambda>l. if l = Held token then Closed else l) (locOf (transferDrop token s) rw)"
  by (simp add: transferRelease_def Let_def map_of_mapval)

lemma release_keys: "map fst (tsStreams (transferRelease token s)) = map fst (tsStreams s)"
  by (simp add: transferRelease_def transferDrop_def Let_def case_prod_unfold split: option.split)

lemma release_some:
  assumes "map_of (tsPending s) token = Some ch"
  shows "tsPending (transferRelease token s) = AList.delete token (tsPending s)"
    and "tsNext (transferRelease token s) = tsNext s"
    and "locOf (transferRelease token s) rw = map_option (relabel token ch) (locOf s rw)"
  subgoal using assms by (simp add: transferRelease_def transferDrop_def Let_def)
  subgoal using assms by (simp add: transferRelease_def transferDrop_def Let_def)
  subgoal using assms by (cases "locOf s rw") (auto simp: locOf_release locOf_drop relabel_def)
  done

lemma release_none:
  assumes "map_of (tsPending s) token = None"
  shows "tsPending (transferRelease token s) = tsPending s" and "tsNext (transferRelease token s) = tsNext s"
    and "locOf (transferRelease token s) rw = map_option (\<lambda>l. if l = Held token then Closed else l) (locOf s rw)"
  using assms by (simp_all add: locOf_release) (simp_all add: transferRelease_def transferDrop_def Let_def)

text \<open>A released transfer leaves a stream where it was, or closes it.\<close>

lemma release_loc:
  assumes "locOf (transferRelease token s) rw = Some l" and "l \<noteq> Closed"
  shows "locOf s rw = Some l"
  using assms by (cases "map_of (tsPending s) token") (auto simp: release_none release_some relabel_def split: if_splits)

lemma tstep_OK:
  assumes "tstep strict s s'" and "transfersOK s"
  shows "transfersOK s' \<and> tsNext s \<le> tsNext s'"
  using assms
proof (cases rule: tstep.cases)
  case (stepCreate token)
  have ok: "distinct (map fst (tsPending s))" "distinct (map snd (tsPending s))" "distinct (map fst (tsStreams s))"
    "\<And>ch. ch \<in> snd ` set (tsPending s) \<Longrightarrow> ch < tsNext s"
    "\<And>rw ch. locOf s rw = Some (Looked ch) \<or> locOf s rw = Some (Queued ch) \<Longrightarrow> ch < tsNext s"
    using assms(2) unfolding transfersOK_def by blast+
  have s': "tsPending s' = tsPending s @ [(token, tsNext s)]" "tsNext s' = Suc (tsNext s)" "tsStreams s' = tsStreams s"
    using stepCreate by (simp_all add: transferCreate_def update_fresh)
  have "tsNext s \<notin> snd ` set (tsPending s)" using ok(4) by blast
  then have "distinct (map fst (tsPending s'))" "distinct (map snd (tsPending s'))" using ok(1,2) stepCreate(2) unfolding s' by simp_all
  moreover have "ch < Suc (tsNext s)" if "ch \<in> snd ` set (tsPending s')" for ch using that ok(4) unfolding s' by (auto intro: less_SucI)
  moreover have "ch < Suc (tsNext s)" if "locOf s rw = Some (Looked ch) \<or> locOf s rw = Some (Queued ch)" for rw ch
    using ok(5) [OF that] by (rule less_SucI)
  ultimately have "transfersOK s'" using ok(3) unfolding transfersOK_def s'(2,3) by blast
  then show ?thesis using s'(2) by simp
next
  case (stepLookup rw token)
  from attach_moves [of token rw s] obtain l where
    "s' = moveTo rw l s" "\<forall>ch. l \<noteq> Queued ch" "\<forall>ch. l = Looked ch \<longrightarrow> map_of (tsPending s) token = Some ch" using stepLookup by blast
  with transfersOK_move [OF assms(2), of l rw] transfersOK_lt(1) [OF assms(2)] show ?thesis by auto
next
  case (stepSend rw)
  from send_moves [of rw s] stepSend consider "s' = s" | l ch where
    "s' = moveTo rw l s" "locOf s rw = Some (Looked ch)" "l = Queued ch \<or> l = Closed" by blast
  then show ?thesis
  proof cases
    case (2 l ch)
    then show ?thesis using transfersOK_move [OF assms(2), of l rw] transfersOK_lt(2) [OF assms(2) 2(2)] by auto
  qed (use assms(2) in simp)
next
  case (stepGather token rw)
  from gather_moves [of token rw s] stepGather have "s' = s \<or> s' = moveTo rw (Held token) s" by blast
  then show ?thesis using transfersOK_move [OF assms(2), of "Held token" rw] assms(2) by auto
next
  case (stepRelease token)
  have ok: "distinct (map fst (tsPending s))" "distinct (map snd (tsPending s))" "distinct (map fst (tsStreams s))"
    "\<forall>ch \<in> snd ` set (tsPending s). ch < tsNext s" using assms(2) unfolding transfersOK_def by blast+
  have p: "set (tsPending s') \<subseteq> set (tsPending s) \<and> distinct (map fst (tsPending s')) \<and> distinct (map snd (tsPending s')) \<and> tsNext s' = tsNext s"
  proof (cases "map_of (tsPending s) token")
    case None
    then show ?thesis using release_none(1,2) [OF None] stepRelease(1) ok(1,2) by simp
  next
    case (Some ch)
    then show ?thesis using release_some(1,2) [OF Some] stepRelease(1) ok(1,2) AList.distinct_delete [OF ok(1)] distinct_delete [OF ok(2)] delete_subset
      by simp
  qed
  then have "snd ` set (tsPending s') \<subseteq> snd ` set (tsPending s)" by blast
  moreover have "distinct (map fst (tsStreams s'))" using stepRelease(1) ok(3) by (simp add: release_keys)
  moreover have "ch < tsNext s" if "locOf s' rw = Some (Looked ch) \<or> locOf s' rw = Some (Queued ch)" for rw ch
    using that release_loc [of token s rw] transfersOK_lt(2,3) [OF assms(2), of rw ch] unfolding stepRelease(1) by blast
  ultimately have "transfersOK s'" using p ok(4) unfolding transfersOK_def by (metis subset_eq)
  then show ?thesis using p by simp
qed

lemma tsteps_OK: "tsteps strict s s' \<Longrightarrow> transfersOK s \<Longrightarrow> transfersOK s' \<and> tsNext s \<le> tsNext s'"
  by (induction rule: rtranclp_induct) (use tstep_OK order_trans in blast)+

lemma newTransfers_OK: "transfersOK newTransfers"
  by (simp add: newTransfers_def transfersOK_def)

section \<open>Lost and kept streams\<close>

lemma orphaned_iff: "orphaned s rw \<longleftrightarrow> (\<exists>ch. locOf s rw = Some (Queued ch) \<and> ch \<notin> snd ` set (tsPending s))"
  by (auto simp: orphaned_def split: option.splits loc.splits)

lemma orphaned_step:
  assumes "tstep strict s s'" and "transfersOK s" and "orphaned s rw"
  shows "orphaned s' rw"
proof -
  from assms(3) obtain ch where ch: "locOf s rw = Some (Queued ch)" "ch \<notin> snd ` set (tsPending s)" unfolding orphaned_iff by blast
  have keep: "orphaned s' rw" if "s' = moveTo rw' l s" "rw' \<noteq> rw" for rw' l
    using that ch unfolding orphaned_iff that(1) locOf_move by simp
  from assms(1) show ?thesis
  proof (cases rule: tstep.cases)
    case (stepCreate token)
    have "ch \<noteq> tsNext s" using transfersOK_lt(3) [OF assms(2) ch(1)] by simp
    with stepCreate ch show ?thesis unfolding orphaned_iff by (simp add: transferCreate_def update_fresh)
  next
    case (stepLookup rw' token)
    then have "rw' \<noteq> rw" using ch(1) by auto
    with keep attach_moves [of token rw' s] stepLookup(1) show ?thesis by blast
  next
    case (stepSend rw')
    from send_moves [of rw' s] stepSend consider "s' = s" | l ch' where "s' = moveTo rw' l s" "locOf s rw' = Some (Looked ch')" by blast
    then show ?thesis
    proof cases
      case (2 l ch')
      then have "rw' \<noteq> rw" using ch(1) by auto
      then show ?thesis by (rule keep [OF 2(1)])
    qed (use assms(3) in simp)
  next
    case (stepGather token rw')
    from gather_moves [of token rw' s] stepGather consider "s' = s" | ch' where "s' = moveTo rw' (Held token) s"
      "locOf s rw' = Some (Queued ch')" "map_of (tsPending s) token = Some ch'" by blast
    then show ?thesis
    proof cases
      case (2 ch')
      have "ch' \<noteq> ch" using ch(2) tsPending_range [OF 2(3)] by metis
      then have "rw' \<noteq> rw" using ch(1) 2(2) by auto
      then show ?thesis by (rule keep [OF 2(1)])
    qed (use assms(3) in simp)
  next
    case (stepRelease token)
    show ?thesis
    proof (cases "map_of (tsPending s) token")
      case None
      then show ?thesis using ch unfolding orphaned_iff stepRelease(1) by (simp add: release_none)
    next
      case (Some ch')
      then have "ch' \<noteq> ch" using ch(2) tsPending_range [OF Some] by metis
      moreover have "ch \<notin> snd ` set (AList.delete token (tsPending s))" using ch(2) delete_subset [of token "tsPending s"] by blast
      ultimately show ?thesis using ch(1) unfolding orphaned_iff stepRelease(1) by (simp add: release_some [OF Some] relabel_def)
    qed
  qed
qed

lemma orphaned_steps: "tsteps strict s s' \<Longrightarrow> transfersOK s \<Longrightarrow> orphaned s rw \<Longrightarrow> orphaned s' rw"
  by (induction rule: rtranclp_induct) (use orphaned_step tsteps_OK in blast)+

lemma attached_move:
  assumes "attached s" and "\<And>ch. l = Looked ch \<or> l = Queued ch \<Longrightarrow> ch \<in> snd ` set (tsPending s)"
  shows "attached (moveTo rw l s)"
  using assms unfolding attached_def locOf_move by simp

lemma attached_step:
  assumes "tstep True s s'" and "transfersOK s" and "attached s"
  shows "attached s'"
  using assms(1)
proof (cases rule: tstep.cases)
  case (stepCreate token)
  then show ?thesis using assms(3) unfolding attached_def by (simp add: transferCreate_def update_fresh)
next
  case (stepLookup rw token)
  from attach_moves [of token rw s] obtain l where
    "s' = moveTo rw l s" "\<forall>ch. l \<noteq> Queued ch" "\<forall>ch. l = Looked ch \<longrightarrow> map_of (tsPending s) token = Some ch" using stepLookup by blast
  with attached_move [OF assms(3), of l rw] tsPending_range [of s token] show ?thesis by auto
next
  case (stepSend rw)
  from send_moves [of rw s] stepSend consider "s' = s" | l ch where
    "s' = moveTo rw l s" "locOf s rw = Some (Looked ch)" "l = Queued ch \<or> l = Closed" by blast
  then show ?thesis
  proof cases
    case (2 l ch)
    then have "ch \<in> snd ` set (tsPending s)" using assms(3) unfolding attached_def by blast
    with 2 show ?thesis using attached_move [OF assms(3), of l rw] by auto
  qed (use assms(3) in simp)
next
  case (stepGather token rw)
  from gather_moves [of token rw s] stepGather have "s' = s \<or> s' = moveTo rw (Held token) s" by blast
  then show ?thesis using attached_move [OF assms(3), of "Held token" rw] assms(3) by auto
next
  case (stepRelease token)
  have ok: "distinct (map fst (tsPending s))" "distinct (map snd (tsPending s))" using assms(2) unfolding transfersOK_def by blast+
  show ?thesis
    unfolding attached_def
  proof (intro allI impI)
    fix rw ch
    assume l: "locOf s' rw = Some (Looked ch) \<or> locOf s' rw = Some (Queued ch)"
    then have l0: "locOf s rw = Some (Looked ch) \<or> locOf s rw = Some (Queued ch)" using release_loc [of token s rw] unfolding stepRelease(1) by blast
    then have ch: "ch \<in> snd ` set (tsPending s)" using assms(3) unfolding attached_def by blast
    show "ch \<in> snd ` set (tsPending s')"
    proof (cases "map_of (tsPending s) token")
      case None
      then show ?thesis using ch unfolding stepRelease(1) by (simp add: release_none)
    next
      case (Some ch')
      have "ch \<noteq> ch'"
      proof
        assume e: "ch = ch'"
        with l0 stepRelease(2) Some have "locOf s rw = Some (Queued ch')" by auto
        with l e show False unfolding stepRelease(1) by (simp add: release_some [OF Some] relabel_def)
      qed
      then show ?thesis using ch unfolding stepRelease(1) release_some(1) [OF Some] delete_token [OF ok Some] by simp
    qed
  qed
qed

lemma attached_steps:
  assumes "tsteps True newTransfers s"
  shows "transfersOK s \<and> attached s"
  using assms
proof (induction rule: rtranclp_induct)
  case base
  show ?case using newTransfers_OK by (simp add: attached_def newTransfers_def)
next
  case (step s s')
  then show ?case using tstep_OK attached_step by blast
qed

section \<open>Properties\<close>

definition leaked :: tstate where
  "leaked = attachSend 7 (transferRelease ''t'' (attachLookup ''t'' 7 (transferCreate ''t'' newTransfers)))"

lemma leaked_reached: "tsteps False newTransfers leaked" "orphaned leaked 7"
proof -
  have a: "tstep False newTransfers (transferCreate ''t'' newTransfers)" by (rule stepCreate) (simp add: newTransfers_def)
  have b: "tstep False (transferCreate ''t'' newTransfers) (attachLookup ''t'' 7 (transferCreate ''t'' newTransfers))"
    by (rule stepLookup) (simp add: transferCreate_def newTransfers_def)
  have c: "tstep False s (transferRelease ''t'' s)" for s by (rule stepRelease) simp
  have d: "tstep False s (attachSend 7 s)" for s by (rule stepSend)
  note into = rtranclp.rtrancl_into_rtrancl [of "tstep False"]
  show "tsteps False newTransfers leaked" unfolding leaked_def by (rule into [OF into [OF into [OF r_into_rtranclp [of "tstep False", OF a] b] c] d])
  show "orphaned leaked 7" by (simp add: leaked_def attachSend_def transferRelease_def transferDrop_def attachLookup_def transferCreate_def
        newTransfers_def queueLen_def maxDataConns_def orphaned_def Let_def)
qed

text \<open>C32: A data stream can be lost for good. \<open>attach\<close> sends to the channel after it has released
  the lock; if the transfer is released in between, the stream is accepted into a channel
  that nobody can reach: it is never gathered and never closed, whatever happens later.
  This is the only way: as long as no transfer is released between the two steps of an
  attach to it, every queued stream belongs to a pending transfer.\<close>

theorem attach_release_race:
  "(\<exists>s rw. tsteps False newTransfers s \<and> orphaned s rw)
   \<and> (\<forall>s s' rw. tsteps False newTransfers s \<and> orphaned s rw \<and> tsteps False s s' \<longrightarrow> orphaned s' rw \<and> locOf s' rw \<noteq> Some Closed)
   \<and> (\<forall>s rw. tsteps True newTransfers s \<longrightarrow> \<not> orphaned s rw)"
proof (intro conjI allI impI)
  show "\<exists>s rw. tsteps False newTransfers s \<and> orphaned s rw" using leaked_reached by blast
next
  fix s s' rw
  assume "tsteps False newTransfers s \<and> orphaned s rw \<and> tsteps False s s'"
  then show "orphaned s' rw" using tsteps_OK newTransfers_OK orphaned_steps by blast
  then show "locOf s' rw \<noteq> Some Closed" unfolding orphaned_iff by auto
next
  fix s rw
  assume "tsteps True newTransfers s"
  from attached_steps [OF this] show "\<not> orphaned s rw" unfolding orphaned_iff attached_def by blast
qed

theorem attach_release_race_witness:
  "locOf (transferRelease ''t'' leaked) 7 = Some (Queued 0) \<and> orphaned (transferRelease ''t'' leaked) 7"
proof -
  have "tsteps False leaked (transferRelease ''t'' leaked)" by (rule r_into_rtranclp, rule stepRelease) simp
  with attach_release_race [THEN conjunct2, THEN conjunct1, rule_format, of leaked 7 "transferRelease ''t'' leaked"] leaked_reached
  have "orphaned (transferRelease ''t'' leaked) 7" by blast
  moreover have "locOf (transferRelease ''t'' leaked) 7 = Some (Queued 0)"
    by (simp add: leaked_def attachSend_def transferRelease_def transferDrop_def attachLookup_def transferCreate_def
        newTransfers_def queueLen_def maxDataConns_def Let_def)
  ultimately show ?thesis by blast
qed

end
