(* ===== verification/Spec2Isabelle.thy ===== *)
theory Spec2Isabelle
  imports RunnerLoop RunnerJob SchedAttempt SchedCommit GCSweep Transfers
begin

text \<open>
  A verification development for jobs-iroh, a distributed build system.

  \<^bold>\<open>The program.\<close>  A server holds a content-addressed object store and a store of named
  references, and runs the scheduler (\<open>src/sched\<close>).  Clients submit build definitions; the
  scheduler unfolds them into a graph of nodes (imports and the stages of builds) and
  publishes a job for every node whose dependencies are done.  Runners (\<open>src/runnerd\<close>)
  fetch jobs as far as their capacity allows, pull what a job reads, run its stage, push
  what it produced under scratch references, and report a result.  The scheduler takes a
  result once, checks the proposed references against its gate, commits them, and goes on
  with the dependents.  Objects move between all of them with the have/want protocol of
  \<open>src/amberiroh\<close>; the sweep of \<open>src/gcsweep\<close> deletes references that were not used for a
  while, with the clocks kept by \<open>src/reftrack\<close>.

  \<^bold>\<open>Conventions.\<close>  Strings and byte slices are lists of 8-bit characters, keys are their
  bytes, \<open>int64\<close> is \<open>int\<close> with the wrap-around written out (\<open>i64\<close>), \<open>uint64\<close> is a 64-bit
  word, times are nanoseconds.  Errors are values of option and sum types.  A Go map is a
  function or an association list with distinct keys; where the code ranges over a map, the
  order is a parameter.  Pointers to nodes are references into a heap.  Code outside the
  repository (the object store, the reference codec, CBOR, NATS, the clock, file systems)
  is a parameter of the definitions that use it; what a theorem relies on of it is a named
  hypothesis, and its witness gives an instance.  Operations that the code runs under a
  lock are single steps; where the code releases a lock in between, so does the model.

  \<^bold>\<open>Theories.\<close>

  \<^item> \<open>Prelude\<close>: Go strings, hex, integers and sorting; shared lemmas.
  \<^item> \<open>Resources\<close> (\<open>src/resources\<close>): requirements and the parsers of their notation, with the
    exact range in which the parser of memory sizes is right, and that it wraps beyond.
  \<^item> \<open>Wire\<close> (\<open>src/wire\<close>): node names and message ids (round trips, injectivity), payloads, and
    the ladder of resource classes; the locale \<open>class_ladder\<close> is the contract of the ladder
    that scheduler and runner share.
  \<^item> \<open>BuildDef\<close> (\<open>src/builddef\<close>, \<open>src/importdef\<close>): definitions, their validation and canonical
    forms.
  \<^item> \<open>Gate\<close> (\<open>src/sched/gate.go\<close>): what a result may publish.  \<open>gateAllowed\<close> is shown equivalent to
    a table of permitted references; the locale \<open>publish_gate\<close> is what the commit needs of it.
  \<^item> \<open>LogFold\<close> (\<open>src/sched/logfold.go\<close>, \<open>src/sched/failures.go\<close>, \<open>src/events/outputwriter.go\<close>,
    \<open>src/tailbuf\<close>): bounded captures of output against their unbounded references.
  \<^item> \<open>SchedState\<close>, \<open>SchedStore\<close>, \<open>SchedNode\<close>, \<open>SchedResults\<close>, \<open>SchedSnapshot\<close>, \<open>SchedSubmit\<close>
    (\<open>src/sched\<close>): the scheduler's state and all its locked operations: the node engine
    (\<open>require\<close>, \<open>advance\<close> and their mutual recursion), results and commits, requests,
    snapshots, watchers, the ticker.
  \<^item> \<open>SchedGraph\<close>, \<open>SchedInterest\<close>, \<open>SchedEngine\<close>, \<open>SchedDepth\<close>: the invariant of the node graph and
    that joining nodes and withdrawing interest keep it; total correctness of the engine.
  \<^item> \<open>SchedSystem\<close>, \<open>SchedWatch\<close>, \<open>SchedSteps\<close>: the scheduler as a transition system in which the
    operations interleave freely; in every reachable state the table of nodes is the closure
    of what live requests want, operations return, channels are not closed twice, and a
    terminal snapshot arrives.
  \<^item> \<open>SchedOutcome\<close>, \<open>SchedCommit\<close>, \<open>SchedAttempt\<close>: results are applied once; a commit changes only
    what the gate permits and publishes its whole batch; types of the node table, exactness
    of cycle detection, the published job, the retry budget, the no-runner watchdog.
  \<^item> \<open>Admission\<close>, \<open>RunnerLoop\<close>, \<open>RunnerJob\<close> (\<open>src/runnerd\<close>): the capacity ledger (contract: the locale
    \<open>ledger\<close>), the fetch lanes interleaved with job goroutines, which never overcommit, and
    one attempt from the message to the published result.
  \<^item> \<open>RefTrack\<close>, \<open>GCSweep\<close> (\<open>src/reftrack\<close>, \<open>src/gcsweep\<close>): the access tracker (contract: the locale
    \<open>access_tracker\<close>) and the sweep, which deletes only cold references and, as long as
    families are in step, never the closure of an output it leaves behind; and two ways in
    which families get out of step.
  \<^item> \<open>Framing\<close>, \<open>WantSync\<close>, \<open>SyncServer\<close>, \<open>Transfers\<close> (\<open>src/amberiroh\<close>, \<open>src/api\<close>): the framings and the
    pack stream (round trips), the have/want loop (a transfer that succeeds is complete,
    and one with an honest peer succeeds), the server's operations (a push publishes only
    complete trees and honours its precondition), and the rendezvous of data streams under
    all interleavings.

  Every locale is interpreted on the definitions of the model: \<open>ladder\<close> in \<open>Wire\<close>, \<open>gate\<close> in
  \<open>Gate\<close>, \<open>adm\<close> in \<open>Admission\<close>, \<open>trk\<close> in \<open>RefTrack\<close>.

  \<^bold>\<open>Bounds.\<close>  The recursion of the node engine carries a depth bound; \<open>SchedEngine\<close> shows that a
  bound above the measure \<open>mu\<close> of the state is enough, \<open>SchedDepth\<close> that the result does not
  depend on the bound, and \<open>scheduler_operations_return\<close> that from every reachable state
  there is one.  \<open>Receive\<close> carries a bound on its rounds, since a peer may keep it busy for
  ever; \<open>receive_finishes\<close> shows that with an honest peer some bound is enough, by the descent
  of the frontier in the multiset order of the tree.  All other recursions are structural
  or have a termination proof.

  \<^bold>\<open>Not modelled.\<close>  Process wiring (\<open>src/serve\<close>, \<open>src/cmd\<close>, \<open>src/bootstrap\<close>, \<open>src/natsiroh\<close>,
  \<open>src/hostaddr\<close>), terminal and command line (\<open>src/tui\<close>, \<open>src/clientcli\<close>), the HTTP registry
  (\<open>src/registryd\<close>), and dialling and pooling of connections (\<open>src/amberclient\<close>) are I/O around
  the components above.  The stage drivers and the sandbox (\<open>src/runner\<close>, \<open>src/sandbox\<close>) run
  processes and mounts; a stage is a parameter of the runner's job.  Recipes (\<open>src/recipe\<close>)
  are evaluated by an embedded interpreter that is a library.  The tree operations of
  \<open>src/amber\<close> and the walk of \<open>src/cover\<close> read and write a tree format that is defined by
  the object store's library, not in this repository.  Logging, progress callbacks and
  metrics are left out of the modelled operations.  Floating point appears in the weights
  of data channels and in the garbage fraction of a sweep, where exact quotients stand for
  it.
\<close>

end
